(* ===== verification/Rust_Std.thy ===== *)
theory Rust_Std
  imports Prelude
begin

text \<open>
  What the sources use of Rust's standard library beyond plain searching: white-space trimming
  and splitting, \<open>str::lines\<close>, UTF-8 validation, integer parsing and printing, and the parsers
  and printers of \<open>std::net\<close> addresses. The address parsers follow \<open>core::net::parser\<close>: a
  parser takes the unread text and returns a value with the text it leaves unread.
\<close>

section \<open>White space and lines\<close>

text \<open>
  The characters with the Unicode property \<open>White_Space\<close>, as UTF-8: a first byte and the bytes
  that follow it. Every entry starts with an ASCII byte or a UTF-8 lead byte, so on valid UTF-8
  an entry matches only at a character boundary.
\<close>

definition white_space :: "(char \<times> string) list" where
  "white_space = map (\<lambda>(b, bs). (char_of b, map char_of bs))
     ([(32, []), (9, []), (10, []), (11, []), (12, []), (13, []),
       (194, [133]), (194, [160]), (225, [154, 128]),
       (226, [128, 128]), (226, [128, 129]), (226, [128, 130]), (226, [128, 131]),
       (226, [128, 132]), (226, [128, 133]), (226, [128, 134]), (226, [128, 135]),
       (226, [128, 136]), (226, [128, 137]), (226, [128, 138]), (226, [128, 168]),
       (226, [128, 169]), (226, [128, 175]), (226, [129, 159]), (227, [128, 128])]
      :: (nat \<times> nat list) list)"

definition white_space_rev :: "(char \<times> string) list" where
  "white_space_rev =
     map (\<lambda>(b, bs). case rev (b # bs) of [] \<Rightarrow> (b, bs) | c # cs \<Rightarrow> (c, cs)) white_space"

fun ws_prefix :: "(char \<times> string) list \<Rightarrow> string \<Rightarrow> string option" where
  "ws_prefix [] s = None"
| "ws_prefix ((b, bs) # ws) s =
     (case strip_prefix (b # bs) s of Some r \<Rightarrow> Some r | None \<Rightarrow> ws_prefix ws s)"

lemma ws_prefix_shorter [termination_simp]: "ws_prefix ws s = Some r \<Longrightarrow> length r < length s"
  by (induction ws s rule: ws_prefix.induct) (auto simp: strip_prefix_Some split: option.splits)

lemma ws_prefix_shorter_Cons [termination_simp]:
  "ws_prefix ws (c # cs) = Some r \<Longrightarrow> length r < Suc (length cs)"
  by (drule ws_prefix_shorter) simp

fun trim_front :: "(char \<times> string) list \<Rightarrow> string \<Rightarrow> string" where
  "trim_front ws s = (case ws_prefix ws s of None \<Rightarrow> s | Some r \<Rightarrow> trim_front ws r)"

declare trim_front.simps [simp del]

definition trim :: "string \<Rightarrow> string" where
  "trim s = rev (trim_front white_space_rev (rev (trim_front white_space s)))"

fun split_ws :: "string \<Rightarrow> string list" where
  "split_ws [] = [[]]"
| "split_ws (c # cs) =
     (case ws_prefix white_space (c # cs) of
        Some r \<Rightarrow> [] # split_ws r
      | None \<Rightarrow> (case split_ws cs of [] \<Rightarrow> [[c]] | p # ps \<Rightarrow> (c # p) # ps))"

definition split_whitespace :: "string \<Rightarrow> string list" where
  "split_whitespace s = filter (\<lambda>p. p \<noteq> []) (split_ws s)"

definition strip_cr :: "string \<Rightarrow> string" where
  "strip_cr l = (case rev l of [] \<Rightarrow> l | c # cs \<Rightarrow> if c = char_of (13 :: nat) then rev cs else l)"

text \<open>
  \<open>lines\<close>: every line that ends in a line feed loses it and one carriage return before it; a
  last piece with no line feed is kept as it is, unless it is empty.
\<close>

definition lines :: "string \<Rightarrow> string list" where
  "lines s = (let ps = split_on (char_of (10 :: nat)) s in
     map strip_cr (butlast ps) @ (if last ps = [] then [] else [last ps]))"

section \<open>UTF-8\<close>

definition is_cont :: "u8 \<Rightarrow> bool" where
  "is_cont b \<longleftrightarrow> 0x80 \<le> b \<and> b \<le> 0xBF"

text \<open>Well-formed UTF-8, by the table of the Unicode standard (as \<open>core::str::from_utf8\<close>).\<close>

fun utf8_valid :: "bytes \<Rightarrow> bool" where
  "utf8_valid [] = True"
| "utf8_valid (a # r) =
     (if a \<le> 0x7F then utf8_valid r
      else case r of [] \<Rightarrow> False
      | b # r2 \<Rightarrow>
        if 0xC2 \<le> a \<and> a \<le> 0xDF then is_cont b \<and> utf8_valid r2
        else case r2 of [] \<Rightarrow> False
        | c # r3 \<Rightarrow>
          if a = 0xE0 then 0xA0 \<le> b \<and> b \<le> 0xBF \<and> is_cont c \<and> utf8_valid r3
          else if a = 0xED then 0x80 \<le> b \<and> b \<le> 0x9F \<and> is_cont c \<and> utf8_valid r3
          else if 0xE1 \<le> a \<and> a \<le> 0xEF then is_cont b \<and> is_cont c \<and> utf8_valid r3
          else case r3 of [] \<Rightarrow> False
          | d # r4 \<Rightarrow>
            if a = 0xF0 then 0x90 \<le> b \<and> b \<le> 0xBF \<and> is_cont c \<and> is_cont d \<and> utf8_valid r4
            else if 0xF1 \<le> a \<and> a \<le> 0xF3
            then is_cont b \<and> is_cont c \<and> is_cont d \<and> utf8_valid r4
            else if a = 0xF4
            then 0x80 \<le> b \<and> b \<le> 0x8F \<and> is_cont c \<and> is_cont d \<and> utf8_valid r4
            else False)"

section \<open>Numbers\<close>

definition digit_char :: "nat \<Rightarrow> char" where
  "digit_char d = (if d < 10 then char_of (48 + d) else char_of (87 + d))"

definition to_digit :: "nat \<Rightarrow> char \<Rightarrow> nat option" where
  "to_digit radix c =
     (let n = of_char c :: nat;
          d = (if 48 \<le> n \<and> n \<le> 57 then Some (n - 48)
               else if 97 \<le> n \<and> n \<le> 122 then Some (n - 87)
               else if 65 \<le> n \<and> n \<le> 90 then Some (n - 55) else None)
      in case d of Some k \<Rightarrow> if k < radix then Some k else None | None \<Rightarrow> None)"

fun digits_of :: "nat \<Rightarrow> nat \<Rightarrow> nat list" where
  "digits_of radix n =
     (if radix < 2 \<or> n < radix then [n] else digits_of radix (n div radix) @ [n mod radix])"

declare digits_of.simps [simp del]

text \<open>The \<open>{}\<close> and \<open>{:x}\<close> forms of an unsigned integer.\<close>

definition show_radix :: "nat \<Rightarrow> nat \<Rightarrow> string" where
  "show_radix radix n = map digit_char (digits_of radix n)"

abbreviation show_dec :: "nat \<Rightarrow> string" where
  "show_dec \<equiv> show_radix 10"

abbreviation show_hex :: "nat \<Rightarrow> string" where
  "show_hex \<equiv> show_radix 16"

datatype int_error = EmptyInt | InvalidDigit | PosOverflow

fun dec_loop :: "nat \<Rightarrow> nat \<Rightarrow> string \<Rightarrow> int_error + nat" where
  "dec_loop mx acc [] = Inr acc"
| "dec_loop mx acc (c # cs) =
     (case to_digit 10 c of
        None \<Rightarrow> Inl InvalidDigit
      | Some d \<Rightarrow> if mx < acc * 10 \<or> mx < acc * 10 + d then Inl PosOverflow
                  else dec_loop mx (acc * 10 + d) cs)"

text \<open>\<open>str::parse::<u16>\<close>: an optional \<open>+\<close> and at least one decimal digit, nothing else.\<close>

definition parse_u16 :: "string \<Rightarrow> int_error + u16" where
  "parse_u16 s =
     (if s = [] then Inl EmptyInt
      else if s = ''+'' \<or> s = ''-'' then Inl InvalidDigit
      else let ds = (if hd s = CHR ''+'' then tl s else s) in
           case dec_loop u16_max 0 ds of Inl e \<Rightarrow> Inl e | Inr n \<Rightarrow> Inr (of_nat n))"

section \<open>Network addresses\<close>

datatype ip_addr = V4 u8 u8 u8 u8 | V6 "u16 list"

text \<open>A socket address: the IP, the port and the IPv6 scope id (zero for IPv4).\<close>

datatype socket_addr = SockAddr (sa_ip: ip_addr) (sa_port: u16) (sa_scope: u32)

fun is_ipv4 :: "ip_addr \<Rightarrow> bool" where
  "is_ipv4 (V4 a b c d) = True"
| "is_ipv4 (V6 gs) = False"

abbreviation is_ipv6 :: "ip_addr \<Rightarrow> bool" where
  "is_ipv6 ip \<equiv> \<not> is_ipv4 ip"

definition socket_addr_new :: "ip_addr \<Rightarrow> u16 \<Rightarrow> socket_addr" where
  "socket_addr_new ip port = SockAddr ip port 0"

fun ip_wf :: "ip_addr \<Rightarrow> bool" where
  "ip_wf (V4 a b c d) = True"
| "ip_wf (V6 gs) = (length gs = 8)"

fun sock_wf :: "socket_addr \<Rightarrow> bool" where
  "sock_wf (SockAddr (V4 a b c d) port scope) = (scope = 0)"
| "sock_wf (SockAddr (V6 gs) port scope) = (length gs = 8)"

subsection \<open>Parsing\<close>

definition value_of :: "nat \<Rightarrow> nat list \<Rightarrow> nat" where
  "value_of radix ds = foldl (\<lambda>a d. a * radix + d) 0 ds"

fun span_digits :: "nat \<Rightarrow> string \<Rightarrow> nat list \<times> string" where
  "span_digits radix [] = ([], [])"
| "span_digits radix (c # cs) =
     (case to_digit radix c of
        None \<Rightarrow> ([], c # cs)
      | Some d \<Rightarrow> (let (ds, r) = span_digits radix cs in (d # ds, r)))"

text \<open>
  \<open>read_number\<close>: the longest run of digits; too many digits, a forbidden leading zero or a value
  above the target type's maximum fail.
\<close>

definition read_number ::
  "nat \<Rightarrow> nat option \<Rightarrow> bool \<Rightarrow> nat \<Rightarrow> string \<Rightarrow> (nat \<times> string) option" where
  "read_number radix max_digits allow_zero_prefix mx s =
     (let (ds, r) = span_digits radix s in
      if ds = [] then None
      else if (case max_digits of None \<Rightarrow> False | Some m \<Rightarrow> m < length ds) then None
      else if \<not> allow_zero_prefix \<and> hd ds = 0 \<and> 1 < length ds then None
      else if mx < value_of radix ds then None
      else Some (value_of radix ds, r))"

definition read_octet :: "string \<Rightarrow> (u8 \<times> string) option" where
  "read_octet s = map_option (\<lambda>(n, r). (of_nat n, r)) (read_number 10 (Some 3) False 255 s)"

definition read_dot_octet :: "string \<Rightarrow> (u8 \<times> string) option" where
  "read_dot_octet s = Option.bind (strip_prefix ''.'' s) read_octet"

definition read_ipv4_addr :: "string \<Rightarrow> ((u8 \<times> u8 \<times> u8 \<times> u8) \<times> string) option" where
  "read_ipv4_addr s =
     Option.bind (read_octet s) (\<lambda>(a, s1).
     Option.bind (read_dot_octet s1) (\<lambda>(b, s2).
     Option.bind (read_dot_octet s2) (\<lambda>(c, s3).
     Option.bind (read_dot_octet s3) (\<lambda>(d, s4). Some ((a, b, c, d), s4)))))"

text \<open>\<open>read_separator\<close>: a colon before every group but the first.\<close>

definition read_sep :: "bool \<Rightarrow> string \<Rightarrow> string option" where
  "read_sep first s = (if first then Some s else strip_prefix '':'' s)"

definition read_group :: "bool \<Rightarrow> string \<Rightarrow> (u16 \<times> string) option" where
  "read_group first s =
     Option.bind (read_sep first s) (\<lambda>s'.
       map_option (\<lambda>(n, r). (of_nat n, r)) (read_number 16 (Some 4) True 65535 s'))"

text \<open>
  \<open>read_groups\<close> with \<open>n\<close> slots left: an embedded IPv4 address where at least two slots are
  left, otherwise a hexadecimal group; the flag says that an IPv4 address ended the groups.
\<close>

fun read_groups :: "nat \<Rightarrow> bool \<Rightarrow> string \<Rightarrow> u16 list \<times> bool \<times> string" where
  "read_groups 0 first s = ([], False, s)"
| "read_groups (Suc n) first s =
     (case (if 0 < n then Option.bind (read_sep first s) read_ipv4_addr else None) of
        Some ((a, b, c, d), r) \<Rightarrow> ([u16_from_be_bytes a b, u16_from_be_bytes c d], True, r)
      | None \<Rightarrow>
        (case read_group first s of
           None \<Rightarrow> ([], False, s)
         | Some (g, r) \<Rightarrow> (let (gs, v4, r') = read_groups n False r in (g # gs, v4, r'))))"

definition read_ipv6_addr :: "string \<Rightarrow> (u16 list \<times> string) option" where
  "read_ipv6_addr s =
     (let (hd_groups, hd_ipv4, s1) = read_groups 8 True s in
      if length hd_groups = 8 then Some (hd_groups, s1)
      else if hd_ipv4 then None
      else Option.bind (strip_prefix ''::'' s1) (\<lambda>s2.
        let (tl_groups, _, s3) = read_groups (8 - (length hd_groups + 1)) True s2
        in Some (hd_groups @ replicate (8 - length hd_groups - length tl_groups) 0 @ tl_groups, s3)))"

definition read_ip_addr :: "string \<Rightarrow> (ip_addr \<times> string) option" where
  "read_ip_addr s =
     (case read_ipv4_addr s of
        Some ((a, b, c, d), r) \<Rightarrow> Some (V4 a b c d, r)
      | None \<Rightarrow> map_option (\<lambda>(gs, r). (V6 gs, r)) (read_ipv6_addr s))"

definition read_port :: "string \<Rightarrow> (u16 \<times> string) option" where
  "read_port s = Option.bind (strip_prefix '':'' s) (\<lambda>s'.
     map_option (\<lambda>(n, r). (of_nat n, r)) (read_number 10 None True 65535 s'))"

definition read_scope_id :: "string \<Rightarrow> (u32 \<times> string) option" where
  "read_scope_id s = Option.bind (strip_prefix ''%'' s) (\<lambda>s'.
     map_option (\<lambda>(n, r). (of_nat n, r)) (read_number 10 None True 4294967295 s'))"

definition read_socket_addr_v4 :: "string \<Rightarrow> (socket_addr \<times> string) option" where
  "read_socket_addr_v4 s =
     Option.bind (read_ipv4_addr s) (\<lambda>((a, b, c, d), s1).
     Option.bind (read_port s1) (\<lambda>(p, s2). Some (SockAddr (V4 a b c d) p 0, s2)))"

definition read_socket_addr_v6 :: "string \<Rightarrow> (socket_addr \<times> string) option" where
  "read_socket_addr_v6 s =
     Option.bind (strip_prefix ''['' s) (\<lambda>s1.
     Option.bind (read_ipv6_addr s1) (\<lambda>(gs, s2).
     let (scope, s3) = (case read_scope_id s2 of Some x \<Rightarrow> x | None \<Rightarrow> (0, s2)) in
     Option.bind (strip_prefix '']'' s3) (\<lambda>s4.
     Option.bind (read_port s4) (\<lambda>(p, s5). Some (SockAddr (V6 gs) p scope, s5)))))"

definition read_socket_addr :: "string \<Rightarrow> (socket_addr \<times> string) option" where
  "read_socket_addr s =
     (case read_socket_addr_v4 s of Some x \<Rightarrow> Some x | None \<Rightarrow> read_socket_addr_v6 s)"

definition parse_with :: "(string \<Rightarrow> ('a \<times> string) option) \<Rightarrow> string \<Rightarrow> 'a option" where
  "parse_with p s = (case p s of Some (x, []) \<Rightarrow> Some x | _ \<Rightarrow> None)"

definition parse_ip_addr :: "string \<Rightarrow> ip_addr option" where
  "parse_ip_addr s = parse_with read_ip_addr s"

definition parse_ipv6_addr :: "string \<Rightarrow> u16 list option" where
  "parse_ipv6_addr s = parse_with read_ipv6_addr s"

definition parse_socket_addr :: "string \<Rightarrow> socket_addr option" where
  "parse_socket_addr s = parse_with read_socket_addr s"

subsection \<open>Printing\<close>

definition show_ipv4 :: "u8 \<Rightarrow> u8 \<Rightarrow> u8 \<Rightarrow> u8 \<Rightarrow> string" where
  "show_ipv4 a b c d =
     show_dec (unat a) @ ''.'' @ show_dec (unat b) @ ''.'' @ show_dec (unat c) @ ''.'' @
     show_dec (unat d)"

text \<open>The longest run of zero groups, the first one of that length: its start and its length.\<close>

fun longest_zeros :: "nat \<Rightarrow> nat \<times> nat \<Rightarrow> nat \<times> nat \<Rightarrow> u16 list \<Rightarrow> nat \<times> nat" where
  "longest_zeros i longest current [] = longest"
| "longest_zeros i longest current (g # gs) =
     (if g = 0 then
        (let cur = (if snd current = 0 then (i, 1) else (fst current, Suc (snd current)))
         in longest_zeros (Suc i) (if snd longest < snd cur then cur else longest) cur gs)
      else longest_zeros (Suc i) longest (0, 0) gs)"

definition show_groups :: "u16 list \<Rightarrow> string" where
  "show_groups gs = join_with '':'' (map (\<lambda>g. show_hex (unat g)) gs)"

definition is_ipv4_mapped :: "u16 list \<Rightarrow> bool" where
  "is_ipv4_mapped gs \<longleftrightarrow> take 6 gs = [0, 0, 0, 0, 0, 0xFFFF]"

definition show_ipv6 :: "u16 list \<Rightarrow> string" where
  "show_ipv6 gs =
     (if is_ipv4_mapped gs then
        (case (u16_to_be_bytes (gs ! 6), u16_to_be_bytes (gs ! 7)) of
           ([a, b], [c, d]) \<Rightarrow> ''::ffff:'' @ show_ipv4 a b c d
         | _ \<Rightarrow> [])
      else let (start, len) = longest_zeros 0 (0, 0) (0, 0) gs in
        if 1 < len then show_groups (take start gs) @ ''::'' @ show_groups (drop (start + len) gs)
        else show_groups gs)"

fun show_ip_addr :: "ip_addr \<Rightarrow> string" where
  "show_ip_addr (V4 a b c d) = show_ipv4 a b c d"
| "show_ip_addr (V6 gs) = show_ipv6 gs"

fun show_socket_addr :: "socket_addr \<Rightarrow> string" where
  "show_socket_addr (SockAddr (V4 a b c d) port scope) =
     show_ipv4 a b c d @ '':'' @ show_dec (unat port)"
| "show_socket_addr (SockAddr (V6 gs) port scope) =
     (if scope = 0 then ''['' @ show_ipv6 gs @ '']:'' @ show_dec (unat port)
      else ''['' @ show_ipv6 gs @ ''%'' @ show_dec (unat scope) @ '']:'' @ show_dec (unat port))"

end
