(* ===== verification/Async.thy ===== *)
theory Async
  imports Prelude
begin

text \<open>
  Futures. An \<open>async\<close> computation is what it resolves to and how long that takes, in
  nanoseconds from its first poll, or \<open>Never\<close>. The durations of the operating system's and the
  peer's actions are parameters of the components; \<open>tokio::time::timeout\<close> and the \<open>?\<close> operator
  on an awaited result are defined here once.
\<close>

named_theorems fut_simps "how awaited results, timeouts and their outcomes compose"

type_synonym duration = nat

abbreviation nanos_per_sec :: nat where
  "nanos_per_sec \<equiv> 1000000000"

definition from_secs :: "nat \<Rightarrow> duration" where
  "from_secs s = s * nanos_per_sec"

definition as_secs :: "duration \<Rightarrow> nat" where
  "as_secs d = d div nanos_per_sec"

definition as_micros :: "duration \<Rightarrow> nat" where
  "as_micros d = d div 1000"

datatype 'a fut = Ready duration 'a | Never

type_synonym ('e, 'a) rfut = "('e, 'a) res fut"

abbreviation now :: "'a \<Rightarrow> 'a fut" where
  "now x \<equiv> Ready 0 x"

fun delay :: "duration \<Rightarrow> 'a fut \<Rightarrow> 'a fut" where
  "delay t (Ready u x) = Ready (t + u) x"
| "delay t Never = Never"

fun map_fut :: "('a \<Rightarrow> 'b) \<Rightarrow> 'a fut \<Rightarrow> 'b fut" where
  "map_fut f (Ready t x) = Ready t (f x)"
| "map_fut f Never = Never"

text \<open>\<open>await\<close>: run a future, then go on with its value.\<close>

fun await :: "'a fut \<Rightarrow> ('a \<Rightarrow> 'b fut) \<Rightarrow> 'b fut" where
  "await (Ready t x) f = delay t (f x)"
| "await Never f = Never"

text \<open>\<open>fut.await?\<close>: an error or a panic ends the caller there.\<close>

fun await_ok :: "('e, 'a) rfut \<Rightarrow> ('a \<Rightarrow> ('e, 'b) rfut) \<Rightarrow> ('e, 'b) rfut" where
  "await_ok (Ready t (Ok x)) f = delay t (f x)"
| "await_ok (Ready t (Err e)) f = Ready t (Err e)"
| "await_ok (Ready t Panic) f = Ready t Panic"
| "await_ok Never f = Never"

text \<open>\<open>timeout(d, fut).await.map_err(|_| e)?\<close>, and the bare future when no timeout is set.\<close>

fun with_timeout :: "duration option \<Rightarrow> 'e \<Rightarrow> ('e, 'a) rfut \<Rightarrow> ('e, 'a) rfut" where
  "with_timeout None e f = f"
| "with_timeout (Some d) e Never = Ready d (Err e)"
| "with_timeout (Some d) e (Ready t r) = (if t \<le> d then Ready t r else Ready d (Err e))"

text \<open>\<open>tokio::join!\<close>: both values, when the slower one is there.\<close>

fun join_fut :: "'a fut \<Rightarrow> 'b fut \<Rightarrow> ('a \<times> 'b) fut" where
  "join_fut (Ready t x) (Ready u y) = Ready (max t u) (x, y)"
| "join_fut _ _ = Never"

fun fut_value :: "'a fut \<Rightarrow> 'a option" where
  "fut_value (Ready t x) = Some x"
| "fut_value Never = None"

fun resolves_by :: "duration \<Rightarrow> 'a fut \<Rightarrow> bool" where
  "resolves_by d (Ready t x) = (t \<le> d)"
| "resolves_by d Never = False"

section \<open>Lemmas\<close>

lemma delay_0 [simp]: "delay 0 f = f"
  by (cases f) auto

lemma delay_eq_Ready [fut_simps]:
  "delay t f = Ready u x \<longleftrightarrow> (\<exists>v. f = Ready v x \<and> u = t + v)"
  by (cases f) auto

lemma delay_eq_Never [fut_simps]: "delay t f = Never \<longleftrightarrow> f = Never"
  by (cases f) auto

lemma fut_value_delay [simp]: "fut_value (delay t f) = fut_value f"
  by (cases f) auto

lemma fut_value_map [simp]: "fut_value (map_fut g f) = map_option g (fut_value f)"
  by (cases f) auto

lemma fut_value_eq_Some: "fut_value f = Some x \<longleftrightarrow> (\<exists>t. f = Ready t x)"
  by (cases f) auto

lemma fut_value_await [fut_simps]:
  "fut_value (await f g) = Option.bind (fut_value f) (\<lambda>x. fut_value (g x))"
  by (cases f) auto

text \<open>A successful outcome of \<open>await_ok\<close> comes from two successful ones.\<close>

lemma fut_value_await_ok [fut_simps]:
  "fut_value (await_ok f g) = Some (Ok y) \<longleftrightarrow>
   (\<exists>x. fut_value f = Some (Ok x) \<and> fut_value (g x) = Some (Ok y))"
  by (cases "(f, g)" rule: await_ok.cases) auto

lemma fut_value_await_panic [fut_simps]:
  "fut_value (await_ok f g) = Some Panic \<longleftrightarrow>
   fut_value f = Some Panic \<or> (\<exists>x. fut_value f = Some (Ok x) \<and> fut_value (g x) = Some Panic)"
  by (cases "(f, g)" rule: await_ok.cases) auto

lemma with_timeout_ok_iff [fut_simps]:
  "fut_value (with_timeout d e f) = Some (Ok y) \<longleftrightarrow>
   fut_value f = Some (Ok y) \<and> (case d of None \<Rightarrow> True | Some t \<Rightarrow> resolves_by t f)"
  by (cases "(d, e, f)" rule: with_timeout.cases) (auto split: if_splits)

lemma with_timeout_panic_iff [fut_simps]:
  "fut_value (with_timeout d e f) = Some Panic \<longleftrightarrow>
   fut_value f = Some Panic \<and> (case d of None \<Rightarrow> True | Some t \<Rightarrow> resolves_by t f)"
  by (cases "(d, e, f)" rule: with_timeout.cases) (auto split: if_splits)

lemma with_timeout_ok: "fut_value (with_timeout d e f) = Some (Ok y) \<Longrightarrow> fut_value f = Some (Ok y)"
  by (simp add: with_timeout_ok_iff)

text \<open>With a timeout set, a future always resolves, and no later than the timeout.\<close>

lemma with_timeout_resolves: "resolves_by d (with_timeout (Some d) e f)"
  by (cases f) auto

lemma resolves_by_value: "resolves_by d f \<Longrightarrow> \<exists>x. fut_value f = Some x"
  by (cases f) auto

lemma with_timeout_early:
  "resolves_by d f \<Longrightarrow> with_timeout (Some d) e f = f"
  by (cases f) auto

section \<open>Errors of awaited results, and the selection of a first result\<close>

definition lift_err :: "('e \<Rightarrow> 'f) \<Rightarrow> ('e, 'a) rfut \<Rightarrow> ('f, 'a) rfut" where
  "lift_err g f = map_fut (map_err g) f"

lemma fut_value_lift_err_ok [fut_simps]:
  "fut_value (lift_err g f) = Some (Ok x) \<longleftrightarrow> fut_value f = Some (Ok x)"
proof (cases f)
  case (Ready t r)
  then show ?thesis by (cases r) (auto simp: lift_err_def)
qed (simp add: lift_err_def)

lemma fut_value_lift_err_panic [fut_simps]:
  "fut_value (lift_err g f) = Some Panic \<longleftrightarrow> fut_value f = Some Panic"
proof (cases f)
  case (Ready t r)
  then show ?thesis by (cases r) (auto simp: lift_err_def)
qed (simp add: lift_err_def)

lemma lift_err_Never [fut_simps]: "lift_err g f = Never \<longleftrightarrow> f = Never"
  by (cases f) (auto simp: lift_err_def)

lemma lift_err_Ready [simp]: "lift_err g (Ready t r) = Ready t (map_err g r)"
  by (simp add: lift_err_def)

lemma resolves_by_await_ok:
  assumes "resolves_by a f" and "\<And>x. fut_value f = Some (Ok x) \<Longrightarrow> resolves_by b (g x)"
  shows "resolves_by (a + b) (await_ok f g)"
proof (cases f)
  case (Ready t r)
  show ?thesis
  proof (cases r)
    case (Ok x)
    then show ?thesis using assms Ready by (cases "g x") auto
  qed (use assms Ready in auto)
qed (use assms in simp)

lemma resolves_by_mono: "resolves_by a f \<Longrightarrow> a \<le> b \<Longrightarrow> resolves_by b f"
  by (cases f) auto

lemma resolves_by_delay: "resolves_by b f \<Longrightarrow> resolves_by (t + b) (delay t f)"
  by (cases f) auto

text \<open>
  \<open>select_all\<close> on futures that all started at time 0, called at time \<open>now'\<close>: the futures are
  polled in the order of the list, so the first one that is ready at the earliest possible moment
  is taken; \<open>swap_remove\<close> puts the last future in its place.
\<close>

fun ready_at :: "nat \<Rightarrow> 'a fut \<Rightarrow> nat option" where
  "ready_at now' (Ready t x) = Some (max now' t)"
| "ready_at now' Never = None"

fun select_first :: "nat \<Rightarrow> 'a fut list \<Rightarrow> (nat \<times> nat \<times> 'a) option" where
  "select_first now' [] = None"
| "select_first now' (Never # fs) = map_option (\<lambda>(t, i, x). (t, Suc i, x)) (select_first now' fs)"
| "select_first now' (Ready u y # fs) =
     (case select_first now' fs of
        Some (t, i, x) \<Rightarrow> if t < max now' u then Some (t, Suc i, x) else Some (max now' u, 0, y)
      | None \<Rightarrow> Some (max now' u, 0, y))"

definition swap_remove :: "nat \<Rightarrow> 'a list \<Rightarrow> 'a list" where
  "swap_remove i xs = (if Suc i = length xs then butlast xs else butlast (xs[i := last xs]))"

lemma select_first_None: "select_first now' fs = None \<longleftrightarrow> (\<forall>f \<in> set fs. f = Never)"
  by (induction now' fs rule: select_first.induct) (auto split: option.splits)

lemma select_first_Some:
  assumes "select_first now' fs = Some (t, i, x)"
  shows "i < length fs \<and> (\<exists>u. fs ! i = Ready u x \<and> t = max now' u) \<and>
    (\<forall>f \<in> set fs. \<forall>u y. f = Ready u y \<longrightarrow> t \<le> max now' u)"
  using assms
proof (induction now' fs arbitrary: t i x rule: select_first.induct)
  case (3 now' u y fs)
  show ?case
  proof (cases "select_first now' fs")
    case None
    then have "\<forall>f \<in> set fs. f = Never" by (simp add: select_first_None)
    with 3 None show ?thesis by auto
  next
    case (Some z)
    obtain t' i' x' where z: "z = (t', i', x')" by (cases z)
    note ih = "3.IH" [OF Some [unfolded z]]
    show ?thesis
    proof (cases "t' < max now' u")
      case True
      with 3 Some z ih show ?thesis by auto
    next
      case False
      with 3 Some z have "t = max now' u" "i = 0" "x = y" by auto
      with ih False show ?thesis by fastforce
    qed
  qed
qed auto

lemma length_swap_remove: "i < length xs \<Longrightarrow> length (swap_remove i xs) = length xs - 1"
  by (auto simp: swap_remove_def)

section \<open>Awaited results with state\<close>

text \<open>\<open>fut.await?\<close> in code that changes the state behind a mutex: an error keeps the changes.\<close>

fun await_st ::
  "(('e, 'a) res \<times> 's) fut \<Rightarrow> ('a \<Rightarrow> 's \<Rightarrow> (('e, 'b) res \<times> 's) fut) \<Rightarrow> (('e, 'b) res \<times> 's) fut" where
  "await_st (Ready t (Ok x, s)) g = delay t (g x s)"
| "await_st (Ready t (Err e, s)) g = Ready t (Err e, s)"
| "await_st (Ready t (Panic, s)) g = Ready t (Panic, s)"
| "await_st Never g = Never"

text \<open>A computation that leaves the state \<open>s\<close> as it is.\<close>

definition with_st :: "'s \<Rightarrow> ('e, 'a) rfut \<Rightarrow> (('e, 'a) res \<times> 's) fut" where
  "with_st s f = map_fut (\<lambda>r. (r, s)) f"

lemma fut_value_await_st [fut_simps]:
  "fut_value (await_st f g) = Some (Ok y, s') \<longleftrightarrow>
   (\<exists>x s. fut_value f = Some (Ok x, s) \<and> fut_value (g x s) = Some (Ok y, s'))"
  by (cases "(f, g)" rule: await_st.cases) auto

lemma fut_value_await_st_err:
  "fut_value (await_st f g) = Some (Err e, s') \<longleftrightarrow>
   fut_value f = Some (Err e, s') \<or> (\<exists>x s. fut_value f = Some (Ok x, s) \<and> fut_value (g x s) = Some (Err e, s'))"
  by (cases "(f, g)" rule: await_st.cases) auto

lemma fut_value_with_st [fut_simps]:
  "fut_value (with_st s f) = Some (r, s') \<longleftrightarrow> fut_value f = Some r \<and> s' = s"
  by (auto simp: with_st_def)

lemma with_st_Ready [simp]: "with_st s (Ready t r) = Ready t (r, s)" "with_st s Never = Never"
  by (simp_all add: with_st_def)

end
