(* ===== verification/Dns_Message.thy ===== *)
theory Dns_Message
  imports Rust_Std Async
begin

text \<open>
  The data every component passes around: \<open>DohError\<close> (\<open>error.rs\<close>), \<open>Options\<close> and
  \<open>HttpVersion\<close> (\<open>options.rs\<close>), and the part of \<open>hickory_proto\<close>'s message type that the sources
  read or write. The library's functions (wire coding, name comparison, truncation, constructors)
  are a parameter, the record \<open>dnslib\<close>; what the program relies on is stated as a locale over it.
\<close>

section \<open>DNS messages\<close>

text \<open>A domain name: its labels and whether it ends in the root.\<close>

datatype name = Name (labels: "bytes list") (fqdn: bool)

type_synonym record_type = u16

abbreviation RT_A :: record_type where "RT_A \<equiv> 1"
abbreviation RT_TXT :: record_type where "RT_TXT \<equiv> 16"
abbreviation RT_AAAA :: record_type where "RT_AAAA \<equiv> 28"
abbreviation RT_OPT :: record_type where "RT_OPT \<equiv> 41"

datatype rdata =
  RD_A u8 u8 u8 u8 | RD_AAAA "u16 list" | RD_TXT "bytes list" | RD_OPT bytes
| RD_Other record_type bytes

fun rdata_type :: "rdata \<Rightarrow> record_type" where
  "rdata_type (RD_A a b c d) = RT_A"
| "rdata_type (RD_AAAA gs) = RT_AAAA"
| "rdata_type (RD_TXT ss) = RT_TXT"
| "rdata_type (RD_OPT o') = RT_OPT"
| "rdata_type (RD_Other t b) = t"

text \<open>\<open>RData::ip_addr\<close>: the address of an A or AAAA record.\<close>

fun rdata_ip_addr :: "rdata \<Rightarrow> ip_addr option" where
  "rdata_ip_addr (RD_A a b c d) = Some (V4 a b c d)"
| "rdata_ip_addr (RD_AAAA gs) = Some (V6 gs)"
| "rdata_ip_addr _ = None"

record rr =
  rr_name :: name
  rr_ttl :: u32
  rr_class :: u16
  rr_data :: rdata

abbreviation record_type :: "rr \<Rightarrow> record_type" where
  "record_type r \<equiv> rdata_type (rr_data r)"

record query =
  q_name :: name
  q_type :: record_type
  q_class :: u16

datatype message_type = Query | Response

record edns_opt =
  dnssec_ok :: bool
  edns_rest :: bytes

text \<open>
  A message: the header fields the sources touch (\<open>metadata.*\<close>), the remaining header bits as one
  value they only carry along, the four sections and the EDNS options.
\<close>

record message =
  msg_id :: u16
  message_type :: message_type
  truncation :: bool
  checking_disabled :: bool
  recursion_desired :: bool
  header_rest :: u16
  queries :: "query list"
  answers :: "rr list"
  authorities :: "rr list"
  additionals :: "rr list"
  edns :: "edns_opt option"

type_synonym proto_error = string

record dnslib =
  to_bytes :: "message \<Rightarrow> proto_error + bytes"
  from_bytes :: "bytes \<Rightarrow> proto_error + message"
  truncate_msg :: "message \<Rightarrow> message"
  name_eq :: "name \<Rightarrow> name \<Rightarrow> bool"
  eq_ignore_root :: "name \<Rightarrow> name \<Rightarrow> bool"
  name_to_ascii :: "name \<Rightarrow> string"
  name_from_ascii :: "string \<Rightarrow> proto_error + name"
  message_new :: "u16 \<Rightarrow> message_type \<Rightarrow> message"
  query_new :: "name \<Rightarrow> record_type \<Rightarrow> query"
  record_from_rdata :: "name \<Rightarrow> u32 \<Rightarrow> rdata \<Rightarrow> rr"

section \<open>Errors\<close>

text \<open>
  The pieces of a formatted message, so that the texts stay data: a literal, a value shown with
  \<open>{}\<close> or with \<open>{:?}\<close>, a number. The texts of library errors are strings the library produced;
  \<open>StdErr\<close> stands for the text of a standard library error.
\<close>

datatype frag =
  Lit string | Disp string | Dbg string | Num nat | HexByte u8 | StdErr
| DbgType record_type | DbgName name

type_synonym msg = "frag list"

datatype doh_error =
  Bootstrap msg
| Pack proto_error
| Http msg
| UnexpectedStatus nat string
| NonZeroId u16
| InvalidResponse msg
| Timeout duration
| NoSupportedVersions
| Io string
| Quic string
| DnsCrypt msg
| BootstrapAll "doh_error list"

text \<open>
  \<open>BootstrapAll\<close> is the \<open>Bootstrap\<close> error whose text lists the errors of all resolvers
  (\<open>format!("all resolvers failed: {errs:?}")\<close>), kept as the list.
\<close>

type_synonym 'a dres = "(doh_error, 'a) res"
type_synonym 'a dfut = "(doh_error, 'a) rfut"

text \<open>\<open>DohError::should_retry\<close>: timeouts, and QUIC errors that mention 0-RTT or a retry.\<close>

fun should_retry :: "doh_error \<Rightarrow> bool" where
  "should_retry (Timeout d) = True"
| "should_retry (Quic m) = (contains ''0-RTT'' m \<or> contains ''retry'' m)"
| "should_retry _ = False"

section \<open>Options\<close>

datatype http_version = Http11 | Http2 | Http3

fun alpn :: "http_version \<Rightarrow> string" where
  "alpn Http11 = ''http/1.1''"
| "alpn Http2 = ''h2''"
| "alpn Http3 = ''h3''"

definition default_http_versions :: "http_version list" where
  "default_http_versions = [Http11, Http2]"

record 'r options =
  bootstrap :: "'r option"
  http_versions :: "http_version list"
  timeout :: "duration option"
  insecure_skip_verify :: bool
  prefer_ipv6 :: bool
  basic_auth :: "(string \<times> string) option"

definition options_default :: "'r options" where
  "options_default = \<lparr>bootstrap = None, http_versions = [], timeout = Some (from_secs 10),
     insecure_skip_verify = False, prefer_ipv6 = False, basic_auth = None\<rparr>"

definition resolved_http_versions :: "'r options \<Rightarrow> http_version list" where
  "resolved_http_versions o' =
     (if http_versions o' = [] then default_http_versions else http_versions o')"

section \<open>What the program relies on of the message library\<close>

text \<open>
  The laws the components use: \<open>good\<close> marks the messages that survive the wire (every message the
  library itself decoded does); the constructors fill in what they are given; \<open>truncate_msg\<close> keeps
  the id and the question and sets the TC bit with empty record sections; comparing names is an
  equivalence that ignores case.
\<close>

locale dns_codec =
  fixes L :: dnslib and good :: "message \<Rightarrow> bool"
  assumes wire_roundtrip: "good m \<Longrightarrow> \<exists>b. to_bytes L m = Inr b \<and> from_bytes L b = Inr m"
    and decoded_good: "from_bytes L b = Inr m \<Longrightarrow> good m"
    and good_id: "good m \<Longrightarrow> good (m\<lparr>msg_id := i\<rparr>)"
begin

lemma decode_encoded: "good m \<Longrightarrow> to_bytes L m = Inr b \<Longrightarrow> from_bytes L b = Inr m"
  using wire_roundtrip [of m] by auto

end

locale dns_names =
  fixes L :: dnslib
  assumes root_refl: "eq_ignore_root L n n"
    and root_sym: "eq_ignore_root L n m \<Longrightarrow> eq_ignore_root L m n"
    and root_trans: "eq_ignore_root L n m \<Longrightarrow> eq_ignore_root L m k \<Longrightarrow> eq_ignore_root L n k"
    and eq_root: "name_eq L n m \<Longrightarrow> eq_ignore_root L n m"
    and eq_refl: "name_eq L n n"
    and eq_sym: "name_eq L n m \<Longrightarrow> name_eq L m n"
    and eq_trans: "name_eq L n m \<Longrightarrow> name_eq L m k \<Longrightarrow> name_eq L n k"

text \<open>What the constructors fill in.\<close>

locale dns_builder =
  fixes L :: dnslib
  assumes new_id: "msg_id (message_new L i t) = i"
    and new_type: "message_type (message_new L i t) = t"
    and new_empty: "queries (message_new L i t) = []" "answers (message_new L i t) = []"
    and query_name: "q_name (query_new L n ty) = n"
    and query_type: "q_type (query_new L n ty) = ty"
    and record_data: "rr_data (record_from_rdata L n ttl d) = d"

lemma should_retry_iff:
  "should_retry e \<longleftrightarrow>
   (\<exists>d. e = Timeout d) \<or> (\<exists>m. e = Quic m \<and> (contains ''0-RTT'' m \<or> contains ''retry'' m))"
  by (cases e) auto

lemma resolved_http_versions_not_Nil: "resolved_http_versions o' \<noteq> []"
  by (simp add: resolved_http_versions_def default_http_versions_def)

end
