(* ===== verification/Wire.thy ===== *)
theory Wire
  imports Dns_Message
begin

text \<open>
  \<open>client/wire.rs\<close>: the RFC 8484 framing shared by the DoH clients and listeners, the
  \<open>host:port\<close> printer, and \<open>validate_response\<close>, the check every client applies to an answer.
  The base64 engine (\<open>URL_SAFE_NO_PAD\<close>) is the parameter \<open>b64\<close>.
\<close>

record base64 =
  b64_encode :: "bytes \<Rightarrow> string"
  b64_decode :: "string \<Rightarrow> string + bytes"

section \<open>Operations\<close>

definition encode_request :: "dnslib \<Rightarrow> base64 \<Rightarrow> message \<Rightarrow> (string \<times> u16) dres" where
  "encode_request L B req =
     (let original_id = msg_id req;
          zeroed = req\<lparr>msg_id := 0\<rparr>
      in res_bind (lift_sum Pack (to_bytes L zeroed))
           (\<lambda>bytes. Ok (b64_encode B bytes, original_id)))"

text \<open>The indexing \<open>req.queries[0]\<close> panics when the request has no question.\<close>

definition validate_response :: "dnslib \<Rightarrow> message \<Rightarrow> message \<Rightarrow> unit dres" where
  "validate_response L req resp =
     (if length (queries resp) \<noteq> 1
      then Err (InvalidResponse [Lit ''only 1 question allowed; got '', Num (length (queries resp))])
      else (case queries req of
          [] \<Rightarrow> Panic
        | req_q # _ \<Rightarrow>
            (let resp_q = hd (queries resp) in
             if q_type req_q \<noteq> q_type resp_q
             then Err (InvalidResponse [Lit ''mismatched type '', DbgType (q_type resp_q)])
             else if \<not> eq_ignore_root L (q_name req_q) (q_name resp_q)
             then Err (InvalidResponse [Lit ''mismatched name '', DbgName (q_name resp_q)])
             else Ok ())))"

definition decode_response :: "dnslib \<Rightarrow> bytes \<Rightarrow> message \<Rightarrow> u16 \<Rightarrow> message dres" where
  "decode_response L body req original_id =
     res_bind (lift_sum (\<lambda>e. InvalidResponse [Lit ''unpacking response: '', Disp e]) (from_bytes L body))
       (\<lambda>resp. if msg_id resp \<noteq> 0 then Err (NonZeroId (msg_id resp))
               else (let resp = resp\<lparr>msg_id := original_id\<rparr> in
                     res_bind (validate_response L req resp) (\<lambda>_. Ok resp)))"

definition decode_request :: "dnslib \<Rightarrow> base64 \<Rightarrow> string option \<Rightarrow> bytes \<Rightarrow> message dres" where
  "decode_request L B dns_param body =
     res_bind (case dns_param of
          Some param \<Rightarrow>
            lift_sum (\<lambda>e. InvalidResponse [Lit ''decoding dns param: '', Disp e]) (b64_decode B param)
        | None \<Rightarrow> Ok body)
       (\<lambda>bytes. lift_sum (\<lambda>e. InvalidResponse [Lit ''unpacking doh request: '', Disp e])
                  (from_bytes L bytes))"

definition encode_response :: "dnslib \<Rightarrow> message \<Rightarrow> bytes dres" where
  "encode_response L resp = lift_sum Pack (to_bytes L resp)"

definition format_host_port :: "string \<Rightarrow> u16 \<Rightarrow> string" where
  "format_host_port host port =
     (if parse_ipv6_addr host \<noteq> None then ''['' @ host @ '']:'' @ show_dec (unat port)
      else host @ '':'' @ show_dec (unat port))"

section \<open>The contract of a validated answer\<close>

text \<open>
  \<open>same_question L req resp\<close>: the answer has exactly one question, and it is the request's first
  question up to case and a trailing dot.
\<close>

definition same_question :: "dnslib \<Rightarrow> message \<Rightarrow> message \<Rightarrow> bool" where
  "same_question L req resp \<longleftrightarrow>
     (case (queries req, queries resp) of
        (q # _, [r]) \<Rightarrow> q_type q = q_type r \<and> eq_ignore_root L (q_name q) (q_name r)
      | _ \<Rightarrow> False)"

lemma validate_response_ok_iff:
  "validate_response L req resp = Ok () \<longleftrightarrow> same_question L req resp"
  by (auto simp: validate_response_def same_question_def Let_def length_Suc_conv
      split: list.splits if_splits)

lemma validate_response_panic_iff:
  "validate_response L req resp = Panic \<longleftrightarrow> queries req = [] \<and> length (queries resp) = 1"
  by (auto simp: validate_response_def Let_def split: list.splits)

lemma same_question_id [simp]:
  "same_question L (req\<lparr>msg_id := i\<rparr>) resp = same_question L req resp"
  "same_question L req (resp\<lparr>msg_id := i\<rparr>) = same_question L req resp"
  by (simp_all add: same_question_def)

lemma same_question_queries:
  "same_question L req resp \<Longrightarrow> queries req \<noteq> [] \<and> length (queries resp) = 1"
  by (auto simp: same_question_def split: list.splits)

lemma bind_validate_ok:
  "res_bind (validate_response L req resp) (\<lambda>_. Ok x) = Ok y \<longleftrightarrow> same_question L req resp \<and> y = x"
  by (auto simp: res_simps validate_response_ok_iff)

lemma decode_response_ok_iff:
  "decode_response L body req i = Ok m \<longleftrightarrow>
   (\<exists>r. from_bytes L body = Inr r \<and> msg_id r = 0 \<and> m = r\<lparr>msg_id := i\<rparr> \<and> same_question L req r)"
  by (cases "from_bytes L body")
    (auto simp: decode_response_def res_simps Let_def validate_response_ok_iff)

lemma decode_response_no_panic:
  "queries req \<noteq> [] \<Longrightarrow> decode_response L body req i \<noteq> Panic"
  by (cases "from_bytes L body")
    (auto simp: decode_response_def res_simps Let_def validate_response_panic_iff)

text \<open>
  Every client's exchange is an instance: an \<open>Ok\<close> answer has passed the check. The upstream
  set (\<open>upstream_config.rs\<close>) relies on nothing else of a client.
\<close>

locale validated_exchange =
  fixes L :: dnslib and exchange :: "'x \<Rightarrow> message \<Rightarrow> message dfut"
  assumes exchange_validated:
    "fut_value (exchange x req) = Some (Ok resp) \<Longrightarrow> same_question L req resp"
begin

lemma answer_one_question:
  "fut_value (exchange x req) = Some (Ok resp) \<Longrightarrow> length (queries resp) = 1"
  using exchange_validated same_question_queries by blast

lemma answer_same_type:
  "fut_value (exchange x req) = Some (Ok resp) \<Longrightarrow>
   q_type (hd (queries resp)) = q_type (hd (queries req))"
  by (drule exchange_validated) (auto simp: same_question_def split: list.splits)

lemma no_answer_without_question:
  "queries req = [] \<Longrightarrow> fut_value (exchange x req) \<noteq> Some (Ok resp)"
  using exchange_validated same_question_queries by blast

end

section \<open>Round trips\<close>

text \<open>What the framing relies on of the base64 engine.\<close>

definition url_safe :: "char \<Rightarrow> bool" where
  "url_safe c \<longleftrightarrow> (let n = (of_char c :: nat) in
     65 \<le> n \<and> n \<le> 90 \<or> 97 \<le> n \<and> n \<le> 122 \<or> 48 \<le> n \<and> n \<le> 57 \<or> c = CHR ''-'' \<or> c = CHR ''_'')"

locale base64_engine =
  fixes B :: base64
  assumes b64_roundtrip: "b64_decode B (b64_encode B bs) = Inr bs"
    and b64_alphabet: "c \<in> set (b64_encode B bs) \<Longrightarrow> url_safe c"
begin

lemma encoded_is_query_safe:
  "c \<in> set (b64_encode B bs) \<Longrightarrow> c \<notin> set ''&=?#%+/ ''"
  by (drule b64_alphabet) (auto simp: url_safe_def)

end

lemma encode_request_ok_iff:
  "encode_request L B req = Ok (s, i) \<longleftrightarrow>
   (\<exists>b. to_bytes L (req\<lparr>msg_id := 0\<rparr>) = Inr b \<and> s = b64_encode B b \<and> i = msg_id req)"
  by (cases "to_bytes L (req\<lparr>msg_id := 0\<rparr>)") (auto simp: encode_request_def Let_def res_simps)

lemma decode_encode_request:
  assumes "dns_codec L good" "base64_engine B" "good req"
  shows "\<exists>s. encode_request L B req = Ok (s, msg_id req) \<and>
    decode_request L B (Some s) body = Ok (req\<lparr>msg_id := 0\<rparr>)"
proof -
  have "good (req\<lparr>msg_id := 0\<rparr>)"
    using assms(1,3) by (rule dns_codec.good_id)
  then obtain b where b: "to_bytes L (req\<lparr>msg_id := 0\<rparr>) = Inr b" "from_bytes L b = Inr (req\<lparr>msg_id := 0\<rparr>)"
    using dns_codec.wire_roundtrip [OF assms(1)] by blast
  then show ?thesis
    by (auto simp: encode_request_ok_iff decode_request_def base64_engine.b64_roundtrip [OF assms(2)])
qed

lemma decode_encode_response:
  assumes "dns_codec L good" "good resp" "same_question L req resp"
  shows "\<exists>b. encode_response L (resp\<lparr>msg_id := 0\<rparr>) = Ok b \<and>
    decode_response L b req (msg_id req) = Ok (resp\<lparr>msg_id := msg_id req\<rparr>)"
proof -
  have "good (resp\<lparr>msg_id := 0\<rparr>)"
    using assms(1,2) by (rule dns_codec.good_id)
  then obtain b where "to_bytes L (resp\<lparr>msg_id := 0\<rparr>) = Inr b" "from_bytes L b = Inr (resp\<lparr>msg_id := 0\<rparr>)"
    using dns_codec.wire_roundtrip [OF assms(1)] by blast
  then show ?thesis
    using assms(3) by (auto simp: encode_response_def decode_response_ok_iff)
qed

end
