(* ===== verification/Net.thy ===== *)
theory Net
  imports Wire
begin

text \<open>
  The operating system's sockets and the TLS and QUIC libraries, as a parameter \<open>N\<close> of the
  clients. An operation takes the handle it works on and, when it succeeds, gives the handle in
  its next state, so that what a peer answers may depend on everything sent to it before; \<open>N\<close> is
  the world as one call of the program meets it. Nothing
  is assumed about the outcomes: an operation may fail, hang, or return any bytes.
  \<open>read_exact2\<close> is \<open>read_exact\<close> into an array of two bytes.
\<close>

type_synonym 'a io = "(string, 'a) rfut"

datatype cert_verifier = WebpkiRoots | NoVerifier

record tls_config =
  verifier :: cert_verifier
  alpn_protocols :: "string list"

text \<open>
  \<open>build_tls_config\<close> of \<open>doh.rs\<close>, for every TLS and QUIC client: the built-in roots, or the
  verifier that accepts anything when verification is switched off. The server name is not used.
\<close>

definition build_tls_config :: "string \<Rightarrow> bool \<Rightarrow> string list \<Rightarrow> tls_config" where
  "build_tls_config server_name insecure alpns =
     \<lparr>verifier = (if insecure then NoVerifier else WebpkiRoots), alpn_protocols = alpns\<rparr>"

record 'h net =
  udp_bind :: "string \<Rightarrow> 'h io"
  udp_connect :: "'h \<Rightarrow> socket_addr \<Rightarrow> 'h io"
  udp_send :: "'h \<Rightarrow> bytes \<Rightarrow> 'h io"
  udp_recv :: "'h \<Rightarrow> nat \<Rightarrow> bytes io"
  tcp_connect :: "socket_addr \<Rightarrow> 'h io"
  write_all :: "'h \<Rightarrow> bytes \<Rightarrow> 'h io"
  read_exact :: "'h \<Rightarrow> nat \<Rightarrow> (bytes \<times> 'h) io"
  read_exact2 :: "'h \<Rightarrow> ((u8 \<times> u8) \<times> 'h) io"
  server_name_try_from :: "string \<Rightarrow> string + string"
  tls_connect :: "tls_config \<Rightarrow> string \<Rightarrow> 'h \<Rightarrow> 'h io"
  quic_endpoint :: "string \<Rightarrow> string + 'h"
  quic_client_config :: "tls_config \<Rightarrow> string + tls_config"
  quic_connect :: "'h \<Rightarrow> tls_config \<Rightarrow> socket_addr \<Rightarrow> string \<Rightarrow> 'h io"
  quic_open_bi :: "'h \<Rightarrow> 'h io"
  quic_finish :: "'h \<Rightarrow> 'h io"
  getaddrinfo :: "string \<Rightarrow> socket_addr list io"

text \<open>The unspecified local address a UDP socket of the peer's family binds to.\<close>

definition local_for :: "socket_addr \<Rightarrow> string" where
  "local_for addr = (if is_ipv4 (sa_ip addr) then ''0.0.0.0:0'' else ''[::]:0'')"

text \<open>\<open>match self.timeout\<close> around an exchange: the error carries the timeout.\<close>

definition or_timeout :: "duration option \<Rightarrow> 'a dfut \<Rightarrow> 'a dfut" where
  "or_timeout tmo f = (case tmo of Some d \<Rightarrow> with_timeout (Some d) (Timeout d) f | None \<Rightarrow> f)"

lemma or_timeout_ok_iff [fut_simps]:
  "fut_value (or_timeout tmo f) = Some (Ok y) \<longleftrightarrow>
   fut_value f = Some (Ok y) \<and> (case tmo of None \<Rightarrow> True | Some t \<Rightarrow> resolves_by t f)"
  by (cases tmo) (auto simp: or_timeout_def with_timeout_ok_iff)

lemma or_timeout_panic_iff [fut_simps]:
  "fut_value (or_timeout tmo f) = Some Panic \<longleftrightarrow>
   fut_value f = Some Panic \<and> (case tmo of None \<Rightarrow> True | Some t \<Rightarrow> resolves_by t f)"
  by (cases tmo) (auto simp: or_timeout_def with_timeout_panic_iff)

lemma or_timeout_resolves: "resolves_by d (or_timeout (Some d) f)"
  by (simp add: or_timeout_def with_timeout_resolves)

section \<open>Framed exchanges\<close>

text \<open>
  The DNS-over-TCP framing of RFC 1035, section 4.2.2, that the TCP, DoT and DoQ clients share: a
  two-byte big-endian length, then the message.
\<close>

definition read_framed :: "'h net \<Rightarrow> (string \<Rightarrow> doh_error) \<Rightarrow> 'h \<Rightarrow> bytes dfut" where
  "read_framed N wrap h =
     await_ok (lift_err wrap (read_exact2 N h)) (\<lambda>((l0, l1), h).
     let resp_len = unat (u16_from_be_bytes l0 l1) in
     await_ok (lift_err wrap (read_exact N h resp_len)) (\<lambda>(resp_buf, h). now (Ok resp_buf)))"

definition write_framed :: "'h net \<Rightarrow> (string \<Rightarrow> doh_error) \<Rightarrow> 'h \<Rightarrow> bytes \<Rightarrow> 'h dfut" where
  "write_framed N wrap h msg =
     await_ok (lift_err wrap (write_all N h (u16_to_be_bytes (of_nat (length msg))))) (\<lambda>h.
     lift_err wrap (write_all N h msg))"

text \<open>Unpacking and checking a received message, the end of every unzeroed exchange.\<close>

definition unpack_checked :: "dnslib \<Rightarrow> message \<Rightarrow> bytes \<Rightarrow> message dres" where
  "unpack_checked L req b =
     res_bind (lift_sum (\<lambda>e. InvalidResponse [Lit ''unpacking response: '', Disp e]) (from_bytes L b))
       (\<lambda>resp. res_bind (validate_response L req resp) (\<lambda>_. Ok resp))"

lemma unpack_checked_ok_iff:
  "unpack_checked L req b = Ok resp \<longleftrightarrow> from_bytes L b = Inr resp \<and> same_question L req resp"
  by (cases "from_bytes L b")
    (auto simp: unpack_checked_def res_simps validate_response_ok_iff)

lemma unpack_checked_no_panic: "queries req \<noteq> [] \<Longrightarrow> unpack_checked L req b \<noteq> Panic"
  by (cases "from_bytes L b") (auto simp: unpack_checked_def res_simps validate_response_panic_iff)

section \<open>Retrying with a fresh connection\<close>

text \<open>
  The \<open>match\<close> that the DoH, DoH3 and DoQ clients share: an answer is returned; a retryable error on
  a connection that was cached leads to one more attempt; any other error is returned, with the
  cached connection dropped (\<open>cleared\<close>).
\<close>

definition match_retry ::
  "message dfut \<Rightarrow> bool \<Rightarrow> 's \<Rightarrow> (message dres \<times> 's) fut \<Rightarrow> 's \<Rightarrow> (message dres \<times> 's) fut" where
  "match_retry first was_cached st retry cleared =
     await first (\<lambda>r. case r of
        Ok resp \<Rightarrow> now (Ok resp, st)
      | Err e \<Rightarrow> if was_cached \<and> should_retry e then retry else now (Err e, cleared)
      | Panic \<Rightarrow> now (Panic, st))"

lemma match_retry_ok [fut_simps]:
  "fut_value (match_retry first was_cached st retry cleared) = Some (Ok resp, s) \<longleftrightarrow>
   fut_value first = Some (Ok resp) \<and> s = st \<or>
   (\<exists>e. fut_value first = Some (Err e) \<and> was_cached \<and> should_retry e \<and>
      fut_value retry = Some (Ok resp, s))"
proof (cases first)
  case (Ready t r)
  then show ?thesis by (cases r) (auto simp: match_retry_def)
qed (simp add: match_retry_def)

lemma match_retry_err:
  "fut_value (match_retry first was_cached st retry cleared) = Some (Err e, s) \<longleftrightarrow>
   (\<exists>e'. fut_value first = Some (Err e') \<and>
      (if was_cached \<and> should_retry e' then fut_value retry = Some (Err e, s) else e = e' \<and> s = cleared))"
proof (cases first)
  case (Ready t r)
  then show ?thesis by (cases r) (auto simp: match_retry_def)
qed (simp add: match_retry_def)

end
