(* ===== verification/Listener_Io.thy ===== *)
theory Listener_Io
  imports Net
begin

text \<open>
  \<open>listener/io.rs\<close>, \<open>listener/dot.rs\<close> and \<open>listener/doq.rs\<close>: the listeners for plain DNS, DNS over
  TLS and DNS over QUIC. A connection is the bytes the peer sends until it closes its side and the
  bytes written to it; a handler's answer to a query is what it resolves to, \<open>None\<close> when it never
  does.
\<close>

type_synonym handler = "message \<Rightarrow> message dfut"

section \<open>Sockets\<close>

datatype sock_type = DGRAM | STREAM

datatype protocol = UDP | TCP

datatype domain = IPV4 | IPV6

record sock =
  sk_domain :: domain
  sk_type :: sock_type
  sk_protocol :: protocol
  sk_only_v6 :: bool
  sk_reuse :: bool
  sk_bound :: "socket_addr option"
  sk_nonblocking :: bool
  sk_backlog :: "nat option"

text \<open>
  A call on a socket, which the operating system \<open>refuse\<close>s or not, given the sockets that the
  process already has; \<open>f\<close> is what the call does to the socket.
\<close>

datatype sock_op =
  NewSocket | SetOnlyV6 | SetReuseAddress | Bind socket_addr | SetNonblocking | Listen nat | FromStd

type_synonym refusal = "sock list \<Rightarrow> sock_op \<Rightarrow> sock \<Rightarrow> string option"

definition sock_call :: "(sock_op \<Rightarrow> sock \<Rightarrow> string option) \<Rightarrow> sock_op \<Rightarrow> (sock \<Rightarrow> sock) \<Rightarrow> sock \<Rightarrow> sock dres" where
  "sock_call refuse op f s = (case refuse op s of Some e \<Rightarrow> Err (Io e) | None \<Rightarrow> Ok (f s))"

definition new_socket ::
  "(sock_op \<Rightarrow> sock \<Rightarrow> string option) \<Rightarrow> socket_addr \<Rightarrow> sock_type \<Rightarrow> protocol \<Rightarrow> sock dres" where
  "new_socket refuse addr ty protocol =
     (let dom' = (if is_ipv6 (sa_ip addr) then IPV6 else IPV4) in
      res_bind (sock_call refuse NewSocket (\<lambda>s. s)
         \<lparr>sk_domain = dom', sk_type = ty, sk_protocol = protocol, sk_only_v6 = False, sk_reuse = False,
          sk_bound = None, sk_nonblocking = False, sk_backlog = None\<rparr>) (\<lambda>s.
      res_bind (if is_ipv6 (sa_ip addr) then sock_call refuse SetOnlyV6 (sk_only_v6_update (\<lambda>_. True)) s
         else Ok s) (\<lambda>s.
      res_bind (sock_call refuse SetReuseAddress (sk_reuse_update (\<lambda>_. True)) s) (\<lambda>s.
      res_bind (sock_call refuse (Bind addr) (sk_bound_update (\<lambda>_. Some addr)) s) (\<lambda>s.
      sock_call refuse SetNonblocking (sk_nonblocking_update (\<lambda>_. True)) s)))))"

definition bind_udp :: "(sock_op \<Rightarrow> sock \<Rightarrow> string option) \<Rightarrow> socket_addr \<Rightarrow> sock dres" where
  "bind_udp refuse addr =
     res_bind (new_socket refuse addr DGRAM UDP) (sock_call refuse FromStd (\<lambda>s. s))"

definition bind_tcp :: "(sock_op \<Rightarrow> sock \<Rightarrow> string option) \<Rightarrow> socket_addr \<Rightarrow> sock dres" where
  "bind_tcp refuse addr =
     res_bind (new_socket refuse addr STREAM TCP) (\<lambda>s.
     res_bind (sock_call refuse (Listen 1024) (sk_backlog_update (\<lambda>_. Some 1024)) s)
       (sock_call refuse FromStd (\<lambda>s. s)))"

section \<open>UDP\<close>

abbreviation UDP_MAX_MSG_SIZE :: nat where
  "UDP_MAX_MSG_SIZE \<equiv> 512"

text \<open>The bytes sent to the peer; an error means that none are.\<close>

definition fit_udp :: "dnslib \<Rightarrow> message \<Rightarrow> bytes dres" where
  "fit_udp L resp =
     res_bind (lift_sum Pack (to_bytes L resp)) (\<lambda>b.
       if UDP_MAX_MSG_SIZE < length b then lift_sum Pack (to_bytes L (truncate_msg L resp)) else Ok b)"

definition handle_udp_packet :: "dnslib \<Rightarrow> handler \<Rightarrow> bytes \<Rightarrow> bytes dfut" where
  "handle_udp_packet L handle packet =
     await_ok (now (lift_sum (\<lambda>e. InvalidResponse [Lit ''unpacking udp packet: '', Disp e])
        (from_bytes L packet))) (\<lambda>req.
     await_ok (handle req) (\<lambda>resp. now (fit_udp L resp)))"

section \<open>Length-prefixed messages\<close>

text \<open>
  \<open>read_prefixed\<close> on the bytes still to come: the message and what follows it, or nothing when the
  stream ends first.
\<close>

fun read_prefixed :: "bytes \<Rightarrow> (bytes \<times> bytes) option" where
  "read_prefixed (a # b # rest) =
     (let len = unat (u16_from_be_bytes a b)
      in if length rest < len then None else Some (take len rest, drop len rest))"
| "read_prefixed _ = None"

text \<open>
  What a peer takes of the bytes written to it: all of them, or only the first \<open>n\<close>, after which a write
  fails with an error or waits for ever.
\<close>

datatype room = Unlimited | Breaks nat string | Stalls nat

type_synonym stream = "bytes \<times> room"

text \<open>\<open>write_all\<close>: the bytes the peer takes, and the room that is left for the next write.\<close>

fun write_all :: "room \<Rightarrow> bytes \<Rightarrow> bytes \<times> room dfut" where
  "write_all Unlimited b = (b, now (Ok Unlimited))"
| "write_all (Breaks n e) b =
     (if length b \<le> n then (b, now (Ok (Breaks (n - length b) e))) else (take n b, now (Err (Io e))))"
| "write_all (Stalls n) b =
     (if length b \<le> n then (b, now (Ok (Stalls (n - length b)))) else (take n b, Never))"

definition write_prefixed :: "room \<Rightarrow> bytes \<Rightarrow> bytes \<times> room dfut" where
  "write_prefixed room body =
     (if u16_max < length body then ([], now (Err (Pack ''response too large for 2-byte length prefix'')))
      else
        (case write_all room (u16_to_be_bytes (of_nat (length body))) of
           (out, Ready t (Ok room')) \<Rightarrow> (let (out', r) = write_all room' body in (out @ out', delay t r))
         | (out, r) \<Rightarrow> (out, r)))"

lemma read_prefixed_shorter: "read_prefixed s = Some (m, rest) \<Longrightarrow> length rest < length s"
  by (cases s rule: read_prefixed.cases) (auto simp: Let_def split: if_splits)

text \<open>
  How a connection ends: the peer is done, an error closes it, or the task is still waiting, for the
  handler or for the peer to take more, or has panicked.
\<close>

datatype conn_end = Closed | Failed doh_error | Waiting | Panicked

text \<open>What has been written at the end, when a write is followed by \<open>k\<close> unless it ends the task.\<close>

definition after_write :: "bytes \<times> room dfut \<Rightarrow> (room \<Rightarrow> bytes \<times> conn_end) \<Rightarrow> bytes \<times> conn_end" where
  "after_write w k =
     (case fut_value (snd w) of
        None \<Rightarrow> (fst w, Waiting)
      | Some Panic \<Rightarrow> (fst w, Panicked)
      | Some (Err e) \<Rightarrow> (fst w, Failed e)
      | Some (Ok room) \<Rightarrow> (let (out, e) = k room in (fst w @ out, e)))"

lemma after_write_cong [fundef_cong]:
  "w = w' \<Longrightarrow> (\<And>room. k room = k' room) \<Longrightarrow> after_write w k = after_write w' k'"
  by (simp add: after_write_def cong: option.case_cong res.case_cong)

text \<open>
  The loop of \<open>handle_tcp_connection\<close>, and of the DoT listener's \<open>handle_connection\<close> after its
  handshake: the bytes written to the peer, and how it ended. \<open>what\<close> is the text of the error, \<open>handle k\<close>
  the handler's answers at the time of its \<open>k\<close>-th message.
\<close>

function connection_loop ::
  "dnslib \<Rightarrow> string \<Rightarrow> (nat \<Rightarrow> handler) \<Rightarrow> nat \<Rightarrow> room \<Rightarrow> bytes \<Rightarrow> bytes \<times> conn_end" where
  "connection_loop L what handle k room input =
     (case read_prefixed input of
        None \<Rightarrow> ([], Closed)
      | Some (packet, rest) \<Rightarrow>
          (case from_bytes L packet of
             Inl e \<Rightarrow> ([], Failed (InvalidResponse [Lit what, Disp e]))
           | Inr req \<Rightarrow>
               (case fut_value (handle k req) of
                  None \<Rightarrow> ([], Waiting)
                | Some Panic \<Rightarrow> ([], Panicked)
                | Some (Err e) \<Rightarrow> ([], Failed e)
                | Some (Ok resp) \<Rightarrow>
                    (case to_bytes L resp of
                       Inl e \<Rightarrow> ([], Failed (Pack e))
                     | Inr b \<Rightarrow> after_write (write_prefixed room b) (\<lambda>room. connection_loop L what handle (Suc k) room rest)))))"
  by pat_completeness auto
termination
  by (relation "measure (\<lambda>(_, _, _, _, _, input). length input)") (auto dest: read_prefixed_shorter)

declare connection_loop.simps [simp del]

definition handle_tcp_connection :: "dnslib \<Rightarrow> (nat \<Rightarrow> handler) \<Rightarrow> stream \<Rightarrow> bytes \<times> conn_end" where
  "handle_tcp_connection L handle s = connection_loop L ''unpacking tcp message: '' handle 0 (snd s) (fst s)"

definition dot_handle_connection ::
  "dnslib \<Rightarrow> (nat \<Rightarrow> handler) \<Rightarrow> string + stream \<Rightarrow> bytes \<times> conn_end" where
  "dot_handle_connection L handle accepted =
     (case accepted of
        Inl e \<Rightarrow> ([], Failed (Http [Lit ''tls handshake failed: '', Disp e]))
      | Inr s \<Rightarrow> connection_loop L ''unpacking dot message: '' handle 0 (snd s) (fst s))"

section \<open>DNS over QUIC\<close>

text \<open>
  One stream: the peer's bytes until it finishes its side, and the bytes written back. The length
  is a \<open>u16\<close>, so the check against \<open>MAX_MSG_SIZE\<close> never fires. \<open>early\<close> is the text of the QUIC
  library's error for a stream that ends too soon.
\<close>

definition doq_handle_stream :: "dnslib \<Rightarrow> string \<Rightarrow> handler \<Rightarrow> bytes \<Rightarrow> bytes dfut" where
  "doq_handle_stream L early handle input =
     (case input of
        a # b # rest \<Rightarrow>
          (let len = unat (u16_from_be_bytes a b) in
           if 65535 < len then now (Err (InvalidResponse [Lit ''request too large'']))
           else if length rest < len then now (Err (Quic early))
           else
             await_ok (now (lift_sum (\<lambda>e. InvalidResponse [Lit ''unpacking doq request: '', Disp e])
                (from_bytes L (take len rest)))) (\<lambda>req.
             if msg_id req \<noteq> 0 then now (Err (NonZeroId (msg_id req)))
             else
               await_ok (handle req) (\<lambda>resp.
               await_ok (now (lift_sum Pack (to_bytes L (resp\<lparr>msg_id := 0\<rparr>)))) (\<lambda>b.
               if u16_max < length b then now (Err (Pack ''response too large for doq framing''))
               else now (Ok (u16_to_be_bytes (of_nat (length b)) @ b))))))
      | _ \<Rightarrow> now (Err (Quic early)))"

section \<open>Framing\<close>

definition frame :: "bytes \<Rightarrow> bytes" where
  "frame m = u16_to_be_bytes (of_nat (length m)) @ m"

lemma read_frame:
  assumes "length m \<le> 65535"
  shows "read_prefixed (frame m @ rest) = Some (m, rest)"
proof -
  have "unat (of_nat (length m) :: u16) = length m"
    using assms by (simp add: unat_of_nat take_bit_nat_eq_self)
  moreover have "u16_from_be_bytes (ucast (drop_bit 8 w)) (ucast w) = w" for w :: u16
    using u16_from_to_be_bytes [of w] by (simp add: u16_to_be_bytes_def)
  ultimately show ?thesis
    by (simp add: frame_def u16_to_be_bytes_def del: of_nat_eq_iff)
qed

text \<open>
  A stream is the frames of some messages and a rest that has no whole frame: its length is missing,
  or fewer bytes follow than it says.
\<close>

fun incomplete :: "bytes \<Rightarrow> bool" where
  "incomplete (a # b # rest) \<longleftrightarrow> length rest < unat (u16_from_be_bytes a b)"
| "incomplete _ \<longleftrightarrow> True"

definition carries :: "bytes \<Rightarrow> bytes list \<Rightarrow> bool" where
  "carries input ms \<longleftrightarrow> (\<forall>m \<in> set ms. length m \<le> 65535) \<and>
     (\<exists>tail. incomplete tail \<and> input = concat (map frame ms) @ tail)"

lemma read_incomplete: "incomplete tail \<Longrightarrow> read_prefixed tail = None"
  by (cases tail rule: incomplete.cases) (auto simp: Let_def)

lemma carries_read:
  assumes "carries input ms"
  shows "case ms of [] \<Rightarrow> read_prefixed input = None
    | m # ms \<Rightarrow> length m \<le> 65535 \<and> (\<exists>rest. read_prefixed input = Some (m, rest) \<and> carries rest ms)"
  using assms by (cases ms) (auto simp: carries_def read_incomplete read_frame)

lemma u16_to_from_be_bytes: "u16_to_be_bytes (u16_from_be_bytes a b) = [a, b]"
proof -
  have "\<not> bit b (8 + n)" for n using bit_imp_le_length [of b "8 + n"] by auto
  then show ?thesis
    by (auto simp: u16_to_be_bytes_def u16_from_be_bytes_def bit_simps intro!: bit_word_eqI)
qed

lemma u16_unat_bound: "unat w \<le> 65535" for w :: u16
  using unsigned_less [of w, where 'a = nat] by simp

lemma read_prefixed_frame: "read_prefixed s = Some (m, rest) \<Longrightarrow> s = frame m @ rest \<and> length m \<le> 65535"
  using u16_unat_bound [of "u16_from_be_bytes (hd s) (hd (tl s))"]
  by (cases s rule: read_prefixed.cases) (auto simp: Let_def frame_def u16_to_from_be_bytes split: if_splits)

lemma read_prefixed_incomplete: "read_prefixed s = None \<Longrightarrow> incomplete s"
  by (cases s rule: read_prefixed.cases) (auto simp: Let_def split: if_splits)

text \<open>Every stream carries a list of messages.\<close>

lemma carries_some: "\<exists>ms. carries input ms"
proof (induction "length input" arbitrary: input rule: less_induct)
  case less
  show ?case
  proof (cases "read_prefixed input")
    case None
    then show ?thesis by (intro exI [of _ "[]"]) (simp add: carries_def read_prefixed_incomplete)
  next
    case (Some z)
    obtain m rest where z: "z = (m, rest)" by (cases z)
    obtain ms where "carries rest ms" using less.hyps [of rest] read_prefixed_shorter Some z by blast
    then have "carries input (m # ms)"
      using read_prefixed_frame [of input m rest] Some z by (auto simp: carries_def)
    then show ?thesis by blast
  qed
qed

section \<open>A connection answers its messages in order\<close>

text \<open>
  The contract of a stream listener over whole messages: each is answered by \<open>answer\<close>, or ends the
  connection, as an answer does that has no frame.
\<close>

fun answer_messages :: "(nat \<Rightarrow> bytes \<Rightarrow> conn_end + bytes) \<Rightarrow> nat \<Rightarrow> bytes list \<Rightarrow> bytes list \<times> conn_end" where
  "answer_messages answer k [] = ([], Closed)"
| "answer_messages answer k (p # ps) =
     (case answer k p of
        Inl e \<Rightarrow> ([], e)
      | Inr b \<Rightarrow>
          if u16_max < length b then ([], Failed (Pack ''response too large for 2-byte length prefix''))
          else (let (bs, e) = answer_messages answer (Suc k) ps in (b # bs, e)))"

text \<open>The bytes of the answers, each in its frame, and how the connection ends.\<close>

definition stream_output :: "(nat \<Rightarrow> bytes \<Rightarrow> conn_end + bytes) \<Rightarrow> nat \<Rightarrow> bytes list \<Rightarrow> bytes \<times> conn_end" where
  "stream_output answer k ms = (let (bs, e) = answer_messages answer k ms in (concat (map frame bs), e))"

text \<open>What a peer gets of an output, and how the connection then ends.\<close>

fun taken_by :: "room \<Rightarrow> bytes \<times> conn_end \<Rightarrow> bytes \<times> conn_end" where
  "taken_by Unlimited (out, e) = (out, e)"
| "taken_by (Breaks n x) (out, e) = (if length out \<le> n then (out, e) else (take n out, Failed (Io x)))"
| "taken_by (Stalls n) (out, e) = (if length out \<le> n then (out, e) else (take n out, Waiting))"

lemma taken_by_nil [simp]: "taken_by room ([], e) = ([], e)"
  by (cases room) simp_all

lemma length_frame [simp]: "length (frame b) = Suc (Suc (length b))"
  by (simp add: frame_def u16_to_be_bytes_def)

lemma after_write_frame:
  assumes "\<not> u16_max < length b"
  shows "after_write (write_prefixed room b) (\<lambda>room. taken_by room (out, e)) = taken_by room (frame b @ out, e)"
  using assms
  by (cases room) (auto simp: after_write_def write_prefixed_def frame_def u16_to_be_bytes_def
      take_Cons' Let_def split: nat.splits)

lemma after_write_too_long:
  "u16_max < length b \<Longrightarrow>
   after_write (write_prefixed room b) k = ([], Failed (Pack ''response too large for 2-byte length prefix''))"
  by (simp add: after_write_def write_prefixed_def)

text \<open>The loop of a stream listener, and what it amounts to.\<close>

locale stream_listener =
  fixes loop :: "nat \<Rightarrow> room \<Rightarrow> bytes \<Rightarrow> bytes \<times> conn_end"
    and answer :: "nat \<Rightarrow> bytes \<Rightarrow> conn_end + bytes"
  assumes no_message: "read_prefixed input = None \<Longrightarrow> loop k room input = ([], Closed)"
    and one_message: "read_prefixed input = Some (packet, rest) \<Longrightarrow> loop k room input =
      (case answer k packet of
         Inl e \<Rightarrow> ([], e)
       | Inr b \<Rightarrow> after_write (write_prefixed room b) (\<lambda>room. loop (Suc k) room rest))"
begin

lemma answers_in_order: "carries input ms \<Longrightarrow> loop k room input = taken_by room (stream_output answer k ms)"
proof (induction ms arbitrary: input k room)
  case Nil
  then have "read_prefixed input = None" using carries_read [of input "[]"] by simp
  then show ?case by (simp add: no_message stream_output_def)
next
  case (Cons m ms)
  then obtain rest where rest: "read_prefixed input = Some (m, rest)" "carries rest ms"
    using carries_read [of input "m # ms"] by auto
  obtain out e where o: "stream_output answer (Suc k) ms = (out, e)" by (cases "stream_output answer (Suc k) ms")
  show ?case
  proof (cases "answer k m")
    case (Inl x)
    then show ?thesis using rest(1) by (simp add: one_message stream_output_def)
  next
    case (Inr b)
    have "loop (Suc k) room' rest = taken_by room' (out, e)" for room'
      using Cons.IH [OF rest(2)] o by simp
    then have l: "loop k room input = after_write (write_prefixed room b) (\<lambda>room. taken_by room (out, e))"
      using rest(1) Inr by (simp add: one_message)
    show ?thesis
    proof (cases "u16_max < length b")
      case True
      then show ?thesis using l Inr by (simp add: after_write_too_long stream_output_def)
    next
      case False
      then have "stream_output answer k (m # ms) = (frame b @ out, e)"
        using o Inr by (auto simp: stream_output_def split: prod.splits)
      then show ?thesis using l False by (simp add: after_write_frame)
    qed
  qed
qed

end

text \<open>The answer to a message of a TCP or DoT connection.\<close>

definition answer_message :: "dnslib \<Rightarrow> string \<Rightarrow> (nat \<Rightarrow> handler) \<Rightarrow> nat \<Rightarrow> bytes \<Rightarrow> conn_end + bytes" where
  "answer_message L what handle k packet =
     (case from_bytes L packet of
        Inl e \<Rightarrow> Inl (Failed (InvalidResponse [Lit what, Disp e]))
      | Inr req \<Rightarrow>
          (case fut_value (handle k req) of
             None \<Rightarrow> Inl Waiting
           | Some Panic \<Rightarrow> Inl Panicked
           | Some (Err e) \<Rightarrow> Inl (Failed e)
           | Some (Ok resp) \<Rightarrow> (case to_bytes L resp of Inl e \<Rightarrow> Inl (Failed (Pack e)) | Inr b \<Rightarrow> Inr b)))"

interpretation stream_conn: stream_listener "connection_loop L what handle" "answer_message L what handle"
  for L what handle
proof unfold_locales
  fix input room k
  show "connection_loop L what handle k room input = ([], Closed)" if "read_prefixed input = None"
    using that by (subst connection_loop.simps) simp
  fix packet rest
  show "connection_loop L what handle k room input =
      (case answer_message L what handle k packet of
         Inl e \<Rightarrow> ([], e)
       | Inr b \<Rightarrow> after_write (write_prefixed room b) (\<lambda>room. connection_loop L what handle (Suc k) room rest))"
    if "read_prefixed input = Some (packet, rest)"
    using that by (subst connection_loop.simps) (simp add: answer_message_def split: sum.splits option.splits res.splits)
qed

section \<open>UDP answers fit or are truncated\<close>

lemma fit_udp_ok:
  assumes "fit_udp L resp = Ok b"
  shows "(to_bytes L resp = Inr b \<and> length b \<le> 512) \<or>
    ((\<exists>b'. to_bytes L resp = Inr b' \<and> 512 < length b') \<and> to_bytes L (truncate_msg L resp) = Inr b)"
proof (cases "to_bytes L resp")
  case (Inr b')
  then show ?thesis
    using assms by (cases "to_bytes L (truncate_msg L resp)") (auto simp: fit_udp_def split: if_splits)
qed (use assms in \<open>simp add: fit_udp_def\<close>)

section \<open>What binding a socket gives\<close>

lemma sock_call_ok [res_simps]: "sock_call refuse op f s = Ok s' \<longleftrightarrow> refuse op s = None \<and> s' = f s"
  by (auto simp: sock_call_def split: option.splits)

lemma sock_call_no_panic [res_simps]: "sock_call refuse op f s \<noteq> Panic"
  by (auto simp: sock_call_def split: option.splits)

text \<open>A socket of the address's family, bound to it, and restricted to IPv6 on an IPv6 address.\<close>

definition bound_sock :: "socket_addr \<Rightarrow> sock_type \<Rightarrow> protocol \<Rightarrow> nat option \<Rightarrow> sock" where
  "bound_sock addr ty protocol backlog =
     \<lparr>sk_domain = (if is_ipv6 (sa_ip addr) then IPV6 else IPV4), sk_type = ty, sk_protocol = protocol,
      sk_only_v6 = is_ipv6 (sa_ip addr), sk_reuse = True, sk_bound = Some addr, sk_nonblocking = True,
      sk_backlog = backlog\<rparr>"

lemma new_socket_ok: "new_socket refuse addr ty pr = Ok s \<Longrightarrow> s = bound_sock addr ty pr None"
  by (auto simp: new_socket_def Let_def res_simps bound_sock_def split: if_splits)

lemma bind_udp_ok: "bind_udp refuse addr = Ok s \<Longrightarrow> s = bound_sock addr DGRAM UDP None"
  by (auto simp: bind_udp_def res_simps dest: new_socket_ok)

lemma bind_tcp_ok: "bind_tcp refuse addr = Ok s \<Longrightarrow> s = bound_sock addr STREAM TCP (Some 1024)"
  by (auto simp: bind_tcp_def res_simps bound_sock_def dest!: new_socket_ok)

lemma bind_no_panic: "bind_udp refuse addr \<noteq> Panic" "bind_tcp refuse addr \<noteq> Panic"
  by (auto simp: bind_udp_def bind_tcp_def new_socket_def Let_def res_simps split: if_splits)

end
