(* ===== verification/Bootstrap.thy ===== *)
theory Bootstrap
  imports Net "HOL-Library.Multiset"
begin

text \<open>
  \<open>client/bootstrap.rs\<close>: resolving an upstream's host and dialling the addresses found. A
  \<open>dyn Resolver\<close> is its lookup function.
\<close>

datatype network = Tcp | Udp

datatype 'h conn = TcpConn 'h | UdpConn 'h socket_addr

type_synonym resolver = "string \<Rightarrow> ip_addr list dfut"

abbreviation boot_err :: "string \<Rightarrow> doh_error" where
  "boot_err e \<equiv> doh_error.Bootstrap [Disp e]"

section \<open>Resolvers\<close>

definition system_lookup :: "'h net \<Rightarrow> resolver" where
  "system_lookup N host = map_fut (\<lambda>r. res_bind (map_err boot_err r) (\<lambda>as. Ok (map sa_ip as)))
     (getaddrinfo N host)"

definition static_lookup :: "ip_addr list \<Rightarrow> resolver" where
  "static_lookup ips host = now (Ok ips)"

record plain_resolver =
  pr_addr :: socket_addr
  pr_timeout :: "duration option"

text \<open>The query message both resolvers build; \<open>rid\<close> is the value of \<open>rand::random()\<close>.\<close>

definition lookup_query :: "dnslib \<Rightarrow> u16 \<Rightarrow> string \<Rightarrow> record_type \<Rightarrow> message dres" where
  "lookup_query L rid host qtype =
     res_bind (lift_sum boot_err (name_from_ascii L host)) (\<lambda>nm.
       let m = (message_new L rid Query)\<lparr>recursion_desired := True\<rparr>
       in Ok (m\<lparr>queries := queries m @ [query_new L nm qtype]\<rparr>))"

definition answer_ips :: "message \<Rightarrow> ip_addr list" where
  "answer_ips m = List.map_filter (\<lambda>r. rdata_ip_addr (rr_data r)) (answers m)"

definition plain_query ::
  "dnslib \<Rightarrow> 'h net \<Rightarrow> plain_resolver \<Rightarrow> u16 \<Rightarrow> string \<Rightarrow> record_type \<Rightarrow> ip_addr list dfut" where
  "plain_query L N self rid host qtype =
     await_ok (now (lookup_query L rid host qtype)) (\<lambda>m.
     await_ok (now (lift_sum boot_err (to_bytes L m))) (\<lambda>req_bytes.
     with_timeout (pr_timeout self)
       (doh_error.Bootstrap [Lit ''resolving '', Disp host, Lit '' via '',
          Disp (show_socket_addr (pr_addr self)), Lit '': timed out''])
       (await_ok (lift_err boot_err (udp_bind N (local_for (pr_addr self)))) (\<lambda>sock.
        await_ok (lift_err boot_err (udp_connect N sock (pr_addr self))) (\<lambda>sock.
        await_ok (lift_err boot_err (udp_send N sock req_bytes)) (\<lambda>sock.
        await_ok (lift_err boot_err (udp_recv N sock 4096)) (\<lambda>buf.
        now (res_bind (lift_sum boot_err (from_bytes L buf)) (\<lambda>resp. Ok (answer_ips resp))))))))))"

text \<open>The two answers merged: every address, or the last error when there is none.\<close>

definition merge_lookups :: "ip_addr list dres \<times> ip_addr list dres \<Rightarrow> ip_addr list dres" where
  "merge_lookups ab =
     (case ab of (a, aaaa) \<Rightarrow>
        if a = Panic \<or> aaaa = Panic then Panic
        else
          let ips = (case a of Ok xs \<Rightarrow> xs | _ \<Rightarrow> []) @ (case aaaa of Ok xs \<Rightarrow> xs | _ \<Rightarrow> []);
              last_err = (case aaaa of Err e \<Rightarrow> Some e
                | _ \<Rightarrow> (case a of Err e \<Rightarrow> Some e | _ \<Rightarrow> None))
          in case last_err of
               Some e \<Rightarrow> if ips = [] then Err e else Ok ips
             | None \<Rightarrow> Ok ips)"

definition plain_lookup :: "dnslib \<Rightarrow> 'h net \<Rightarrow> plain_resolver \<Rightarrow> u16 \<Rightarrow> u16 \<Rightarrow> resolver" where
  "plain_lookup L N self rid1 rid2 host =
     map_fut merge_lookups
       (join_fut (plain_query L N self rid1 host RT_A) (plain_query L N self rid2 host RT_AAAA))"

text \<open>\<open>DohResolver\<close>, over the \<open>exchange\<close> of the upstream it wraps.\<close>

definition doh_query ::
  "dnslib \<Rightarrow> (message \<Rightarrow> message dfut) \<Rightarrow> u16 \<Rightarrow> string \<Rightarrow> record_type \<Rightarrow> ip_addr list dfut" where
  "doh_query L exchange rid host qtype =
     await_ok (now (lookup_query L rid host qtype)) (\<lambda>m.
     await_ok (exchange m) (\<lambda>resp. now (Ok (answer_ips resp))))"

definition doh_lookup ::
  "dnslib \<Rightarrow> (message \<Rightarrow> message dfut) \<Rightarrow> u16 \<Rightarrow> u16 \<Rightarrow> resolver" where
  "doh_lookup L exchange rid1 rid2 host =
     map_fut merge_lookups
       (join_fut (doh_query L exchange rid1 host RT_A) (doh_query L exchange rid2 host RT_AAAA))"

text \<open>The loop of \<open>ParallelResolver::lookup\<close>, at time \<open>now'\<close> with the errors seen so far.\<close>

function parallel_loop ::
  "nat \<Rightarrow> ip_addr list dfut list \<Rightarrow> doh_error list \<Rightarrow> ip_addr list dfut" where
  "parallel_loop now' futs errs =
     (if futs = [] then Ready now' (Err (BootstrapAll errs))
      else (case select_first now' futs of
          None \<Rightarrow> Never
        | Some (t, i, result) \<Rightarrow>
            (case result of
               Ok addrs \<Rightarrow> if addrs \<noteq> [] then Ready t (Ok addrs)
                          else parallel_loop t (swap_remove i futs) errs
             | Err e \<Rightarrow> parallel_loop t (swap_remove i futs) (errs @ [e])
             | Panic \<Rightarrow> Ready t Panic)))"
  by pat_completeness auto
termination
  by (relation "measure (\<lambda>(_, futs, _). length futs)")
    (auto dest!: select_first_Some simp: length_swap_remove)

declare parallel_loop.simps [simp del]

definition parallel_lookup :: "resolver list \<Rightarrow> resolver" where
  "parallel_lookup rs host =
     (if rs = [] then now (Err (doh_error.Bootstrap [Lit ''no resolvers configured'']))
      else parallel_loop 0 (map (\<lambda>r. r host) rs) [])"

section \<open>Dialling\<close>

definition dial_one ::
  "'h net \<Rightarrow> socket_addr \<Rightarrow> network \<Rightarrow> duration option \<Rightarrow> 'h conn dfut" where
  "dial_one N addr network tmo =
     with_timeout tmo
       (doh_error.Bootstrap [Lit ''dialing '', Disp (show_socket_addr addr), Lit '': timed out''])
       (case network of
          Tcp \<Rightarrow> await_ok (lift_err boot_err (tcp_connect N addr)) (\<lambda>h. now (Ok (TcpConn h)))
        | Udp \<Rightarrow>
            await_ok (lift_err boot_err (udp_bind N (local_for addr))) (\<lambda>sock.
            await_ok (lift_err boot_err (udp_connect N sock addr)) (\<lambda>sock.
            now (Ok (UdpConn sock addr)))))"

text \<open>The loop over the addresses, with the last error.\<close>

fun dial_loop ::
  "(socket_addr \<Rightarrow> 'h conn dfut) \<Rightarrow> socket_addr list \<Rightarrow> doh_error option \<Rightarrow> 'h conn dfut" where
  "dial_loop dial [] last_err =
     now (Err (case last_err of Some e \<Rightarrow> e | None \<Rightarrow> doh_error.Bootstrap [Lit ''no addresses'']))"
| "dial_loop dial (addr # addrs) last_err =
     await (dial addr) (\<lambda>r. case r of
        Ok conn \<Rightarrow> now (Ok conn)
      | Err e \<Rightarrow> dial_loop dial addrs (Some e)
      | Panic \<Rightarrow> now Panic)"

definition new_dial_context ::
  "'h net \<Rightarrow> duration option \<Rightarrow> socket_addr list \<Rightarrow> network \<Rightarrow> 'h conn dfut" where
  "new_dial_context N tmo addrs network =
     (if addrs = [] then now (Err (doh_error.Bootstrap [Lit ''no addresses to dial'']))
      else dial_loop (\<lambda>addr. dial_one N addr network tmo) addrs None)"

definition resolve_addrs ::
  "string \<Rightarrow> u16 \<Rightarrow> duration option \<Rightarrow> resolver \<Rightarrow> bool \<Rightarrow> socket_addr list dfut" where
  "resolve_addrs host port tmo lookup prefer_v6 =
     await_ok (case parse_ip_addr host of
          Some ip \<Rightarrow> now (Ok [ip])
        | None \<Rightarrow> with_timeout tmo
            (doh_error.Bootstrap [Lit ''resolving '', Disp host, Lit '': timed out'']) (lookup host))
       (\<lambda>ips. if ips = [] then now (Err (doh_error.Bootstrap [Lit ''no addresses for '', Disp host]))
         else now (Ok (map (\<lambda>ip. socket_addr_new ip port)
                (sort_key (\<lambda>ip. if prefer_v6 then \<not> is_ipv6 ip else is_ipv6 ip) ips))))"

definition resolve_dial_context ::
  "'h net \<Rightarrow> string \<Rightarrow> u16 \<Rightarrow> duration option \<Rightarrow> resolver \<Rightarrow> bool \<Rightarrow> (network \<Rightarrow> 'h conn dfut) dfut" where
  "resolve_dial_context N host port tmo lookup prefer_v6 =
     await_ok (resolve_addrs host port tmo lookup prefer_v6) (\<lambda>addrs.
     now (Ok (new_dial_context N tmo addrs)))"

section \<open>The order of addresses\<close>

lemma insort_key_bool:
  "(\<forall>y \<in> set as. \<not> f y) \<Longrightarrow> (\<forall>y \<in> set bs. f y) \<Longrightarrow>
   insort_key f x (as @ bs) = (if f x then as @ x # bs else x # as @ bs)" for f :: "'a \<Rightarrow> bool"
proof (induction as)
  case Nil
  then show ?case by (cases bs) auto
next
  case (Cons a as)
  then show ?case by (auto simp: le_bool_def)
qed

text \<open>Sorting by a flag is a stable partition.\<close>

lemma sort_key_bool: "sort_key f xs = filter (\<lambda>x. \<not> f x) xs @ filter f xs" for f :: "'a \<Rightarrow> bool"
  by (induction xs) (auto simp: insort_key_bool)

lemma is_ipv6_sa_ip [simp]: "sa_ip (socket_addr_new ip p) = ip" "sa_port (socket_addr_new ip p) = p"
  by (simp_all add: socket_addr_new_def)

definition by_family :: "bool \<Rightarrow> ip_addr list \<Rightarrow> ip_addr list" where
  "by_family prefer_v6 ips =
     (if prefer_v6 then filter is_ipv6 ips @ filter is_ipv4 ips else filter is_ipv4 ips @ filter is_ipv6 ips)"

lemma sort_by_family:
  "sort_key (\<lambda>ip. if p6 then \<not> is_ipv6 ip else is_ipv6 ip) ips = by_family p6 ips"
  by (cases p6) (simp_all add: by_family_def sort_key_bool)

lemma by_family_Nil [simp]: "by_family p6 ips = [] \<longleftrightarrow> ips = []"
  by (cases ips) (auto simp: by_family_def filter_empty_conv)

lemma resolve_addrs_ok:
  assumes "fut_value (resolve_addrs host port d lookup p6) = Some (Ok addrs)"
  shows "\<exists>ips. ips \<noteq> [] \<and> addrs = map (\<lambda>ip. socket_addr_new ip port) (by_family p6 ips) \<and>
    (case parse_ip_addr host of Some ip \<Rightarrow> ips = [ip] | None \<Rightarrow> fut_value (lookup host) = Some (Ok ips))"
proof -
  obtain ips where "ips \<noteq> []" "addrs = map (\<lambda>ip. socket_addr_new ip port) (by_family p6 ips)"
    "fut_value (case parse_ip_addr host of Some ip \<Rightarrow> now (Ok [ip])
        | None \<Rightarrow> with_timeout d (doh_error.Bootstrap [Lit ''resolving '', Disp host, Lit '': timed out''])
            (lookup host)) = Some (Ok ips)"
    using assms by (auto simp: resolve_addrs_def sort_by_family fut_value_await_ok split: if_splits)
  then show ?thesis by (cases "parse_ip_addr host") (auto simp: with_timeout_ok_iff)
qed

lemma resolve_addrs_not_Nil:
  "fut_value (resolve_addrs host port d lookup p6) = Some (Ok addrs) \<Longrightarrow> addrs \<noteq> []"
  using resolve_addrs_ok by fastforce

lemma resolve_addrs_resolves:
  "resolves_by d (resolve_addrs host port (Some d) lookup p6)"
proof -
  have "resolves_by (d + 0) (resolve_addrs host port (Some d) lookup p6)"
    unfolding resolve_addrs_def
    by (rule resolves_by_await_ok) (auto simp: with_timeout_resolves split: option.splits)
  then show ?thesis by simp
qed

section \<open>Dialling tries the addresses in order\<close>

lemma dial_loop_Cons_ok:
  "fut_value (dial_loop dial (a # addrs) e) = Some (Ok c) \<longleftrightarrow>
   fut_value (dial a) = Some (Ok c) \<or>
   (\<exists>e'. fut_value (dial a) = Some (Err e') \<and> fut_value (dial_loop dial addrs (Some e')) = Some (Ok c))"
proof (cases "dial a")
  case (Ready t r)
  then show ?thesis by (cases r) auto
qed simp

lemma dial_loop_ok_iff:
  "fut_value (dial_loop dial addrs e) = Some (Ok c) \<longleftrightarrow>
   (\<exists>pre a post. addrs = pre @ a # post \<and> fut_value (dial a) = Some (Ok c) \<and>
      (\<forall>p \<in> set pre. \<exists>e. fut_value (dial p) = Some (Err e)))" (is "?l addrs e \<longleftrightarrow> ?r addrs")
proof (induction addrs arbitrary: e)
  case (Cons a addrs)
  have "?r (a # addrs) \<longleftrightarrow> fut_value (dial a) = Some (Ok c) \<or>
      (\<exists>e. fut_value (dial a) = Some (Err e)) \<and> ?r addrs"
    (is "_ \<longleftrightarrow> ?s")
  proof
    assume "?r (a # addrs)"
    then obtain pre b post where r: "a # addrs = pre @ b # post" "fut_value (dial b) = Some (Ok c)"
      "\<forall>p \<in> set pre. \<exists>e. fut_value (dial p) = Some (Err e)" by blast
    then show ?s by (cases pre) auto
  next
    assume ?s
    then show "?r (a # addrs)"
    proof (elim disjE exE conjE)
      assume "fut_value (dial a) = Some (Ok c)"
      then show ?thesis by (intro exI [of _ "[]"]) auto
    next
      fix e' pre b post
      assume "fut_value (dial a) = Some (Err e')" "addrs = pre @ b # post"
        "fut_value (dial b) = Some (Ok c)" "\<forall>p \<in> set pre. \<exists>e. fut_value (dial p) = Some (Err e)"
      then show ?thesis by (intro exI [of _ "a # pre"]) auto
    qed
  qed
  moreover have "?l (a # addrs) e \<longleftrightarrow> ?s"
    using Cons.IH by (simp only: dial_loop_Cons_ok) auto
  ultimately show ?case by simp
qed auto

lemma dial_loop_resolves:
  assumes "\<And>a. resolves_by d (dial a)"
  shows "resolves_by (length addrs * d) (dial_loop dial addrs e)"
proof (induction addrs arbitrary: e)
  case (Cons a addrs)
  obtain t r where "dial a = Ready t r" "t \<le> d" using assms [of a] by (cases "dial a") auto
  moreover have "resolves_by (d + length addrs * d) (delay t (dial_loop dial addrs e))" for e
    using resolves_by_delay [OF Cons.IH [of e], of t] \<open>t \<le> d\<close> by (auto intro: resolves_by_mono)
  ultimately show ?case by (cases r) auto
qed simp

lemma new_dial_context_resolves:
  "resolves_by (length addrs * d) (new_dial_context N (Some d) addrs network)"
  by (auto simp: new_dial_context_def dial_one_def intro: dial_loop_resolves with_timeout_resolves)

lemma new_dial_context_ok:
  assumes "fut_value (new_dial_context N d addrs network) = Some (Ok c)"
  shows "\<exists>a \<in> set addrs. fut_value (dial_one N a network d) = Some (Ok c)"
  using assms by (auto simp: new_dial_context_def dial_loop_ok_iff split: if_splits)

text \<open>A TCP dial gives a TCP connection; the mismatch branches of the clients are not reached.\<close>

lemma dial_one_tcp: "fut_value (dial_one N a Tcp d) = Some (Ok c) \<Longrightarrow> \<exists>h. c = TcpConn h"
  by (auto simp: dial_one_def fut_simps)

section \<open>Parallel lookups\<close>

lemma mset_swap_remove:
  assumes "i < length xs"
  shows "mset xs = add_mset (xs ! i) (mset (swap_remove i xs))"
proof -
  obtain ys z where xs: "xs = ys @ [z]" using assms by (cases xs rule: rev_cases) auto
  show ?thesis
  proof (cases "i = length ys")
    case False
    then have "i < length ys" using assms xs by simp
    then show ?thesis using xs
      by (simp add: swap_remove_def list_update_append nth_append butlast_append mset_update)
  qed (simp add: xs swap_remove_def)
qed

lemma set_swap_remove: "i < length xs \<Longrightarrow> set xs = insert (xs ! i) (set (swap_remove i xs))"
  using mset_swap_remove [of i xs] by (metis set_mset_add_mset_insert set_mset_mset)

lemma parallel_loop_step:
  assumes "select_first t futs = Some (t', i, r)"
  shows "parallel_loop t futs errs =
    (case r of
       Ok addrs \<Rightarrow> if addrs \<noteq> [] then Ready t' (Ok addrs) else parallel_loop t' (swap_remove i futs) errs
     | Err e \<Rightarrow> parallel_loop t' (swap_remove i futs) (errs @ [e])
     | Panic \<Rightarrow> Ready t' Panic)"
  using assms by (subst parallel_loop.simps) (auto split: res.splits)

lemma parallel_loop_ok:
  "fut_value (parallel_loop t futs errs) = Some (Ok a) \<Longrightarrow>
   a \<noteq> [] \<and> (\<exists>f \<in> set futs. fut_value f = Some (Ok a))"
proof (induction t futs errs rule: parallel_loop.induct)
  case (1 t futs errs)
  show ?case
  proof (cases "select_first t futs")
    case None
    with 1 show ?thesis by (subst (asm) parallel_loop.simps) (auto split: if_splits)
  next
    case (Some z)
    obtain t' i r where z: "z = (t', i, r)" by (cases z)
    note sel = select_first_Some [OF Some [unfolded z]] and step = parallel_loop_step [OF Some [unfolded z]]
    have "futs \<noteq> []" "i < length futs" using sel by auto
    note IH = "1.IH" [OF this(1) Some z [symmetric] refl] and sub = set_swap_remove [OF this(2)]
    show ?thesis
    proof (cases r)
      case (Ok b)
      show ?thesis
      proof (cases "b = []")
        case True
        with "1.prems" step Ok IH(1) sub show ?thesis by auto
      next
        case False
        with "1.prems" step Ok have "a = b" by simp
        moreover have "fut_value (futs ! i) = Some (Ok b)" using sel Ok by auto
        ultimately show ?thesis using False \<open>i < length futs\<close> nth_mem by blast
      qed
    next
      case (Err e)
      with "1.prems" step IH(2) sub show ?thesis by auto
    next
      case Panic
      with "1.prems" step show ?thesis by auto
    qed
  qed
qed

text \<open>
  One usable answer is enough: whatever the other resolvers do (fail, answer nothing, hang), the
  lookup succeeds no later than it is there.
\<close>

lemma parallel_loop_live:
  assumes "Ready u (Ok b) \<in> set futs" "b \<noteq> []" "\<forall>f \<in> set futs. fut_value f \<noteq> Some Panic"
  shows "\<exists>t' a. parallel_loop t futs errs = Ready t' (Ok a) \<and> t' \<le> max t u"
  using assms
proof (induction t futs errs rule: parallel_loop.induct)
  case (1 t futs errs)
  have "select_first t futs \<noteq> None" using "1.prems"(1) select_first_None [of t futs] by auto
  then obtain t' i r where Some: "select_first t futs = Some (t', i, r)" by auto
  note sel = select_first_Some [OF Some] and step = parallel_loop_step [OF Some]
  have i: "futs \<noteq> []" "i < length futs" using sel by auto
  note IH = "1.IH" [OF i(1) Some refl refl] and sub = set_swap_remove [OF i(2)]
  have t': "t' \<le> max t u" using sel "1.prems"(1) by blast
  have rest: "Ready u (Ok b) \<in> set (swap_remove i futs)" if "r \<noteq> Ok b"
    using "1.prems"(1) sub sel that by auto
  have np: "\<forall>f \<in> set (swap_remove i futs). fut_value f \<noteq> Some Panic" using "1.prems"(3) sub by auto
  have "fut_value (futs ! i) = Some r" using sel by auto
  then have "r \<noteq> Panic" using "1.prems"(3) i(2) by (metis nth_mem)
  then consider a where "r = Ok a" "a \<noteq> []" | "r = Ok []" | e where "r = Err e" by (cases r) auto
  then show ?case
  proof cases
    case 1
    then show ?thesis using step t' by simp
  next
    case 2
    moreover have "\<exists>t'' a. parallel_loop t' (swap_remove i futs) errs = Ready t'' (Ok a) \<and> t'' \<le> max t' u"
      using 2 IH(1) rest np \<open>b \<noteq> []\<close> by auto
    ultimately show ?thesis using step t' by auto
  next
    case (3 e)
    moreover have "\<exists>t'' a. parallel_loop t' (swap_remove i futs) (errs @ [e]) = Ready t'' (Ok a) \<and> t'' \<le> max t' u"
      using 3 IH(2) rest np \<open>b \<noteq> []\<close> by auto
    ultimately show ?thesis using step t' by auto
  qed
qed

text \<open>When no resolver has an answer, the error lists the errors of all of them.\<close>

fun fut_errors :: "ip_addr list dfut list \<Rightarrow> doh_error list" where
  "fut_errors [] = []"
| "fut_errors (Ready t (Err e) # fs) = e # fut_errors fs"
| "fut_errors (f # fs) = fut_errors fs"

lemma fut_errors_mset: "mset xs = mset ys \<Longrightarrow> mset (fut_errors xs) = mset (fut_errors ys)"
proof -
  define g where "g f = (case f of Ready t (Err e) \<Rightarrow> {#e#} | _ \<Rightarrow> {#})" for f :: "ip_addr list dfut"
  have "mset (fut_errors zs) = sum_mset (image_mset g (mset zs))" for zs
    by (induction zs rule: fut_errors.induct) (simp_all add: g_def)
  then show "mset xs = mset ys \<Longrightarrow> mset (fut_errors xs) = mset (fut_errors ys)" by simp
qed

lemma parallel_loop_errors:
  assumes "\<forall>f \<in> set futs. \<exists>u r. f = Ready u r \<and> (r = Ok [] \<or> (\<exists>e. r = Err e))"
  shows "\<exists>t' es. parallel_loop t futs errs = Ready t' (Err (BootstrapAll (errs @ es))) \<and>
    mset es = mset (fut_errors futs)"
  using assms
proof (induction t futs errs rule: parallel_loop.induct)
  case (1 t futs errs)
  show ?case
  proof (cases "futs = []")
    case True
    then show ?thesis by (subst parallel_loop.simps) auto
  next
    case False
    then have "select_first t futs \<noteq> None" using "1.prems" select_first_None [of t futs]
      by (cases futs) auto
    then obtain t' i r where Some: "select_first t futs = Some (t', i, r)" by auto
    note sel = select_first_Some [OF Some] and step = parallel_loop_step [OF Some]
    have i: "i < length futs" using sel by auto
    note IH = "1.IH" [OF False Some refl refl] and sub = set_swap_remove [OF i]
    have rest: "\<forall>f \<in> set (swap_remove i futs). \<exists>u r. f = Ready u r \<and> (r = Ok [] \<or> (\<exists>e. r = Err e))"
      using "1.prems" sub by auto
    obtain u where u: "futs ! i = Ready u r" using sel by auto
    have es: "mset (fut_errors futs) = mset (fut_errors (Ready u r # swap_remove i futs))"
      by (rule fut_errors_mset) (simp add: mset_swap_remove [OF i] u)
    have "r = Ok [] \<or> (\<exists>e. r = Err e)" using "1.prems" i u by (metis fut.inject nth_mem)
    then show ?thesis
    proof (elim disjE exE)
      assume "r = Ok []"
      then show ?thesis using step IH(1) rest es by auto
    next
      fix e assume "r = Err e"
      then show ?thesis using step IH(2) [of e] rest es by fastforce
    qed
  qed
qed

end
