(* ===== verification/Plain_Clients.thy ===== *)
theory Plain_Clients
  imports Bootstrap
begin

text \<open>
  The clients without state between exchanges: \<open>client/plain_udp.rs\<close>, \<open>client/plain_tcp.rs\<close> and
  \<open>client/dot.rs\<close>. Each packs the request, exchanges it over a fresh socket within the timeout,
  and checks the answer against the request.
\<close>

section \<open>Plain UDP\<close>

record udp_upstream =
  udp_addr :: socket_addr
  udp_addr_redacted :: string
  udp_timeout :: "duration option"

definition udp_new :: "socket_addr \<Rightarrow> duration option \<Rightarrow> udp_upstream" where
  "udp_new addr tmo =
     \<lparr>udp_addr = addr, udp_addr_redacted = ''udp://'' @ show_socket_addr addr, udp_timeout = tmo\<rparr>"

definition udp_exchange :: "dnslib \<Rightarrow> 'h net \<Rightarrow> udp_upstream \<Rightarrow> message \<Rightarrow> message dfut" where
  "udp_exchange L N self req =
     await_ok (now (lift_sum Pack (to_bytes L req))) (\<lambda>req_bytes.
     or_timeout (udp_timeout self)
       (await_ok (lift_err Io (udp_bind N (local_for (udp_addr self)))) (\<lambda>sock.
        await_ok (lift_err Io (udp_connect N sock (udp_addr self))) (\<lambda>sock.
        await_ok (lift_err Io (udp_send N sock req_bytes)) (\<lambda>sock.
        await_ok (lift_err Io (udp_recv N sock 65535)) (\<lambda>buf.
        now (unpack_checked L req buf)))))))"

section \<open>Plain TCP\<close>

record host_upstream =
  up_host :: string
  up_port :: u16
  up_addr_redacted :: string
  up_resolver :: resolver
  up_prefer_ipv6 :: bool
  up_timeout :: "duration option"

text \<open>\<open>opts.bootstrap.unwrap_or_else(|| Arc::new(SystemResolver))\<close>\<close>

definition resolver_of :: "'h net \<Rightarrow> resolver options \<Rightarrow> resolver" where
  "resolver_of N opts = (case bootstrap opts of Some r \<Rightarrow> r | None \<Rightarrow> system_lookup N)"

definition tcp_new :: "'h net \<Rightarrow> string \<Rightarrow> u16 option \<Rightarrow> resolver options \<Rightarrow> host_upstream" where
  "tcp_new N host port opts =
     (let p = (case port of Some p \<Rightarrow> p | None \<Rightarrow> 53) in
      \<lparr>up_host = host, up_port = p, up_addr_redacted = ''tcp://'' @ format_host_port host p,
       up_resolver = resolver_of N opts, up_prefer_ipv6 = prefer_ipv6 opts,
       up_timeout = timeout opts\<rparr>)"

text \<open>The size check before the framing: the length has to fit into two bytes.\<close>

definition pack_framed :: "dnslib \<Rightarrow> proto_error \<Rightarrow> message \<Rightarrow> bytes dres" where
  "pack_framed L too_large req =
     res_bind (lift_sum Pack (to_bytes L req)) (\<lambda>b.
       if u16_max < length b then Err (Pack too_large) else Ok b)"

definition dial_tcp :: "'h net \<Rightarrow> 'b host_upstream_scheme \<Rightarrow> 'h dfut" where
  "dial_tcp N self =
     await_ok (resolve_dial_context N (up_host self) (up_port self) (up_timeout self)
        (up_resolver self) (up_prefer_ipv6 self)) (\<lambda>dial.
     await_ok (dial Tcp) (\<lambda>conn.
     now (case conn of
        TcpConn s \<Rightarrow> Ok s
      | UdpConn _ _ \<Rightarrow> Err (doh_error.Bootstrap [Lit ''expected tcp connection'']))))"

definition framed_exchange :: "dnslib \<Rightarrow> 'h net \<Rightarrow> message \<Rightarrow> bytes \<Rightarrow> 'h \<Rightarrow> message dfut" where
  "framed_exchange L N req req_bytes h =
     await_ok (write_framed N Io h req_bytes) (\<lambda>h.
     await_ok (read_framed N Io h) (\<lambda>resp_buf.
     now (unpack_checked L req resp_buf)))"

definition tcp_exchange :: "dnslib \<Rightarrow> 'h net \<Rightarrow> host_upstream \<Rightarrow> message \<Rightarrow> message dfut" where
  "tcp_exchange L N self req =
     await_ok (now (pack_framed L ''message too large for tcp framing'' req)) (\<lambda>req_bytes.
     or_timeout (up_timeout self)
       (await_ok (dial_tcp N self) (\<lambda>tcp. framed_exchange L N req req_bytes tcp)))"

section \<open>DNS over TLS\<close>

record dot_upstream = host_upstream +
  up_insecure :: bool

definition dot_new :: "'h net \<Rightarrow> string \<Rightarrow> u16 option \<Rightarrow> resolver options \<Rightarrow> dot_upstream" where
  "dot_new N host port opts =
     (let p = (case port of Some p \<Rightarrow> p | None \<Rightarrow> 853) in
      \<lparr>up_host = host, up_port = p, up_addr_redacted = ''tls://'' @ format_host_port host p,
       up_resolver = resolver_of N opts, up_prefer_ipv6 = prefer_ipv6 opts,
       up_timeout = timeout opts, up_insecure = insecure_skip_verify opts\<rparr>)"

definition tls_handshake :: "'h net \<Rightarrow> tls_config \<Rightarrow> string \<Rightarrow> 'h \<Rightarrow> 'h dfut" where
  "tls_handshake N config host tcp =
     await_ok (now (lift_sum (\<lambda>e. Http [Lit ''invalid server name: '', Disp e])
        (server_name_try_from N host))) (\<lambda>nm.
     lift_err (\<lambda>e. Http [Lit ''tls handshake failed: '', Disp e]) (tls_connect N config nm tcp))"

definition dot_exchange :: "dnslib \<Rightarrow> 'h net \<Rightarrow> dot_upstream \<Rightarrow> message \<Rightarrow> message dfut" where
  "dot_exchange L N self req =
     await_ok (now (pack_framed L ''message too large for tcp framing'' req)) (\<lambda>req_bytes.
     or_timeout (up_timeout self)
       (await_ok (dial_tcp N self) (\<lambda>tcp.
        await_ok (tls_handshake N (build_tls_config (up_host self) (up_insecure self) [])
          (up_host self) tcp) (\<lambda>tls. framed_exchange L N req req_bytes tls))))"

section \<open>What an exchange promises\<close>

lemma framed_exchange_ok:
  "fut_value (framed_exchange L N req b h) = Some (Ok resp) \<Longrightarrow> same_question L req resp"
  by (auto simp: framed_exchange_def fut_simps unpack_checked_ok_iff)

interpretation udp: validated_exchange L "udp_exchange L N" for L N
  by unfold_locales (auto simp: udp_exchange_def fut_simps unpack_checked_ok_iff)

interpretation tcp: validated_exchange L "tcp_exchange L N" for L N
  by unfold_locales (auto simp: tcp_exchange_def fut_simps framed_exchange_ok)

interpretation dot: validated_exchange L "dot_exchange L N" for L N
  by unfold_locales (auto simp: dot_exchange_def fut_simps framed_exchange_ok)

text \<open>With a timeout every exchange ends in time.\<close>

locale bounded_exchange =
  fixes exchange :: "'x \<Rightarrow> message \<Rightarrow> message dfut" and limit :: "'x \<Rightarrow> duration option"
  assumes exchange_bounded: "limit x = Some d \<Longrightarrow> resolves_by d (exchange x req)"
begin

lemma exchange_ends: "limit x = Some d \<Longrightarrow> \<exists>r. fut_value (exchange x req) = Some r"
  using exchange_bounded resolves_by_value by blast

end

lemma resolves_by_packed:
  "(\<And>b. resolves_by d (g b)) \<Longrightarrow> resolves_by d (await_ok (now r) g)"
  using resolves_by_await_ok [of 0 "now r" d g] by simp

interpretation udp: bounded_exchange "udp_exchange L N" udp_timeout for L N
  by unfold_locales (simp add: udp_exchange_def resolves_by_packed or_timeout_resolves)

interpretation tcp: bounded_exchange "tcp_exchange L N" up_timeout for L N
  by unfold_locales (simp add: tcp_exchange_def resolves_by_packed or_timeout_resolves)

interpretation dot: bounded_exchange "dot_exchange L N" up_timeout for L N
  by unfold_locales (simp add: dot_exchange_def resolves_by_packed or_timeout_resolves)

end
