(* ===== verification/Quic_Clients.thy ===== *)
theory Quic_Clients
  imports Plain_Clients
begin

text \<open>
  \<open>client/doq.rs\<close>: the DNS-over-QUIC client, which keeps one connection behind a mutex and opens
  a stream per exchange. The connection is the state that the operations pass along.
\<close>

section \<open>Dialling\<close>

record doq_upstream = host_upstream +
  doq_insecure :: bool

definition doq_new :: "'h net \<Rightarrow> string \<Rightarrow> u16 option \<Rightarrow> resolver options \<Rightarrow> doq_upstream" where
  "doq_new N host port opts =
     (let p = (case port of Some p \<Rightarrow> p | None \<Rightarrow> 853) in
      \<lparr>up_host = host, up_port = p, up_addr_redacted = ''quic://'' @ format_host_port host p,
       up_resolver = resolver_of N opts, up_prefer_ipv6 = prefer_ipv6 opts,
       up_timeout = timeout opts, doq_insecure = insecure_skip_verify opts\<rparr>)"

definition dial_quic :: "'h net \<Rightarrow> socket_addr \<Rightarrow> string \<Rightarrow> tls_config \<Rightarrow> 'h dfut" where
  "dial_quic N addr server_name config =
     await_ok (now (lift_sum Quic (quic_endpoint N (local_for addr)))) (\<lambda>endpoint.
     await_ok (now (lift_sum Quic (quic_client_config N config))) (\<lambda>client_config.
     lift_err Quic (quic_connect N endpoint client_config addr server_name)))"

text \<open>\<open>*addrs.first().ok_or_else(...)?\<close>\<close>

definition first_addr :: "string \<Rightarrow> socket_addr list \<Rightarrow> socket_addr dres" where
  "first_addr host addrs =
     (case addrs of
        [] \<Rightarrow> Err (doh_error.Bootstrap [Lit ''no addresses for '', Disp host])
      | a # _ \<Rightarrow> Ok a)"

definition doq_dial :: "'h net \<Rightarrow> doq_upstream \<Rightarrow> 'h dfut" where
  "doq_dial N self =
     await_ok (resolve_addrs (up_host self) (up_port self) (up_timeout self) (up_resolver self)
        (up_prefer_ipv6 self)) (\<lambda>addrs.
     await_ok (now (first_addr (up_host self) addrs)) (\<lambda>addr.
     dial_quic N addr (up_host self)
       (build_tls_config (up_host self) (doq_insecure self) [''doq''])))"

section \<open>The cached connection\<close>

definition doq_get_conn ::
  "'h net \<Rightarrow> doq_upstream \<Rightarrow> 'h option \<Rightarrow> (('h \<times> bool) dres \<times> 'h option) fut" where
  "doq_get_conn N self conn =
     (case conn of
        Some c \<Rightarrow> now (Ok (c, True), conn)
      | None \<Rightarrow> await_st (with_st conn (doq_dial N self)) (\<lambda>c _. now (Ok (c, False), Some c)))"

definition doq_reset_conn ::
  "'h net \<Rightarrow> doq_upstream \<Rightarrow> 'h option \<Rightarrow> ('h dres \<times> 'h option) fut" where
  "doq_reset_conn N self conn =
     await_st (with_st conn (doq_dial N self)) (\<lambda>c _. now (Ok c, Some c))"

text \<open>
  One exchange on a connection. The two-byte length is at most 65535, so the check against
  \<open>MAX_MSG_SIZE\<close> never fires; it is kept as the code has it.
\<close>

definition doq_exchange_on ::
  "dnslib \<Rightarrow> 'h net \<Rightarrow> doq_upstream \<Rightarrow> 'h \<Rightarrow> message \<Rightarrow> message dfut" where
  "doq_exchange_on L N self conn req =
     (let original_id = msg_id req; zeroed = req\<lparr>msg_id := 0\<rparr> in
      await_ok (now (pack_framed L ''message too large for doq framing'' zeroed)) (\<lambda>req_bytes.
      or_timeout (up_timeout self)
        (await_ok (lift_err Quic (quic_open_bi N conn)) (\<lambda>stream.
         await_ok (write_framed N Quic stream req_bytes) (\<lambda>stream.
         await_ok (lift_err Quic (quic_finish N stream)) (\<lambda>stream.
         await_ok (lift_err Quic (read_exact2 N stream)) (\<lambda>((l0, l1), stream).
         let resp_len = unat (u16_from_be_bytes l0 l1) in
         if 65535 < resp_len then now (Err (InvalidResponse [Lit ''response too large'']))
         else
           await_ok (lift_err Quic (read_exact N stream resp_len)) (\<lambda>(resp_buf, _).
           now (decode_response L resp_buf req original_id)))))))))"

definition doq_exchange ::
  "dnslib \<Rightarrow> 'h net \<Rightarrow> doq_upstream \<Rightarrow> 'h option \<Rightarrow> message \<Rightarrow> (message dres \<times> 'h option) fut" where
  "doq_exchange L N self conn req =
     await_st (doq_get_conn N self conn) (\<lambda>(c, was_cached) st.
     match_retry (doq_exchange_on L N self c req) was_cached st
       (await_st (doq_reset_conn N self st) (\<lambda>c st. with_st st (doq_exchange_on L N self c req)))
       None)"

text \<open>The answer alone, for a client in a given state.\<close>

definition doq_answer ::
  "dnslib \<Rightarrow> 'h net \<Rightarrow> doq_upstream \<times> 'h option \<Rightarrow> message \<Rightarrow> message dfut" where
  "doq_answer L N x req = map_fut fst (doq_exchange L N (fst x) (snd x) req)"

section \<open>What an exchange promises\<close>

lemma doq_exchange_on_ok:
  assumes "fut_value (doq_exchange_on L N self c req) = Some (Ok resp)"
  shows "same_question L req resp \<and> msg_id resp = msg_id req"
  using assms
  by (auto simp: doq_exchange_on_def fut_simps Let_def decode_response_ok_iff split: if_splits)

lemma doq_exchange_ok:
  assumes "fut_value (doq_exchange L N self conn req) = Some (Ok resp, conn')"
  shows "\<exists>c. fut_value (doq_exchange_on L N self c req) = Some (Ok resp)"
  using assms by (auto simp: doq_exchange_def fut_simps)

interpretation doq: validated_exchange L "doq_answer L N" for L N
proof
  fix x req resp
  assume "fut_value (doq_answer L N x req) = Some (Ok resp)"
  then show "same_question L req resp"
    using doq_exchange_ok doq_exchange_on_ok by (fastforce simp: doq_answer_def)
qed

text \<open>A failed exchange on a connection of its own leaves none behind: the next one dials anew.\<close>

lemma doq_exchange_failed:
  assumes "fut_value (doq_exchange L N self None req) = Some (Err e, conn')"
  shows "conn' = None"
  using assms
  by (auto simp: doq_exchange_def doq_get_conn_def fut_value_await_st_err fut_simps match_retry_err)

end
