(* ===== verification/Doh_Client.thy ===== *)
theory Doh_Client
  imports Quic_Clients
begin

text \<open>
  \<open>client/doh.rs\<close> and \<open>client/doh3.rs\<close>: the DoH client over HTTP/1.1, HTTP/2 and HTTP/3. The
  state behind its mutexes is the HTTP client, the HTTP/3 transport and the outcome of the race
  between QUIC and TLS. The HTTP libraries (\<open>hyper\<close>, \<open>h3\<close>, \<open>http\<close>) are the parameter \<open>H\<close>;
  \<open>hyper_request\<close> is given the connection that the client's connector would make, and its error is
  the error's text followed by those of its sources. The model is the build with all features.
\<close>

record http_request =
  rq_uri :: string
  rq_headers :: "(string \<times> string) list"

record 'h http =
  uri_parse :: "string \<Rightarrow> string + string"
  request_build :: "http_request \<Rightarrow> string + http_request"
  hyper_request :: "'h dfut \<Rightarrow> http_request \<Rightarrow> (string list, nat \<times> 'h) rfut"
  body_collect :: "'h \<Rightarrow> bytes io"
  h3_client_new :: "'h \<Rightarrow> 'h io"
  h3_send_request :: "'h \<Rightarrow> http_request \<Rightarrow> 'h io"
  h3_finish :: "'h \<Rightarrow> 'h io"
  h3_recv_response :: "'h \<Rightarrow> (nat \<times> 'h) io"
  h3_recv_data :: "'h \<Rightarrow> (bytes option \<times> 'h) io"

text \<open>\<open>StatusCode::is_success\<close>\<close>

definition is_success :: "nat \<Rightarrow> bool" where
  "is_success status \<longleftrightarrow> 200 \<le> status \<and> status < 300"

text \<open>The request both versions send: no user agent, the DNS media type, the credentials.\<close>

definition doh_headers :: "string option \<Rightarrow> (string \<times> string) list" where
  "doh_headers auth =
     [(''user-agent'', []), (''accept'', ''application/dns-message'')] @
     (case auth of Some a \<Rightarrow> [(''authorization'', a)] | None \<Rightarrow> [])"

definition doh_request :: "'h http \<Rightarrow> string \<Rightarrow> string option \<Rightarrow> http_request dres" where
  "doh_request H url auth =
     res_bind (lift_sum (\<lambda>e. Http [Lit ''building request uri: '', Disp e]) (uri_parse H url)) (\<lambda>uri.
     lift_sum (\<lambda>e. Http [Lit ''building request: '', Disp e])
       (request_build H \<lparr>rq_uri = uri, rq_headers = doh_headers auth\<rparr>))"

section \<open>The HTTP/3 transport\<close>

record h3_transport =
  server_addr :: socket_addr
  server_name :: string
  h3_tls_config :: tls_config
  h3_timeout :: "duration option"
  h3_path :: string
  h3_auth :: "string option"

text \<open>\<open>inner\<close>, the sender behind the transport's mutex, is kept beside the transport.\<close>

definition h3_new ::
  "socket_addr \<Rightarrow> string \<Rightarrow> tls_config \<Rightarrow> duration option \<Rightarrow> string \<Rightarrow> string option \<Rightarrow> h3_transport \<times> 'h option" where
  "h3_new addr name' config tmo path auth =
     (\<lparr>server_addr = addr, server_name = name', h3_tls_config = config, h3_timeout = tmo, h3_path = path,
       h3_auth = auth\<rparr>, None)"

text \<open>\<open>doh3.rs\<close> has a copy of the \<open>dial_quic\<close> of \<open>doq.rs\<close>.\<close>

definition h3_dial_quic :: "'h net \<Rightarrow> socket_addr \<Rightarrow> string \<Rightarrow> tls_config \<Rightarrow> 'h dfut" where
  "h3_dial_quic N addr name' config =
     await_ok (now (lift_sum Quic (quic_endpoint N (local_for addr)))) (\<lambda>endpoint.
     await_ok (now (lift_sum Quic (quic_client_config N config))) (\<lambda>client_config.
     lift_err Quic (quic_connect N endpoint client_config addr name')))"

lemma h3_dial_quic_eq [simp]: "h3_dial_quic = dial_quic"
  by (intro ext) (simp add: h3_dial_quic_def dial_quic_def)

definition h3_connect :: "'h net \<Rightarrow> 'h http \<Rightarrow> h3_transport \<Rightarrow> 'h dfut" where
  "h3_connect N H self =
     await_ok (h3_dial_quic N (server_addr self) (server_name self) (h3_tls_config self)) (\<lambda>quic_conn.
     lift_err Quic (h3_client_new H quic_conn))"

definition h3_get_sender ::
  "'h net \<Rightarrow> 'h http \<Rightarrow> h3_transport \<Rightarrow> 'h option \<Rightarrow> ('h dres \<times> 'h option) fut" where
  "h3_get_sender N H self inner =
     (case inner of
        Some s \<Rightarrow> now (Ok s, inner)
      | None \<Rightarrow> await_st (with_st inner (h3_connect N H self)) (\<lambda>s _. now (Ok s, Some s)))"

definition h3_reset ::
  "'h net \<Rightarrow> 'h http \<Rightarrow> h3_transport \<Rightarrow> 'h option \<Rightarrow> ('h dres \<times> 'h option) fut" where
  "h3_reset N H self inner =
     await_st (with_st inner (h3_connect N H self)) (\<lambda>s _. now (Ok s, Some s))"

text \<open>
  The loop over the chunks of the body, at most \<open>n\<close> more of them; a peer that sends no data
  for ever keeps the loop going, so running out of chunks to count is not returning.
\<close>

fun h3_body :: "'h http \<Rightarrow> nat \<Rightarrow> 'h \<Rightarrow> bytes \<Rightarrow> bytes dfut" where
  "h3_body H 0 stream body = Never"
| "h3_body H (Suc n) stream body =
     await_ok (lift_err Quic (h3_recv_data H stream)) (\<lambda>(chunk, stream).
       case chunk of
         None \<Rightarrow> now (Ok body)
       | Some c \<Rightarrow>
           let body = body @ c in
           if 65535 < length body then now (Err (Http [Lit ''response body too large'']))
           else h3_body H n stream body)"

text \<open>The exchange on a sender, and the whole of it with \<open>get_sender\<close> before.\<close>

definition h3_send ::
  "dnslib \<Rightarrow> base64 \<Rightarrow> 'h http \<Rightarrow> nat \<Rightarrow> h3_transport \<Rightarrow> 'h \<Rightarrow> message \<Rightarrow> message dfut" where
  "h3_send L B H fuel self sender req =
     await_ok (now (encode_request L B req)) (\<lambda>(encoded, original_id).
     await_ok (now (doh_request H
       (''https://'' @ server_name self @ h3_path self @ ''?dns='' @ encoded) (h3_auth self))) (\<lambda>http_req.
     await_ok (or_timeout (h3_timeout self)
       (await_ok (lift_err Quic (h3_send_request H sender http_req)) (\<lambda>stream.
        await_ok (lift_err Quic (h3_finish H stream)) (\<lambda>stream.
        await_ok (lift_err Quic (h3_recv_response H stream)) (\<lambda>(status, stream).
        if \<not> is_success status then now (Err (UnexpectedStatus status (server_name self)))
        else h3_body H fuel stream []))))) (\<lambda>body.
     now (decode_response L body req original_id))))"

definition h3_exchange ::
  "dnslib \<Rightarrow> base64 \<Rightarrow> 'h net \<Rightarrow> 'h http \<Rightarrow> nat \<Rightarrow> h3_transport \<Rightarrow> 'h option \<Rightarrow> message \<Rightarrow>
   (message dres \<times> 'h option) fut" where
  "h3_exchange L B N H fuel self inner req =
     await_st (h3_get_sender N H self inner) (\<lambda>sender inner.
     with_st inner (h3_send L B H fuel self sender req))"

section \<open>The race between QUIC and TLS\<close>

definition probe_tls :: "'h net \<Rightarrow> socket_addr \<Rightarrow> string \<Rightarrow> unit dfut" where
  "probe_tls N addr name' =
     await_ok (lift_err Io (tcp_connect N addr)) (\<lambda>tcp.
     await_ok (now (lift_sum (\<lambda>e. Http [Lit ''invalid server name: '', Disp e])
        (server_name_try_from N name'))) (\<lambda>nm.
     await_ok (lift_err (\<lambda>e. Http [Disp e])
        (tls_connect N \<lparr>verifier = WebpkiRoots, alpn_protocols = []\<rparr> nm tcp)) (\<lambda>_.
     now (Ok ()))))"

text \<open>
  \<open>tokio::select!\<close> of the two probes: whichever ends first decides; when both end at the same
  moment the macro picks at random, and \<open>quic_first\<close> is its choice.
\<close>

definition race ::
  "bool \<Rightarrow> 'a dfut \<Rightarrow> 'b dfut \<Rightarrow> bool fut" where
  "race quic_first quic tls =
     (case (quic, tls) of
        (Ready t q, Ready u r) \<Rightarrow>
          if t < u \<or> (t = u \<and> quic_first) then Ready t (is_ok q) else Ready u (\<not> is_ok r)
      | (Ready t q, Never) \<Rightarrow> Ready t (is_ok q)
      | (Never, Ready u r) \<Rightarrow> Ready u (\<not> is_ok r)
      | (Never, Never) \<Rightarrow> Never)"

definition probe_h3 ::
  "'h net \<Rightarrow> bool \<Rightarrow> socket_addr \<Rightarrow> string \<Rightarrow> tls_config \<Rightarrow> duration option \<Rightarrow> bool \<Rightarrow> bool fut" where
  "probe_h3 N quic_first addr name' config tmo http_supported =
     (if \<not> http_supported then now True
      else let r = race quic_first (h3_dial_quic N addr name' config) (probe_tls N addr name') in
        case tmo of
          Some d \<Rightarrow> (case r of Ready t b \<Rightarrow> if t \<le> d then r else Ready d False | Never \<Rightarrow> Ready d False)
        | None \<Rightarrow> r)"

section \<open>The upstream and its state\<close>

record doh_upstream =
  doh_host :: string
  doh_port :: u16
  doh_path :: string
  doh_addr_redacted :: string
  doh_http_versions :: "http_version list"
  doh_resolver :: resolver
  doh_prefer_ipv6 :: bool
  doh_timeout :: "duration option"
  doh_insecure :: bool
  doh_auth_header :: "string option"

text \<open>A \<open>hyper\<close> client is its connector: the dial handler, the TLS settings, the server name.\<close>

record 'h https_connector =
  hc_dial :: "network \<Rightarrow> 'h conn dfut"
  hc_tls_config :: tls_config
  hc_server_name :: string

text \<open>
  An \<open>Arc<Http3Transport>\<close> is an index into \<open>st_transports\<close>, the transports made so far with their
  senders: a request may go on with a transport that another one has meanwhile taken out of the
  upstream.
\<close>

record 'h doh_state =
  st_client :: "'h https_connector option"
  st_h3 :: "nat option"
  st_transports :: "(h3_transport \<times> 'h option) list"
  st_prefer_h3 :: "bool option"

definition doh_init :: "'h doh_state" where
  "doh_init = \<lparr>st_client = None, st_h3 = None, st_transports = [], st_prefer_h3 = None\<rparr>"

text \<open>\<open>std_encode\<close> is the padded base64 engine \<open>STANDARD\<close>.\<close>

definition doh_new ::
  "'h net \<Rightarrow> (bytes \<Rightarrow> string) \<Rightarrow> string \<Rightarrow> u16 option \<Rightarrow> string \<Rightarrow> resolver options \<Rightarrow> doh_upstream" where
  "doh_new N std_encode host port path opts =
     (let p = (case port of Some p \<Rightarrow> p | None \<Rightarrow> 443) in
      \<lparr>doh_host = host, doh_port = p, doh_path = path,
       doh_addr_redacted = ''https://'' @ host @ '':'' @ show_dec (unat p) @ path,
       doh_http_versions = resolved_http_versions opts, doh_resolver = resolver_of N opts,
       doh_prefer_ipv6 = prefer_ipv6 opts, doh_timeout = timeout opts,
       doh_insecure = insecure_skip_verify opts,
       doh_auth_header = map_option (\<lambda>(user, pass).
         ''Basic '' @ std_encode (bytes_of_string (user @ '':'' @ pass))) (basic_auth opts)\<rparr>)"

definition error_chain :: "string list \<Rightarrow> string" where
  "error_chain parts = join_with '' -> '' parts"

text \<open>The connector's \<open>call\<close>.\<close>

definition https_connect :: "'h net \<Rightarrow> 'h https_connector \<Rightarrow> 'h dfut" where
  "https_connect N c =
     await_ok (hc_dial c Tcp) (\<lambda>conn.
     await_ok (now (case conn of
        TcpConn s \<Rightarrow> Ok s
      | UdpConn _ _ \<Rightarrow> Err (Http [Lit ''expected tcp connection'']))) (\<lambda>tcp.
     tls_handshake N (hc_tls_config c) (hc_server_name c) tcp))"

definition create_client :: "'h net \<Rightarrow> doh_upstream \<Rightarrow> 'h https_connector dfut" where
  "create_client N self =
     await_ok (resolve_dial_context N (doh_host self) (doh_port self) (doh_timeout self)
        (doh_resolver self) (doh_prefer_ipv6 self)) (\<lambda>dial.
     let alpns = map alpn (filter (\<lambda>v. v \<noteq> Http3) (doh_http_versions self)) in
     if alpns = [] then now (Err NoSupportedVersions)
     else now (Ok \<lparr>hc_dial = dial,
         hc_tls_config = build_tls_config (doh_host self) (doh_insecure self) alpns,
         hc_server_name = doh_host self\<rparr>))"

text \<open>\<open>create_client\<close> as \<open>get_client\<close> runs it: a client that took longer than the timeout is an error.\<close>

definition timely_client :: "'h net \<Rightarrow> doh_upstream \<Rightarrow> 'h https_connector dfut" where
  "timely_client N self =
     (case create_client N self of
        Ready t (Ok c) \<Rightarrow>
          Ready t (case doh_timeout self of
            Some d \<Rightarrow> if d < t then Err (Timeout t) else Ok c
          | None \<Rightarrow> Ok c)
      | f \<Rightarrow> f)"

definition get_client ::
  "'h net \<Rightarrow> doh_upstream \<Rightarrow> 'h doh_state \<Rightarrow> (('h https_connector \<times> bool) dres \<times> 'h doh_state) fut" where
  "get_client N self st =
     (case st_client st of
        Some c \<Rightarrow> now (Ok (c, True), st)
      | None \<Rightarrow>
          await_st (with_st st (timely_client N self)) (\<lambda>c st. now (Ok (c, False), st\<lparr>st_client := Some c\<rparr>)))"

definition reset_client ::
  "'h net \<Rightarrow> doh_upstream \<Rightarrow> 'h doh_state \<Rightarrow> ('h https_connector dres \<times> 'h doh_state) fut" where
  "reset_client N self st =
     await_st (with_st st (create_client N self)) (\<lambda>c st. now (Ok c, st\<lparr>st_client := Some c\<rparr>))"

definition reset_client_ignore_err :: "'h doh_state \<Rightarrow> 'h doh_state" where
  "reset_client_ignore_err st = st\<lparr>st_client := None\<rparr>"

definition http2_supported :: "doh_upstream \<Rightarrow> bool" where
  "http2_supported self = list_ex (\<lambda>v. v \<noteq> Http3) (doh_http_versions self)"

section \<open>Exchanges\<close>

definition exchange_https ::
  "dnslib \<Rightarrow> base64 \<Rightarrow> 'h net \<Rightarrow> 'h http \<Rightarrow> doh_upstream \<Rightarrow> 'h https_connector \<Rightarrow> message \<Rightarrow> message dfut" where
  "exchange_https L B N H self client req =
     await_ok (now (encode_request L B req)) (\<lambda>(encoded, original_id).
     await_ok (now (doh_request H
       (''https://'' @ doh_host self @ '':'' @ show_dec (unat (doh_port self)) @ doh_path self @
        ''?dns='' @ encoded) (doh_auth_header self))) (\<lambda>http_req.
     await_ok (or_timeout (doh_timeout self)
       (lift_err (\<lambda>e. Http [Disp (error_chain e)])
          (hyper_request H (https_connect N client) http_req))) (\<lambda>(status, resp_body).
     await_ok (lift_err (\<lambda>e. Http [Lit ''reading body: '', Disp e]) (body_collect H resp_body)) (\<lambda>body.
     now (if \<not> is_success status then Err (UnexpectedStatus status (doh_addr_redacted self))
          else if 65535 < length body then
            Err (Http [Lit ''response body too large: '', Num (length body), Lit '' bytes''])
          else decode_response L body req original_id)))))"

text \<open>The address that a QUIC connection is opened to: the first one found.\<close>

definition resolve_first :: "doh_upstream \<Rightarrow> socket_addr dfut" where
  "resolve_first self =
     await_ok (resolve_addrs (doh_host self) (doh_port self) (doh_timeout self) (doh_resolver self)
        (doh_prefer_ipv6 self)) (\<lambda>addrs.
     now (first_addr (doh_host self) addrs))"

definition probe_preference :: "'h net \<Rightarrow> bool \<Rightarrow> doh_upstream \<Rightarrow> bool dfut" where
  "probe_preference N quic_first self =
     await_ok (resolve_first self) (\<lambda>addr.
     map_fut Ok (probe_h3 N quic_first addr (doh_host self)
       (build_tls_config (doh_host self) (doh_insecure self) [''h2'']) (doh_timeout self) True))"

text \<open>The version to use, where it is known without a probe.\<close>

definition known_preference :: "doh_upstream \<Rightarrow> 'h doh_state \<Rightarrow> bool option" where
  "known_preference self st =
     (if Http3 \<notin> set (doh_http_versions self) then Some False
      else if \<not> http2_supported self then Some True
      else st_prefer_h3 st)"

definition should_use_http3 ::
  "'h net \<Rightarrow> bool \<Rightarrow> doh_upstream \<Rightarrow> 'h doh_state \<Rightarrow> (bool dres \<times> 'h doh_state) fut" where
  "should_use_http3 N quic_first self st =
     (case known_preference self st of
        Some p \<Rightarrow> now (Ok p, st)
      | None \<Rightarrow>
          await_st (with_st st (probe_preference N quic_first self)) (\<lambda>p st.
          now (Ok p, st\<lparr>st_prefer_h3 := Some p\<rparr>)))"

definition new_transport :: "doh_upstream \<Rightarrow> socket_addr \<Rightarrow> h3_transport \<times> 'h option" where
  "new_transport self addr =
     h3_new addr (doh_host self) (build_tls_config (doh_host self) (doh_insecure self) [''h3''])
       (doh_timeout self) (doh_path self) (doh_auth_header self)"

definition add_transport :: "h3_transport \<times> 'h option \<Rightarrow> 'h doh_state \<Rightarrow> 'h doh_state" where
  "add_transport t st = st\<lparr>st_h3 := Some (length (st_transports st)), st_transports := st_transports st @ [t]\<rparr>"

definition get_h3_transport ::
  "doh_upstream \<Rightarrow> 'h doh_state \<Rightarrow> ((nat \<times> bool) dres \<times> 'h doh_state) fut" where
  "get_h3_transport self st =
     (case st_h3 st of
        Some t \<Rightarrow> now (Ok (t, True), st)
      | None \<Rightarrow>
          await_st (with_st st (resolve_first self)) (\<lambda>addr st.
          now (Ok (length (st_transports st), False), add_transport (new_transport self addr) st)))"

text \<open>Running an operation of a transport on the sender it holds, and writing the sender back.\<close>

abbreviation transport_at :: "'h doh_state \<Rightarrow> nat \<Rightarrow> h3_transport" where
  "transport_at st t \<equiv> fst (st_transports st ! t)"

abbreviation sender_at :: "'h doh_state \<Rightarrow> nat \<Rightarrow> 'h option" where
  "sender_at st t \<equiv> snd (st_transports st ! t)"

definition set_sender :: "nat \<Rightarrow> 'h option \<Rightarrow> 'h doh_state \<Rightarrow> 'h doh_state" where
  "set_sender t inner st = st\<lparr>st_transports := (st_transports st)[t := (transport_at st t, inner)]\<rparr>"

definition on_transport ::
  "nat \<Rightarrow> 'h doh_state \<Rightarrow> ('a dres \<times> 'h option) fut \<Rightarrow> ('a dres \<times> 'h doh_state) fut" where
  "on_transport t st f = map_fut (\<lambda>(r, inner). (r, set_sender t inner st)) f"

definition exchange_h3 ::
  "dnslib \<Rightarrow> base64 \<Rightarrow> 'h net \<Rightarrow> 'h http \<Rightarrow> nat \<Rightarrow> doh_upstream \<Rightarrow> 'h doh_state \<Rightarrow> message \<Rightarrow>
   (message dres \<times> 'h doh_state) fut" where
  "exchange_h3 L B N H fuel self st req =
     await_st (get_h3_transport self st) (\<lambda>(t, was_cached) st.
     await (on_transport t st (h3_exchange L B N H fuel (transport_at st t) (sender_at st t) req)) (\<lambda>(r, st).
     match_retry (now r) was_cached st
       (await_st (on_transport t st (h3_reset N H (transport_at st t) (sender_at st t))) (\<lambda>_ st.
        on_transport t st (h3_exchange L B N H fuel (transport_at st t) (sender_at st t) req)))
       (st\<lparr>st_h3 := None\<rparr>)))"

definition doh_exchange ::
  "dnslib \<Rightarrow> base64 \<Rightarrow> 'h net \<Rightarrow> 'h http \<Rightarrow> nat \<Rightarrow> bool \<Rightarrow> doh_upstream \<Rightarrow> 'h doh_state \<Rightarrow> message \<Rightarrow>
   (message dres \<times> 'h doh_state) fut" where
  "doh_exchange L B N H fuel quic_first self st req =
     await_st (should_use_http3 N quic_first self st) (\<lambda>use_h3 st.
     if use_h3 then exchange_h3 L B N H fuel self st req
     else
       await_st (get_client N self st) (\<lambda>(client, was_cached) st.
       match_retry (exchange_https L B N H self client req) was_cached st
         (await_st (reset_client N self st) (\<lambda>client st.
          with_st st (exchange_https L B N H self client req)))
         (reset_client_ignore_err st)))"

definition doh_answer ::
  "dnslib \<Rightarrow> base64 \<Rightarrow> 'h net \<Rightarrow> 'h http \<Rightarrow> nat \<Rightarrow> bool \<Rightarrow> doh_upstream \<times> 'h doh_state \<Rightarrow> message \<Rightarrow> message dfut" where
  "doh_answer L B N H fuel quic_first x req =
     map_fut fst (doh_exchange L B N H fuel quic_first (fst x) (snd x) req)"

section \<open>What an exchange promises\<close>

lemma exchange_https_ok:
  assumes "fut_value (exchange_https L B N H self client req) = Some (Ok resp)"
  shows "same_question L req resp \<and> msg_id resp = msg_id req"
  using assms
  by (auto simp: exchange_https_def fut_simps encode_request_ok_iff decode_response_ok_iff split: if_splits)

lemma h3_send_ok:
  assumes "fut_value (h3_send L B H fuel self sender req) = Some (Ok resp)"
  shows "same_question L req resp \<and> msg_id resp = msg_id req"
  using assms by (auto simp: h3_send_def fut_simps encode_request_ok_iff decode_response_ok_iff)

lemma h3_exchange_ok:
  assumes "fut_value (h3_exchange L B N H fuel self inner req) = Some (Ok resp, inner')"
  shows "same_question L req resp \<and> msg_id resp = msg_id req"
  using assms by (auto simp: h3_exchange_def fut_simps dest: h3_send_ok)

lemma on_transport_value:
  "fut_value (on_transport t st f) = Some (r, st') \<longleftrightarrow>
   (\<exists>inner. fut_value f = Some (r, inner) \<and> st' = set_sender t inner st)"
  by (cases f) (auto simp: on_transport_def)

lemma exchange_h3_ok:
  assumes "fut_value (exchange_h3 L B N H fuel self st req) = Some (Ok resp, st')"
  shows "same_question L req resp \<and> msg_id resp = msg_id req"
  using assms
  by (auto simp: exchange_h3_def fut_simps on_transport_value bind_eq_Some_conv dest: h3_exchange_ok)

lemma doh_exchange_ok:
  assumes "fut_value (doh_exchange L B N H fuel qf self st req) = Some (Ok resp, st')"
  shows "same_question L req resp \<and> msg_id resp = msg_id req"
proof -
  obtain use_h3 st1 where u: "fut_value (should_use_http3 N qf self st) = Some (Ok use_h3, st1)"
    and r: "fut_value (if use_h3 then exchange_h3 L B N H fuel self st1 req
       else await_st (get_client N self st1) (\<lambda>(client, was_cached) st.
         match_retry (exchange_https L B N H self client req) was_cached st
           (await_st (reset_client N self st) (\<lambda>client st.
            with_st st (exchange_https L B N H self client req)))
           (reset_client_ignore_err st))) = Some (Ok resp, st')"
    using assms by (auto simp: doh_exchange_def fut_value_await_st)
  show ?thesis
  proof (cases use_h3)
    case True
    then show ?thesis using exchange_h3_ok [OF r [simplified True if_True]] by simp
  next
    case False
    then have "\<exists>client. fut_value (exchange_https L B N H self client req) = Some (Ok resp)"
      using r by (auto simp: fut_simps)
    then show ?thesis using exchange_https_ok by blast
  qed
qed

interpretation doh: validated_exchange L "doh_answer L B N H fuel qf" for L B N H fuel qf
proof
  fix x req resp
  assume "fut_value (doh_answer L B N H fuel qf x req) = Some (Ok resp)"
  then show "same_question L req resp"
    using doh_exchange_ok by (fastforce simp: doh_answer_def)
qed

section \<open>Reading an HTTP/3 body ends\<close>

text \<open>
  A peer whose data frames are not empty: every chunk takes the body closer to the limit, and
  \<open>2^16 + 1\<close> chunks are enough. Every larger bound gives the same result.
\<close>

definition busy_stream :: "'h http \<Rightarrow> bool" where
  "busy_stream H \<longleftrightarrow> (\<forall>s. \<exists>t r. h3_recv_data H s = Ready t r \<and> r \<noteq> Panic \<and>
     (\<forall>c s'. r = Ok (Some c, s') \<longrightarrow> c \<noteq> []))"

lemma h3_body_mono:
  "h3_body H n s body = Ready t r \<Longrightarrow> n \<le> m \<Longrightarrow> h3_body H m s body = Ready t r"
proof (induction n arbitrary: m s body t r)
  case (Suc n)
  then obtain m' where m: "m = Suc m'" "n \<le> m'" by (cases m) auto
  show ?case
  proof (cases "h3_recv_data H s")
    case (Ready u x)
    then show ?thesis
      using Suc.prems m Suc.IH [OF _ m(2)]
      by (cases x) (auto simp: Let_def fut_simps split: option.splits prod.splits if_splits)
  qed (use Suc.prems in \<open>simp add: lift_err_def\<close>)
qed simp

lemma h3_body_ends:
  assumes "busy_stream H" "length body \<le> 65535" "65536 < n + length body"
  shows "\<exists>t r. h3_body H n s body = Ready t r"
  using assms
proof (induction n arbitrary: s body)
  case (Suc n)
  obtain t r where r: "h3_recv_data H s = Ready t r" "r \<noteq> Panic"
      "\<forall>c s'. r = Ok (Some c, s') \<longrightarrow> c \<noteq> []"
    using Suc.prems(1) unfolding busy_stream_def by blast
  show ?case
  proof (cases r)
    case (Ok x)
    obtain chunk s' where x: "x = (chunk, s')" by (cases x)
    show ?thesis
    proof (cases chunk)
      case (Some c)
      then have "0 < length c" using r(3) Ok x by auto
      then have "65536 < n + length (body @ c)" using Suc.prems(3) unfolding length_append by linarith
      then have "\<exists>t r. h3_body H n s' (body @ c) = Ready t r" if "length (body @ c) \<le> 65535"
        using Suc.IH [OF Suc.prems(1) that] by blast
      then show ?thesis using r Ok x Some by (auto simp: Let_def fut_simps not_less)
    qed (use r Ok x in \<open>auto simp: fut_simps\<close>)
  qed (use r in auto)
qed auto

text \<open>A body that was read has at most 65535 bytes.\<close>

lemma h3_body_bound:
  "fut_value (h3_body H n s body) = Some (Ok b) \<Longrightarrow> length body \<le> 65535 \<Longrightarrow> length b \<le> 65535"
proof (induction n arbitrary: s body)
  case (Suc n)
  then show ?case
    by (auto simp: fut_simps Let_def split: option.splits if_splits)
qed simp

section \<open>The choice of the HTTP version\<close>

text \<open>Once made, the choice between HTTP/3 and HTTP/2 is kept.\<close>

lemma should_use_http3_cached:
  assumes "fut_value (should_use_http3 N qf self st) = Some (Ok p, st')"
  shows "should_use_http3 N' qf' self st' = now (Ok p, st')"
proof (cases "known_preference self st")
  case None
  then have "known_preference self (st\<lparr>st_prefer_h3 := Some p\<rparr>) = Some p"
    by (simp add: known_preference_def split: if_splits)
  then show ?thesis using assms None by (auto simp: should_use_http3_def fut_simps)
qed (use assms in \<open>simp add: should_use_http3_def\<close>)

lemma should_use_http3_fixed:
  assumes "fut_value (should_use_http3 N qf self st) = Some (Ok p, st')"
  shows "(p \<longrightarrow> Http3 \<in> set (doh_http_versions self)) \<and>
    (\<not> p \<longrightarrow> doh_http_versions self = [] \<or> http2_supported self)"
proof -
  have "(\<exists>v \<in> set vs. v \<noteq> Http3) \<or> vs = [] \<or> Http3 \<in> set vs" for vs by (cases vs) auto
  then show ?thesis using assms
    by (cases "known_preference self st")
      (auto simp: should_use_http3_def known_preference_def http2_supported_def list_ex_iff split: if_splits)
qed

text \<open>
  A client is only created for an upstream that allows HTTP/1.1 or HTTP/2, and offers just the
  versions the upstream allows.
\<close>

lemma create_client_alpns:
  assumes "fut_value (create_client N self) = Some (Ok c)"
  shows "alpn_protocols (hc_tls_config c) = map alpn (filter (\<lambda>v. v \<noteq> Http3) (doh_http_versions self)) \<and>
    alpn_protocols (hc_tls_config c) \<noteq> [] \<and>
    (verifier (hc_tls_config c) = NoVerifier \<longleftrightarrow> doh_insecure self)"
  using assms
  by (auto simp: create_client_def fut_simps Let_def build_tls_config_def split: if_splits)

lemma probe_h3_resolves: "resolves_by d (probe_h3 N qf addr nm config (Some d) supported)"
  by (auto simp: probe_h3_def Let_def split: fut.splits)

text \<open>Within the timeout, HTTP/3 is chosen exactly when the first probe to end speaks for QUIC.\<close>

lemma race_quic_wins:
  "race qf (Ready t (Ok h)) tls = Ready t True" if "\<And>u r. tls = Ready u r \<Longrightarrow> t < u"
  using that by (cases tls) (auto simp: race_def)

end
