(* ===== verification/Listener_Doh.thy ===== *)
theory Listener_Doh
  imports Listener_Io Doh_Client
begin

text \<open>
  \<open>listener/doh_auth.rs\<close>, \<open>listener/doh.rs\<close> and \<open>listener/doh3.rs\<close>: the DoH listeners and their
  Basic authentication. A request is its method, its query string, the value of its
  \<open>Authorization\<close> header when that is a text, and its body.
\<close>

section \<open>Credentials\<close>

record credentials =
  valid_headers :: "string list"

definition basic_header :: "(bytes \<Rightarrow> string) \<Rightarrow> string \<times> string \<Rightarrow> string" where
  "basic_header std_encode up =
     (case up of (user, pass) \<Rightarrow> ''Basic '' @ std_encode (bytes_of_string (user @ '':'' @ pass)))"

definition credentials_new :: "(bytes \<Rightarrow> string) \<Rightarrow> (string \<times> string) list \<Rightarrow> credentials" where
  "credentials_new std_encode pairs = \<lparr>valid_headers = map (basic_header std_encode) pairs\<rparr>"

definition credentials_is_empty :: "credentials \<Rightarrow> bool" where
  "credentials_is_empty c \<longleftrightarrow> valid_headers c = []"

definition is_authorized :: "credentials \<Rightarrow> string option \<Rightarrow> bool" where
  "is_authorized c authorization =
     (case authorization of
        Some header \<Rightarrow> list_ex (\<lambda>valid. valid = header) (valid_headers c)
      | None \<Rightarrow> False)"

definition parse_pair :: "string \<Rightarrow> (msg, string \<times> string) res" where
  "parse_pair s =
     (case split_once '':'' s of
        None \<Rightarrow> Err [Lit ''invalid credential '', Dbg s, Lit '': expected user:password'']
      | Some (user, pass) \<Rightarrow>
          if user = [] then Err [Lit ''invalid credential '', Dbg s, Lit '': username is empty'']
          else Ok (user, pass))"

section \<open>Requests and responses\<close>

datatype http_method = GET | POST | OtherMethod string

record http_in =
  in_method :: http_method
  in_query :: "string option"
  in_authorization :: "string option"
  in_body :: "bytes io"
  in_chunks :: "bytes list"
  in_chunk_error :: "string option"

record http_response =
  status :: nat
  headers :: "(string \<times> string) list"
  body :: bytes

definition error_response :: "nat \<Rightarrow> http_response" where
  "error_response code = \<lparr>status = code, headers = [], body = []\<rparr>"

definition unauthorized_response :: http_response where
  "unauthorized_response = \<lparr>status = 401, headers = [(''www-authenticate'', ''Basic'')], body = []\<rparr>"

definition dns_response :: "nat \<Rightarrow> bytes \<Rightarrow> http_response" where
  "dns_response code b =
     \<lparr>status = code, headers = [(''content-type'', ''application/dns-message'')], body = b\<rparr>"

text \<open>\<open>query.split('&').find_map(|pair| pair.strip_prefix("dns="))\<close>\<close>

fun find_map :: "('a \<Rightarrow> 'b option) \<Rightarrow> 'a list \<Rightarrow> 'b option" where
  "find_map f [] = None"
| "find_map f (x # xs) = (case f x of Some y \<Rightarrow> Some y | None \<Rightarrow> find_map f xs)"

definition find_dns_param :: "string \<Rightarrow> string option" where
  "find_dns_param query = find_map (strip_prefix ''dns='') (split_on CHR ''&'' query)"

definition refused :: "credentials \<Rightarrow> http_in \<Rightarrow> bool" where
  "refused creds req \<longleftrightarrow>
     \<not> credentials_is_empty creds \<and>
     \<not> (case in_authorization req of Some v \<Rightarrow> is_authorized creds (Some v) | None \<Rightarrow> False)"

section \<open>HTTP/1.1 and HTTP/2\<close>

definition handle_request_inner ::
  "dnslib \<Rightarrow> base64 \<Rightarrow> handler \<Rightarrow> credentials \<Rightarrow> http_in \<Rightarrow> http_response dfut" where
  "handle_request_inner L B handle creds req =
     (if refused creds req then now (Ok unauthorized_response)
      else
        let dns_param = Option.bind (in_query req) find_dns_param;
            answer = (\<lambda>b.
              await_ok (now (decode_request L B dns_param b)) (\<lambda>query.
              await_ok (handle query) (\<lambda>resp.
              await_ok (now (encode_response L resp)) (\<lambda>bytes. now (Ok (dns_response 200 bytes))))))
        in case in_method req of
             GET \<Rightarrow> answer []
           | POST \<Rightarrow>
               await_ok (lift_err (\<lambda>e. Http [Lit ''reading body: '', Disp e]) (in_body req)) (\<lambda>b.
               if 65535 < length b then now (Err (Http [Lit ''request body too large''])) else answer b)
           | OtherMethod m \<Rightarrow> now (Ok (error_response 405)))"

definition handle_request ::
  "dnslib \<Rightarrow> base64 \<Rightarrow> handler \<Rightarrow> credentials \<Rightarrow> http_in \<Rightarrow> http_response dfut" where
  "handle_request L B handle creds req =
     map_fut (\<lambda>r. case r of Ok resp \<Rightarrow> Ok resp | Err e \<Rightarrow> Ok (error_response 400) | Panic \<Rightarrow> Panic)
       (handle_request_inner L B handle creds req)"

section \<open>HTTP/3\<close>

fun read_chunks :: "bytes list \<Rightarrow> string option \<Rightarrow> bytes \<Rightarrow> bytes dres" where
  "read_chunks [] err b = (case err of Some e \<Rightarrow> Err (Quic e) | None \<Rightarrow> Ok b)"
| "read_chunks (c # cs) err b =
     (if 65535 < length (b @ c) then Err (Http [Lit ''request body too large''])
      else read_chunks cs err (b @ c))"

text \<open>The response sent on the stream; an error means that none is.\<close>

definition h3_handle_request ::
  "dnslib \<Rightarrow> base64 \<Rightarrow> handler \<Rightarrow> credentials \<Rightarrow> http_in \<Rightarrow> http_response dfut" where
  "h3_handle_request L B handle creds req =
     (if refused creds req then now (Ok unauthorized_response)
      else
        let dns_param = Option.bind (in_query req) find_dns_param;
            answer = (\<lambda>b. case decode_request L B dns_param b of
                Err e \<Rightarrow> now (Ok (dns_response 400 []))
              | Panic \<Rightarrow> now Panic
              | Ok query \<Rightarrow>
                  await_ok (handle query) (\<lambda>resp.
                  await_ok (now (encode_response L resp)) (\<lambda>bytes. now (Ok (dns_response 200 bytes)))))
        in case in_method req of
             GET \<Rightarrow> answer []
           | POST \<Rightarrow> await_ok (now (read_chunks (in_chunks req) (in_chunk_error req) [])) answer
           | OtherMethod m \<Rightarrow> now (Ok (dns_response 405 [])))"

definition DOH_ALPN :: "string list" where
  "DOH_ALPN = [''h2'', ''http/1.1'']"

definition DOH3_ALPN :: "string list" where
  "DOH3_ALPN = [''h3'']"

section \<open>Authentication\<close>

lemma is_authorized_iff:
  "is_authorized (credentials_new enc pairs) (Some h) \<longleftrightarrow> h \<in> basic_header enc ` set pairs"
  by (auto simp: is_authorized_def credentials_new_def list_ex_iff)

text \<open>The header the client builds from a pair is the one the listener accepts for it.\<close>

lemma client_header_authorized:
  "doh_auth_header (doh_new N enc host port path (opts\<lparr>basic_auth := Some up\<rparr>)) = Some (basic_header enc up)"
  by (cases up) (simp add: doh_new_def basic_header_def Let_def)

lemma refused_unless_authorized:
  "refused (credentials_new enc pairs) req \<longleftrightarrow>
   pairs \<noteq> [] \<and> \<not> (\<exists>up \<in> set pairs. in_authorization req = Some (basic_header enc up))"
proof -
  have "credentials_is_empty (credentials_new enc pairs) \<longleftrightarrow> pairs = []"
    by (simp add: credentials_is_empty_def credentials_new_def)
  then show ?thesis
    by (cases "in_authorization req") (auto simp: refused_def is_authorized_iff)
qed

lemma parse_pair_ok_iff:
  "parse_pair s = Ok (u, p) \<longleftrightarrow> u \<noteq> [] \<and> CHR '':'' \<notin> set u \<and> s = u @ CHR '':'' # p"
  by (auto simp: parse_pair_def split_once_single split: option.splits if_splits
      dest: split_once_Some split_once_single_notin)

section \<open>The query parameter\<close>

lemma find_dns_param_single:
  "CHR ''&'' \<notin> set s \<Longrightarrow> find_dns_param (''dns='' @ s) = Some s"
  by (simp add: find_dns_param_def split_on_no_sep)

end
