(* ===== verification/Dnscrypt_Crypto.thy ===== *)
theory Dnscrypt_Crypto
  imports Net
begin

text \<open>
  \<open>client/dnscrypt/crypto.rs\<close>: resolver certificates and the encryption of queries and responses
  of DNSCrypt version 2. The primitives of \<open>crypto_box\<close> and \<open>ed25519_dalek\<close> are the parameter
  \<open>C\<close>; keys, nonces and signatures are byte lists, whose fixed lengths are hypotheses where they
  matter. Random nonces are arguments.
\<close>

record crypto =
  public_key_of :: "bytes \<Rightarrow> bytes"
  salsa_box :: "bytes \<Rightarrow> bytes \<Rightarrow> bytes"
  box_encrypt :: "bytes \<Rightarrow> bytes \<Rightarrow> bytes \<Rightarrow> string + bytes"
  box_decrypt :: "bytes \<Rightarrow> bytes \<Rightarrow> bytes \<Rightarrow> string + bytes"
  verifying_key_of :: "bytes \<Rightarrow> bytes"
  verifying_key_from_bytes :: "bytes \<Rightarrow> string + bytes"
  ed_sign :: "bytes \<Rightarrow> bytes \<Rightarrow> bytes"
  signature_from_slice :: "bytes \<Rightarrow> bytes option"
  ed_verify :: "bytes \<Rightarrow> bytes \<Rightarrow> bytes \<Rightarrow> bool"

text \<open>
  What is relied on: the Diffie-Hellman key is the same on both sides, a box opens with the key
  and nonce it was sealed with and adds its 16-byte tag, and a signature verifies under the key of
  its signer.
\<close>

locale crypto_laws =
  fixes C :: crypto
  assumes dh_symmetric: "length a = 32 \<Longrightarrow> length b = 32 \<Longrightarrow>
      salsa_box C (public_key_of C a) b = salsa_box C (public_key_of C b) a"
    and box_opens: "length n = 24 \<Longrightarrow>
      \<exists>c. box_encrypt C k n m = Inr c \<and> box_decrypt C k n c = Inr m"
    and box_length: "box_encrypt C k n m = Inr c \<Longrightarrow> length c = length m + 16"
    and public_key_length: "length a = 32 \<Longrightarrow> length (public_key_of C a) = 32"
    and verifying_key_length: "length a = 32 \<Longrightarrow> length (verifying_key_of C a) = 32"
    and verifying_key_parses: "length a = 32 \<Longrightarrow>
      verifying_key_from_bytes C (verifying_key_of C a) = Inr (verifying_key_of C a)"
    and signature_length: "length a = 32 \<Longrightarrow> length (ed_sign C a m) = 64"
    and signature_parses: "length a = 32 \<Longrightarrow>
      signature_from_slice C (ed_sign C a m) = Some (ed_sign C a m)"
    and signature_verifies: "length a = 32 \<Longrightarrow> ed_verify C (verifying_key_of C a) m (ed_sign C a m)"

section \<open>Certificates\<close>

definition CERT_MAGIC :: bytes where
  "CERT_MAGIC = bytes_of_string ''DNSC''"

definition ES_VERSION_XSALSA20POLY1305 :: u16 where
  "ES_VERSION_XSALSA20POLY1305 = 1"

definition RESOLVER_MAGIC :: bytes where
  "RESOLVER_MAGIC = bytes_of_string ''r6fnvWj8''"

record certificate =
  resolver_public_key :: bytes
  client_magic :: bytes
  serial :: u32
  ts_start :: u32
  ts_end :: u32

definition is_valid_at :: "certificate \<Rightarrow> u32 \<Rightarrow> bool" where
  "is_valid_at c t \<longleftrightarrow> ts_start c \<le> t \<and> t < ts_end c"

text \<open>\<open>u32::from_be_bytes(signed[i..i + 4].try_into().ok()?)\<close>\<close>

definition u32_at :: "nat \<Rightarrow> bytes \<Rightarrow> u32" where
  "u32_at i b = u32_from_be_bytes (b ! i) (b ! (i + 1)) (b ! (i + 2)) (b ! (i + 3))"

definition parse_one_certificate :: "crypto \<Rightarrow> bytes \<Rightarrow> bytes \<Rightarrow> certificate option" where
  "parse_one_certificate C b verifying_key =
     (if length b < 124 then None
      else if slice 0 4 b \<noteq> CERT_MAGIC then None
      else if u16_from_be_bytes (b ! 4) (b ! 5) \<noteq> ES_VERSION_XSALSA20POLY1305 then None
      else let signature_bytes = slice 8 72 b; signed = slice 72 124 b in
        Option.bind (signature_from_slice C signature_bytes) (\<lambda>sig.
          if \<not> ed_verify C verifying_key signed sig then None
          else Some \<lparr>resolver_public_key = slice 0 32 signed, client_magic = slice 32 40 signed,
                     serial = u32_at 40 signed, ts_start = u32_at 44 signed, ts_end = u32_at 48 signed\<rparr>))"

definition parse_certificates :: "crypto \<Rightarrow> bytes list \<Rightarrow> bytes \<Rightarrow> certificate list dres" where
  "parse_certificates C txt_records provider_public_key =
     res_bind (lift_sum (\<lambda>e. DnsCrypt [Lit ''invalid provider public key: '', Disp e])
        (verifying_key_from_bytes C provider_public_key)) (\<lambda>vk.
     Ok (sort_key (\<lambda>c. - uint (serial c))
          (List.map_filter (\<lambda>txt. parse_one_certificate C txt vk) txt_records)))"

definition signed_part :: "bytes \<Rightarrow> bytes \<Rightarrow> u32 \<Rightarrow> u32 \<Rightarrow> u32 \<Rightarrow> bytes" where
  "signed_part pk magic ser ts te =
     pk @ magic @ u32_to_be_bytes ser @ u32_to_be_bytes ts @ u32_to_be_bytes te"

definition sign_certificate :: "crypto \<Rightarrow> bytes \<Rightarrow> bytes \<Rightarrow> bytes \<Rightarrow> u32 \<Rightarrow> u32 \<Rightarrow> u32 \<Rightarrow> bytes" where
  "sign_certificate C signing_key pk magic ser ts te =
     (let signed = signed_part pk magic ser ts te; sig = ed_sign C signing_key signed
      in CERT_MAGIC @ u16_to_be_bytes ES_VERSION_XSALSA20POLY1305 @ [0, 0] @ sig @ signed)"

section \<open>Padding\<close>

definition pad :: "bytes \<Rightarrow> bytes" where
  "pad m =
     (let padded = m @ [0x80]; rem' = length padded mod 64
      in if rem' \<noteq> 0 then padded @ replicate (64 - rem') 0 else padded)"

fun rposition :: "('a \<Rightarrow> bool) \<Rightarrow> 'a list \<Rightarrow> nat option" where
  "rposition P [] = None"
| "rposition P (x # xs) =
     (case rposition P xs of Some i \<Rightarrow> Some (Suc i) | None \<Rightarrow> if P x then Some 0 else None)"

definition unpad :: "bytes \<Rightarrow> bytes dres" where
  "unpad padded =
     (case rposition (\<lambda>b. b \<noteq> 0) padded of
        Some idx \<Rightarrow> if padded ! idx = 0x80 then Ok (take idx padded)
                   else Err (DnsCrypt [Lit ''invalid padding in response''])
      | None \<Rightarrow> Err (DnsCrypt [Lit ''invalid padding in response'']))"

section \<open>Queries and responses\<close>

record client_key_pair =
  ck_secret :: bytes
  ck_public :: bytes

definition client_generate :: "crypto \<Rightarrow> bytes \<Rightarrow> client_key_pair" where
  "client_generate C sk = \<lparr>ck_secret = sk, ck_public = public_key_of C sk\<rparr>"

definition shared_box :: "crypto \<Rightarrow> bytes \<Rightarrow> bytes \<Rightarrow> bytes" where
  "shared_box C secret_key peer_public_key = salsa_box C peer_public_key secret_key"

definition encrypt_query ::
  "crypto \<Rightarrow> bytes \<Rightarrow> certificate \<Rightarrow> client_key_pair \<Rightarrow> bytes \<Rightarrow> (bytes \<times> bytes) dres" where
  "encrypt_query C client_nonce cert client m =
     (let full_nonce = client_nonce @ replicate 12 0;
          k = shared_box C (ck_secret client) (resolver_public_key cert)
      in res_bind (lift_sum (\<lambda>e. DnsCrypt [Lit ''encrypting query: '', Disp e])
           (box_encrypt C k full_nonce (pad m))) (\<lambda>ciphertext.
         Ok (client_magic cert @ ck_public client @ client_nonce @ ciphertext, client_nonce)))"

definition decrypt_response ::
  "crypto \<Rightarrow> certificate \<Rightarrow> client_key_pair \<Rightarrow> bytes \<Rightarrow> bytes \<Rightarrow> bytes dres" where
  "decrypt_response C cert client client_nonce resp =
     (if length resp < 32 then Err (DnsCrypt [Lit ''response too short''])
      else if slice 0 8 resp \<noteq> RESOLVER_MAGIC
        then Err (DnsCrypt [Lit ''response has wrong resolver magic''])
      else if slice 8 20 resp \<noteq> client_nonce
        then Err (DnsCrypt [Lit ''response echoes a different client nonce''])
      else let full_nonce = client_nonce @ slice 20 32 resp;
               k = shared_box C (ck_secret client) (resolver_public_key cert)
        in res_bind (lift_sum (\<lambda>e. DnsCrypt [Lit ''decrypting response: '', Disp e])
             (box_decrypt C k full_nonce (drop 32 resp))) unpad)"

definition decrypt_query ::
  "crypto \<Rightarrow> bytes \<Rightarrow> bytes \<Rightarrow> bytes \<Rightarrow> (bytes \<times> bytes \<times> bytes) dres" where
  "decrypt_query C resolver_secret expected_client_magic framed =
     (if length framed < 52 then Err (DnsCrypt [Lit ''query too short''])
      else if slice 0 8 framed \<noteq> expected_client_magic
        then Err (DnsCrypt [Lit ''query has wrong client magic''])
      else let client_public_key = slice 8 40 framed; client_nonce = slice 40 52 framed;
               full_nonce = client_nonce @ replicate 12 0;
               k = shared_box C resolver_secret client_public_key
        in res_bind (lift_sum (\<lambda>e. DnsCrypt [Lit ''decrypting query: '', Disp e])
             (box_decrypt C k full_nonce (drop 52 framed))) (\<lambda>padded.
           res_bind (unpad padded) (\<lambda>m. Ok (m, client_public_key, client_nonce))))"

definition encrypt_server_response ::
  "crypto \<Rightarrow> bytes \<Rightarrow> bytes \<Rightarrow> bytes \<Rightarrow> bytes \<Rightarrow> bytes \<Rightarrow> bytes dres" where
  "encrypt_server_response C resolver_nonce resolver_secret client_public_key client_nonce m =
     (let full_nonce = client_nonce @ resolver_nonce;
          k = shared_box C resolver_secret client_public_key
      in res_bind (lift_sum (\<lambda>e. DnsCrypt [Lit ''encrypting response: '', Disp e])
           (box_encrypt C k full_nonce (pad m))) (\<lambda>ciphertext.
         Ok (RESOLVER_MAGIC @ client_nonce @ resolver_nonce @ ciphertext)))"

section \<open>Padding is undone\<close>

lemma rposition_replicate: "\<not> P z \<Longrightarrow> rposition P (replicate n z) = None"
  by (induction n) auto

lemma rposition_append_none: "rposition P ys = None \<Longrightarrow> rposition P (xs @ ys) = rposition P xs"
  by (induction xs) auto

lemma rposition_snoc: "P x \<Longrightarrow> rposition P (xs @ [x]) = Some (length xs)"
  by (induction xs) auto

lemma unpad_marked: "unpad (m @ 0x80 # replicate n 0) = Ok m"
proof -
  have "rposition (\<lambda>b. b \<noteq> 0) ((m @ [0x80]) @ replicate n 0) = Some (length m)"
    by (subst rposition_append_none) (simp_all add: rposition_replicate rposition_snoc)
  then show ?thesis by (simp add: unpad_def)
qed

lemma unpad_pad: "unpad (pad m) = Ok m"
  using unpad_marked [of m 0] unpad_marked [of m] by (simp add: pad_def Let_def)

lemma pad_length:
  "length (pad m) mod 64 = 0" "length m < length (pad m)" "length (pad m) \<le> length m + 64"
proof -
  let ?r = "Suc (length m) mod 64"
  have "length (pad m) mod 64 = 0 \<and> length m < length (pad m) \<and> length (pad m) \<le> length m + 64"
  proof (cases "?r = 0")
    case False
    then have "length (pad m) = Suc (length m) + (64 - ?r)" by (simp add: pad_def Let_def)
    moreover have "(Suc (length m) + (64 - ?r)) mod 64 = 0" using False by presburger
    moreover have "0 < ?r" "?r < 64" using False by auto
    ultimately show ?thesis by (intro conjI) (metis, linarith+)
  qed (simp add: pad_def Let_def)
  then show "length (pad m) mod 64 = 0" "length m < length (pad m)" "length (pad m) \<le> length m + 64"
    by auto
qed

section \<open>What is encrypted for a peer is decrypted by it\<close>

context crypto_laws
begin

lemma shared_box_sym:
  assumes "length a = 32" "length b = 32"
  shows "shared_box C a (public_key_of C b) = shared_box C b (public_key_of C a)"
  using dh_symmetric [OF assms] by (simp add: shared_box_def)

lemma decrypt_encrypt_query:
  assumes len: "length rsk = 32" "length csk = 32" "length n = 12" "length magic = 8"
    and cert: "resolver_public_key cert = public_key_of C rsk" "client_magic cert = magic"
  shows "\<exists>framed. encrypt_query C n cert (client_generate C csk) m = Ok (framed, n) \<and>
    decrypt_query C rsk magic framed = Ok (m, public_key_of C csk, n)"
proof -
  let ?k = "shared_box C csk (public_key_of C rsk)"
  have k: "shared_box C rsk (public_key_of C csk) = ?k" using shared_box_sym len by metis
  have pk: "length (public_key_of C csk) = 32" using len public_key_length by blast
  obtain c where c: "box_encrypt C ?k (n @ replicate 12 0) (pad m) = Inr c"
      "box_decrypt C ?k (n @ replicate 12 0) c = Inr (pad m)"
    using box_opens [of "n @ replicate 12 0" ?k "pad m"] len by auto
  let ?f = "magic @ public_key_of C csk @ n @ c"
  have "slice 0 8 ?f = magic" "slice 8 40 ?f = public_key_of C csk" "slice 40 52 ?f = n" "drop 52 ?f = c"
    using len pk by (simp_all add: slice_def)
  moreover have "52 \<le> length ?f" using len pk by simp
  ultimately show ?thesis
    using c k cert by (simp add: encrypt_query_def decrypt_query_def client_generate_def Let_def unpad_pad)
qed

lemma decrypt_encrypt_response:
  assumes len: "length rsk = 32" "length csk = 32" "length n = 12" "length rn = 12"
    and cert: "resolver_public_key cert = public_key_of C rsk"
  shows "\<exists>framed. encrypt_server_response C rn rsk (public_key_of C csk) n m = Ok framed \<and>
    decrypt_response C cert (client_generate C csk) n framed = Ok m"
proof -
  let ?k = "shared_box C csk (public_key_of C rsk)"
  have k: "shared_box C rsk (public_key_of C csk) = ?k" using shared_box_sym len by metis
  obtain c where c: "box_encrypt C ?k (n @ rn) (pad m) = Inr c" "box_decrypt C ?k (n @ rn) c = Inr (pad m)"
    using box_opens [of "n @ rn" ?k "pad m"] len by auto
  let ?f = "RESOLVER_MAGIC @ n @ rn @ c"
  have "length RESOLVER_MAGIC = 8" by (simp add: RESOLVER_MAGIC_def bytes_of_string_def)
  then have "slice 0 8 ?f = RESOLVER_MAGIC" "slice 8 20 ?f = n" "slice 20 32 ?f = rn" "drop 32 ?f = c"
      "32 \<le> length ?f"
    using len by (simp_all add: slice_def)
  then show ?thesis
    using c k cert
    by (simp add: encrypt_server_response_def decrypt_response_def client_generate_def Let_def unpad_pad)
qed

end

section \<open>Certificates that were signed are accepted, and only those\<close>

lemma u32_at_to_be: "length xs = i \<Longrightarrow> u32_at i (xs @ u32_to_be_bytes w @ ys) = w"
  by (auto simp: u32_at_def nth_append u32_to_be_bytes_def
      intro!: u32_from_to_be_bytes [unfolded u32_to_be_bytes_def])

lemma signed_part_fields:
  assumes "length pk = 32" "length magic = 8"
  shows "slice 0 32 (signed_part pk magic ser ts te) = pk" "slice 32 40 (signed_part pk magic ser ts te) = magic"
    "u32_at 40 (signed_part pk magic ser ts te) = ser" "u32_at 44 (signed_part pk magic ser ts te) = ts"
    "u32_at 48 (signed_part pk magic ser ts te) = te" "length (signed_part pk magic ser ts te) = 52"
  using assms u32_at_to_be [of "pk @ magic" 40 ser] u32_at_to_be [of "pk @ magic @ u32_to_be_bytes ser" 44 ts]
    u32_at_to_be [of "pk @ magic @ u32_to_be_bytes ser @ u32_to_be_bytes ts" 48 te "[]"]
  by (simp_all add: signed_part_def slice_def)

context crypto_laws
begin

lemma parse_signed_certificate:
  assumes len: "length sk = 32" "length pk = 32" "length magic = 8"
  shows "parse_one_certificate C (sign_certificate C sk pk magic ser ts te @ rest) (verifying_key_of C sk) =
    Some \<lparr>resolver_public_key = pk, client_magic = magic, serial = ser, ts_start = ts, ts_end = te\<rparr>"
proof -
  let ?s = "signed_part pk magic ser ts te"
  let ?sig = "ed_sign C sk ?s"
  have sig: "length ?sig = 64" "signature_from_slice C ?sig = Some ?sig"
      "ed_verify C (verifying_key_of C sk) ?s ?sig"
    using signature_length signature_parses signature_verifies len(1) by auto
  let ?b = "CERT_MAGIC @ u16_to_be_bytes 1 @ [0, 0] @ ?sig @ ?s @ rest"
  have m: "length CERT_MAGIC = 4" "length (u16_to_be_bytes 1) = 2"
    by (simp_all add: CERT_MAGIC_def bytes_of_string_def u16_to_be_bytes_def)
  have "slice 0 4 ?b = CERT_MAGIC" "slice 8 72 ?b = ?sig" "slice 72 124 ?b = ?s" "124 \<le> length ?b"
    using m sig(1) signed_part_fields(6) [OF len(2,3)] by (simp_all add: slice_def)
  moreover have "u16_from_be_bytes (?b ! 4) (?b ! 5) = 1"
    using m by (simp add: nth_append u16_to_be_bytes_def u16_from_be_bytes_def)
  ultimately show ?thesis
    using sig signed_part_fields [OF len(2,3)]
    by (simp add: parse_one_certificate_def sign_certificate_def ES_VERSION_XSALSA20POLY1305_def Let_def)
qed

end

text \<open>Every certificate returned carries a signature of the provider over its own fields.\<close>

definition cert_verified :: "crypto \<Rightarrow> bytes \<Rightarrow> bytes \<Rightarrow> certificate \<Rightarrow> bool" where
  "cert_verified C vk txt c \<longleftrightarrow>
     124 \<le> length txt \<and> slice 0 4 txt = CERT_MAGIC \<and>
     (\<exists>sig. signature_from_slice C (slice 8 72 txt) = Some sig \<and> ed_verify C vk (slice 72 124 txt) sig) \<and>
     slice 72 124 txt = signed_part (resolver_public_key c) (client_magic c) (serial c) (ts_start c) (ts_end c)"

lemma u8_high_bit: "8 \<le> k \<Longrightarrow> \<not> bit w k" for w :: u8
  using bit_imp_le_length [of w k] by auto

lemma u32_at_take: "i + 4 \<le> length b \<Longrightarrow> u32_to_be_bytes (u32_at i b) = slice i (i + 4) b"
proof -
  assume i: "i + 4 \<le> length b"
  then have "slice i (i + 4) b = [b ! i, b ! (i + 1), b ! (i + 2), b ! (i + 3)]"
    by (simp add: slice_def numeral_eq_Suc take_Suc_conv_app_nth)
  moreover have "u32_to_be_bytes (u32_from_be_bytes w x y z) = [w, x, y, z]" for w x y z
    by (auto simp: u32_to_be_bytes_def u32_from_be_bytes_def intro!: bit_word_eqI
        simp: bit_simps u8_high_bit)
  ultimately show ?thesis by (simp add: u32_at_def)
qed

lemma slice_join: "i \<le> j \<Longrightarrow> j \<le> k \<Longrightarrow> slice i j b @ slice j k b = slice i k b"
proof -
  assume "i \<le> j" "j \<le> k"
  then have "k - i = (j - i) + (k - j)" "drop j b = drop (j - i) (drop i b)" by simp_all
  then show ?thesis by (simp only: slice_def take_add)
qed

lemma parse_one_verified:
  assumes "parse_one_certificate C txt vk = Some c"
  shows "cert_verified C vk txt c"
proof -
  let ?s = "slice 72 124 txt"
  have l: "124 \<le> length txt" using assms by (auto simp: parse_one_certificate_def split: if_splits)
  then have len: "length ?s = 52" by (simp add: slice_def)
  have c: "resolver_public_key c = slice 0 32 ?s" "client_magic c = slice 32 40 ?s" "serial c = u32_at 40 ?s"
      "ts_start c = u32_at 44 ?s" "ts_end c = u32_at 48 ?s"
      "\<exists>sig. signature_from_slice C (slice 8 72 txt) = Some sig \<and> ed_verify C vk ?s sig"
      "slice 0 4 txt = CERT_MAGIC"
    using assms by (auto simp: parse_one_certificate_def Let_def bind_eq_Some_conv split: if_splits)
  have "signed_part (resolver_public_key c) (client_magic c) (serial c) (ts_start c) (ts_end c) = slice 0 52 ?s"
    unfolding signed_part_def c(1-5)
    using len u32_at_take [of 40 ?s] u32_at_take [of 44 ?s] u32_at_take [of 48 ?s]
    by (simp add: slice_join)
  also have "\<dots> = ?s" using len by (simp add: slice_def)
  finally show ?thesis using l c(6,7) by (simp add: cert_verified_def)
qed

lemma parse_certificates_ok:
  assumes "parse_certificates C txts pk = Ok certs"
  shows "\<exists>vk. verifying_key_from_bytes C pk = Inr vk \<and>
    (\<forall>c \<in> set certs. \<exists>txt \<in> set txts. cert_verified C vk txt c) \<and>
    sorted_wrt (\<lambda>c d. serial d \<le> serial c) certs"
proof (cases "verifying_key_from_bytes C pk")
  case (Inr vk)
  let ?cs = "List.map_filter (\<lambda>txt. parse_one_certificate C txt vk) txts"
  have certs: "certs = sort_key (\<lambda>c. - uint (serial c)) ?cs"
    using assms Inr by (simp add: parse_certificates_def)
  have "\<forall>c \<in> set certs. \<exists>txt \<in> set txts. cert_verified C vk txt c"
    using parse_one_verified by (fastforce simp: certs map_filter_def)
  moreover have "sorted_wrt (\<lambda>c d. serial d \<le> serial c) certs"
    using sorted_sort_key [of "\<lambda>c. - uint (serial c)" ?cs]
    by (simp add: certs sorted_map word_le_def)
  ultimately show ?thesis using Inr by blast
qed (use assms in \<open>simp add: parse_certificates_def\<close>)

end
