(* ===== verification/Addr_Text.thy ===== *)
theory Addr_Text
  imports Rust_Std
begin

text \<open>
  The printers of \<open>Rust_Std\<close> and its parsers are inverse to each other: numbers in any radix
  up to sixteen, ports, IPv4 addresses, IPv6 addresses and socket addresses. Every address the
  proxy prints (in a stamp, in an upstream's display form) therefore reads back as itself.
\<close>

named_theorems addr_eval "unfolding rules that evaluate the address parsers on literals"

section \<open>Numbers\<close>

lemma to_digit_digit_char:
  assumes "d < radix" and "radix \<le> 16"
  shows "to_digit radix (digit_char d) = Some d"
proof (cases "d < 10")
  case True
  with assms show ?thesis by (auto simp: to_digit_def digit_char_def Let_def)
next
  case False
  with assms show ?thesis by (auto simp: to_digit_def digit_char_def Let_def)
qed

lemma digits_of_bound: "2 \<le> radix \<Longrightarrow> d \<in> set (digits_of radix n) \<Longrightarrow> d < radix"
proof (induction radix n rule: digits_of.induct)
  case (1 radix n)
  then show ?case
    by (subst (asm) (2) digits_of.simps) (auto split: if_splits)
qed

lemma digits_of_not_Nil [simp]: "digits_of radix n \<noteq> []"
  by (subst digits_of.simps) simp

lemma value_of_append: "value_of radix (ds @ [d]) = value_of radix ds * radix + d"
  by (simp add: value_of_def)

lemma value_of_digits_of [simp]: "2 \<le> radix \<Longrightarrow> value_of radix (digits_of radix n) = n"
proof (induction radix n rule: digits_of.induct)
  case (1 radix n)
  show ?case
  proof (cases "n < radix")
    case True
    then show ?thesis by (subst digits_of.simps) (simp add: value_of_def)
  next
    case False
    with 1 have "value_of radix (digits_of radix (n div radix)) = n div radix" by simp
    with 1(2) False show ?thesis by (subst digits_of.simps) (simp add: value_of_append)
  qed
qed

lemma hd_digits_of_pos: "2 \<le> radix \<Longrightarrow> 0 < n \<Longrightarrow> 0 < hd (digits_of radix n)"
proof (induction radix n rule: digits_of.induct)
  case (1 radix n)
  show ?case
  proof (cases "n < radix")
    case True
    with 1 show ?thesis by (subst digits_of.simps) simp
  next
    case False
    then have "0 < n div radix" using 1(2) by (simp add: div_greater_zero_iff)
    with 1 False have "0 < hd (digits_of radix (n div radix))" by simp
    with False 1(2) show ?thesis by (subst digits_of.simps) simp
  qed
qed

lemma length_digits_of:
  "2 \<le> radix \<Longrightarrow> 0 < k \<Longrightarrow> n < radix ^ k \<Longrightarrow> length (digits_of radix n) \<le> k"
proof (induction radix n arbitrary: k rule: digits_of.induct)
  case (1 radix n)
  show ?case
  proof (cases "n < radix")
    case True
    with 1(3) show ?thesis by (subst digits_of.simps) simp
  next
    case False
    obtain j where k: "k = Suc j" using 1(3) by (cases k) auto
    moreover have "0 < j" using 1(4) False k by (cases j) auto
    ultimately have k: "k = Suc j" "0 < j" by simp_all
    with 1(4) have "n div radix < radix ^ j"
      by (simp add: less_mult_imp_div_less mult.commute)
    with 1(1,2) False k have "length (digits_of radix (n div radix)) \<le> j" by simp
    with False k show ?thesis by (subst digits_of.simps) simp
  qed
qed

lemma digits_of_zero [simp]: "0 < radix \<Longrightarrow> digits_of radix 0 = [0]"
  by (subst digits_of.simps) simp

lemma leading_zero_digits_of:
  "2 \<le> radix \<Longrightarrow> hd (digits_of radix n) = 0 \<Longrightarrow> length (digits_of radix n) = 1"
  using hd_digits_of_pos [of radix n] by (cases "n = 0") auto

definition no_digit_front :: "nat \<Rightarrow> string \<Rightarrow> bool" where
  "no_digit_front radix r \<longleftrightarrow> (case r of [] \<Rightarrow> True | c # _ \<Rightarrow> to_digit radix c = None)"

lemma span_digits_show:
  assumes "\<forall>d \<in> set ds. d < radix" and "radix \<le> 16" and "no_digit_front radix r"
  shows "span_digits radix (map digit_char ds @ r) = (ds, r)"
  using assms
proof (induction ds)
  case Nil
  then show ?case by (cases r) (auto simp: no_digit_front_def)
next
  case (Cons d ds)
  then show ?case by (simp add: to_digit_digit_char)
qed

lemma read_number_show:
  assumes "2 \<le> radix" "radix \<le> 16" "no_digit_front radix r" "n \<le> mx"
    and "\<And>m. max_digits = Some m \<Longrightarrow> 0 < m \<and> n < radix ^ m"
  shows "read_number radix max_digits az mx (show_radix radix n @ r) = Some (n, r)"
proof -
  have span: "span_digits radix (show_radix radix n @ r) = (digits_of radix n, r)"
    using assms(1-3) by (auto simp: show_radix_def intro!: span_digits_show digits_of_bound)
  have short: "\<not> m < length (digits_of radix n)" if "max_digits = Some m" for m
    using assms(5) [OF that] length_digits_of [of radix m n] assms(1) by auto
  show ?thesis
    using assms(1,4) short leading_zero_digits_of [of radix n]
    by (auto simp: read_number_def span split: option.split)
qed

lemma foldl_value_ge: "acc \<le> foldl (\<lambda>a d. a * 10 + d) acc ds" for acc :: nat
proof (induction ds arbitrary: acc)
  case (Cons d ds)
  have "acc \<le> acc * 10 + d" by simp
  also have "\<dots> \<le> foldl (\<lambda>a d. a * 10 + d) (acc * 10 + d) ds" by (rule Cons.IH)
  finally show ?case by simp
qed simp

lemma dec_loop_digits:
  assumes "\<forall>d \<in> set ds. d < 10" and "foldl (\<lambda>a d. a * 10 + d) acc ds \<le> mx"
  shows "dec_loop mx acc (map digit_char ds) = Inr (foldl (\<lambda>a d. a * 10 + d) acc ds)"
  using assms
proof (induction ds arbitrary: acc)
  case (Cons d ds)
  have "acc * 10 + d \<le> mx"
    using foldl_value_ge [of "acc * 10 + d" ds] Cons.prems(2) by simp
  with Cons show ?case by (simp add: to_digit_digit_char)
qed simp

lemma digit_char_not_sign: "d < 10 \<Longrightarrow> digit_char d \<noteq> CHR ''+'' \<and> digit_char d \<noteq> CHR ''-''"
  using to_digit_digit_char [of d 10] by (auto simp: to_digit_def)

lemma parse_u16_show: "parse_u16 (show_dec (unat p)) = Inr p" for p :: u16
proof -
  obtain d ds where ds: "digits_of 10 (unat p) = d # ds"
    by (cases "digits_of 10 (unat p)") auto
  have small: "\<forall>e \<in> set (digits_of 10 (unat p)). e < 10"
    by (auto intro: digits_of_bound)
  have le: "unat p \<le> u16_max"
    using unsigned_less [where 'a = nat, of p] by simp
  have "dec_loop u16_max 0 (map digit_char (digits_of 10 (unat p))) = Inr (unat p)"
    using dec_loop_digits [OF small, of 0 u16_max] le value_of_digits_of [of 10 "unat p"]
    by (simp add: value_of_def)
  moreover have "digit_char d \<noteq> CHR ''+''" "digit_char d \<noteq> CHR ''-''"
    using small digit_char_not_sign [of d] by (auto simp: ds)
  ultimately show ?thesis
    by (simp add: parse_u16_def show_radix_def ds)
qed

section \<open>IPv4\<close>

lemma no_digit_front_simps [simp]:
  "no_digit_front 10 []"
  "no_digit_front 10 (CHR ''.'' # r)" "no_digit_front 10 (CHR '':'' # r)"
  "no_digit_front 10 (CHR '']'' # r)" "no_digit_front 10 (CHR ''%'' # r)"
  "no_digit_front 16 []" "no_digit_front 16 (CHR '':'' # r)"
  "no_digit_front 16 (CHR '']'' # r)" "no_digit_front 16 (CHR ''%'' # r)"
  "no_digit_front 16 (CHR ''.'' # r)"
  by (simp_all add: no_digit_front_def to_digit_def)

lemma unat_u8_le: "unat (b :: u8) \<le> 255"
  using unsigned_less [where 'a = nat, of b] by simp

lemma read_octet_show: "no_digit_front 10 r \<Longrightarrow> read_octet (show_dec (unat b) @ r) = Some (b, r)"
proof -
  assume r: "no_digit_front 10 r"
  have "unat b < 10 ^ 3" using unat_u8_le [of b] by simp
  then have "read_number 10 (Some 3) False 255 (show_dec (unat b) @ r) = Some (unat b, r)"
    using r unat_u8_le [of b] by (intro read_number_show) auto
  then show ?thesis by (simp add: read_octet_def)
qed

lemma read_ipv4_show:
  assumes "no_digit_front 10 r"
  shows "read_ipv4_addr (show_ipv4 a b c d @ r) = Some ((a, b, c, d), r)"
  using assms by (simp add: read_ipv4_addr_def show_ipv4_def read_octet_show read_dot_octet_def)

lemma read_port_show: "read_port (CHR '':'' # show_dec (unat p)) = Some (p, [])"
proof -
  have "unat p \<le> 65535" using unsigned_less [where 'a = nat, of p] by simp
  then have "read_number 10 None True 65535 (show_dec (unat p) @ []) = Some (unat p, [])"
    by (intro read_number_show) auto
  then show ?thesis by (simp add: read_port_def)
qed

lemma parse_socket_addr_show_v4:
  "parse_socket_addr (show_socket_addr (SockAddr (V4 a b c d) p 0)) = Some (SockAddr (V4 a b c d) p 0)"
  by (simp add: parse_socket_addr_def parse_with_def read_socket_addr_def read_socket_addr_v4_def
      read_ipv4_show read_port_show)

lemma parse_ip_addr_show_v4: "parse_ip_addr (show_ip_addr (V4 a b c d)) = Some (V4 a b c d)"
  using read_ipv4_show [of "[]" a b c d]
  by (simp add: parse_ip_addr_def parse_with_def read_ip_addr_def)

section \<open>IPv6\<close>

lemma digit_char_not_dot: "d < 16 \<Longrightarrow> digit_char d \<noteq> CHR ''.''"
  using to_digit_digit_char [of d 16] by (auto simp: to_digit_def)

definition no_dot_front :: "string \<Rightarrow> bool" where
  "no_dot_front r \<longleftrightarrow> (case r of [] \<Rightarrow> True | c # _ \<Rightarrow> c \<noteq> CHR ''.'')"

lemma no_dot_front_simps [simp]:
  "no_dot_front []" "no_dot_front (CHR '':'' # r)" "no_dot_front (CHR '']'' # r)"
  "no_dot_front (CHR ''%'' # r)"
  by (simp_all add: no_dot_front_def)

lemma no_digit_front_10: "no_digit_front 16 r \<Longrightarrow> no_digit_front 10 r"
  by (auto simp: no_digit_front_def to_digit_def Let_def split: list.splits if_splits)

lemma no_digit_front_read: "no_digit_front radix r \<Longrightarrow> read_number radix md az mx r = None"
  by (cases r) (auto simp: no_digit_front_def read_number_def)

lemma span_decimal_of_hex:
  assumes "\<forall>d \<in> set ds. d < 16" "no_digit_front 10 r" "no_dot_front r"
    and "span_digits 10 (map digit_char ds @ r) = (es, r')"
  shows "no_dot_front r'"
  using assms
proof (induction ds arbitrary: es)
  case Nil
  then show ?case by (cases r) (auto simp: no_digit_front_def)
next
  case (Cons d ds)
  then show ?case
    by (auto simp: no_dot_front_def digit_char_not_dot split: option.splits prod.splits)
qed

text \<open>A hexadecimal group that no dot follows is never the start of an IPv4 address.\<close>

lemma read_ipv4_hex_None:
  assumes "no_digit_front 16 r" "no_dot_front r"
  shows "read_ipv4_addr (show_hex n @ r) = None"
proof (cases "read_octet (show_hex n @ r)")
  case None
  then show ?thesis by (simp add: read_ipv4_addr_def)
next
  case (Some br)
  then obtain b r' es where br: "br = (b, r')" "span_digits 10 (show_hex n @ r) = (es, r')"
    by (auto simp: read_octet_def read_number_def split: prod.splits if_splits)
  have "no_dot_front r'"
    using span_decimal_of_hex [of "digits_of 16 n" r es r'] br assms digits_of_bound [of 16]
    by (auto simp: show_radix_def no_digit_front_10)
  then have "read_dot_octet r' = None"
    by (cases r') (auto simp: read_dot_octet_def no_dot_front_def)
  with Some br show ?thesis by (simp add: read_ipv4_addr_def)
qed

lemma read_ipv4_no_digit: "no_digit_front 10 r \<Longrightarrow> read_ipv4_addr r = None"
  by (simp add: read_ipv4_addr_def read_octet_def no_digit_front_read)

definition groups_stop :: "bool \<Rightarrow> string \<Rightarrow> bool" where
  "groups_stop first r \<longleftrightarrow> (case read_sep first r of None \<Rightarrow> True | Some r' \<Rightarrow> no_digit_front 16 r')"

text \<open>The defining equation at a numeral number of slots.\<close>

lemma read_groups_numeral [addr_eval]:
  "read_groups (numeral k) first s =
     (case (if 0 < (pred_numeral k :: nat)
            then Option.bind (read_sep first s) read_ipv4_addr else None) of
        Some ((a, b, c, d), r) \<Rightarrow> ([u16_from_be_bytes a b, u16_from_be_bytes c d], True, r)
      | None \<Rightarrow>
        (case read_group first s of
           None \<Rightarrow> ([], False, s)
         | Some (g, r) \<Rightarrow>
             (let (gs, v4, r') = read_groups (pred_numeral k) False r in (g # gs, v4, r'))))"
  by (subst numeral_eq_Suc) (rule read_groups.simps)

declare parse_socket_addr_def [addr_eval] parse_ip_addr_def [addr_eval] parse_ipv6_addr_def [addr_eval]
  parse_with_def [addr_eval] read_socket_addr_def [addr_eval] read_socket_addr_v4_def [addr_eval]
  read_socket_addr_v6_def [addr_eval] read_ip_addr_def [addr_eval] read_ipv4_addr_def [addr_eval]
  read_ipv6_addr_def [addr_eval] read_octet_def [addr_eval] read_dot_octet_def [addr_eval]
  read_number_def [addr_eval] read_group_def [addr_eval] read_sep_def [addr_eval]
  read_port_def [addr_eval] read_scope_id_def [addr_eval] to_digit_def [addr_eval]
  value_of_def [addr_eval]

lemma read_groups_stop: "groups_stop first r \<Longrightarrow> read_groups n first r = ([], False, r)"
  by (cases n) (auto simp: groups_stop_def read_group_def no_digit_front_read read_ipv4_no_digit
      no_digit_front_10 split: option.splits)

lemma read_group_show:
  assumes "no_digit_front 16 r"
  shows "read_group first ((if first then [] else '':'') @ show_hex (unat g) @ r) = Some (g, r)"
proof -
  have "unat g < 16 ^ 4" using unsigned_less [where 'a = nat, of g] by simp
  then have "read_number 16 (Some 4) True 65535 (show_hex (unat g) @ r) = Some (unat g, r)"
    using assms unsigned_less [where 'a = nat, of g] by (intro read_number_show) auto
  then show ?thesis by (simp add: read_group_def read_sep_def)
qed

lemma show_groups_Cons:
  "show_groups (g # gs) @ r =
   show_hex (unat g) @ (if gs = [] then r else CHR '':'' # show_groups gs @ r)"
  by (cases gs) (simp_all add: show_groups_def)

lemma show_groups_Nil [simp]: "show_groups [] = []"
  by (simp add: show_groups_def)

lemma read_groups_show:
  assumes "length gs \<le> n" and "no_digit_front 16 r" "no_dot_front r"
    and "length gs < n \<Longrightarrow> groups_stop (first \<and> gs = []) r"
  shows "read_groups n first ((if first \<or> gs = [] then [] else '':'') @ show_groups gs @ r)
         = (gs, False, r)"
  using assms
proof (induction gs arbitrary: n first)
  case Nil
  then show ?case using read_groups_stop [of first r n] by (cases "n = 0") auto
next
  case (Cons g gs)
  then obtain m where n: "n = Suc m" by (cases n) auto
  define r' where "r' = (if gs = [] then r else CHR '':'' # show_groups gs @ r)"
  have r': "no_digit_front 16 r'" "no_dot_front r'"
    using Cons.prems by (auto simp: r'_def)
  let ?pre = "if first then [] else '':''"
  have "Option.bind (read_sep first (?pre @ show_hex (unat g) @ r')) read_ipv4_addr = None"
    using read_ipv4_hex_None [OF r'] by (simp add: read_sep_def)
  moreover have "read_groups m False r' = (gs, False, r)"
    using Cons.IH [of m False] Cons.prems n by (simp add: r'_def split: if_splits)
  ultimately have "read_groups n first (?pre @ show_hex (unat g) @ r') = (g # gs, False, r)"
    using read_group_show [OF r'(1), of first g] n by (simp only: read_groups.simps) simp
  then show ?case
    by (simp add: show_groups_Cons r'_def [symmetric])
qed

lemma longest_zeros_run:
  assumes "longest_zeros i l c gs = (st, len)" and "length pre = i"
    and "fst l + snd l \<le> i" "\<forall>j < snd l. (pre @ gs) ! (fst l + j) = 0"
    and "snd c = 0 \<or> fst c + snd c = i" "\<forall>j < snd c. (pre @ gs) ! (fst c + j) = 0"
  shows "st + len \<le> i + length gs \<and> (\<forall>j < len. (pre @ gs) ! (st + j) = 0)"
  using assms
proof (induction gs arbitrary: i l c pre)
  case (Cons g gs)
  show ?case
  proof (cases "g = 0")
    case True
    define c' where "c' = (if snd c = 0 then (i, 1) else (fst c, Suc (snd c)))"
    define l' where "l' = (if snd l < snd c' then c' else l)"
    have run: "\<forall>j < snd c'. (pre @ g # gs) ! (fst c' + j) = 0"
      using Cons.prems(2,5,6) True by (auto simp: c'_def less_Suc_eq nth_append)
    have "fst c' + snd c' = Suc i" using Cons.prems(5) by (auto simp: c'_def)
    then show ?thesis
      using Cons.IH [of "Suc i" l' c' "pre @ [g]"] Cons.prems True run
      by (auto simp: c'_def l'_def Let_def split: if_splits)
  next
    case False
    then show ?thesis
      using Cons.IH [of "Suc i" l "(0, 0)" "pre @ [g]"] Cons.prems by auto
  qed
qed auto

lemma zero_run_split:
  assumes "longest_zeros 0 (0, 0) (0, 0) gs = (st, len)"
  shows "st + len \<le> length gs \<and> gs = take st gs @ replicate len 0 @ drop (st + len) gs"
proof -
  from longest_zeros_run [OF assms, of "[]"]
  have run: "st + len \<le> length gs" "\<forall>j < len. gs ! (st + j) = 0" by auto
  then have "take len (drop st gs) = replicate len 0"
    by (intro nth_equalityI) auto
  then have "drop st gs = replicate len 0 @ drop (st + len) gs"
    by (metis add.commute append_take_drop_id drop_drop)
  with run show ?thesis by (metis append_take_drop_id)
qed

lemma read_ipv6_show_compressed:
  assumes "length h + length t \<le> 6" and "no_digit_front 16 r" "no_dot_front r"
    and "groups_stop True r" "groups_stop False r"
  shows "read_ipv6_addr (show_groups h @ ''::'' @ show_groups t @ r)
         = Some (h @ replicate (8 - length h - length t) 0 @ t, r)"
proof -
  let ?rest = "''::'' @ show_groups t @ r"
  have "groups_stop True ?rest" "groups_stop False ?rest"
    by (simp_all add: groups_stop_def read_sep_def)
  then have "read_groups 8 True (show_groups h @ ?rest) = (h, False, ?rest)"
    using read_groups_show [of h 8 ?rest True] assms(1) by (cases "h = []") auto
  moreover have "read_groups (7 - length h) True (show_groups t @ r) = (t, False, r)"
    using read_groups_show [of t "7 - length h" r True] assms by (cases "t = []") auto
  ultimately show ?thesis
    using assms(1) by (simp add: read_ipv6_addr_def)
qed

lemma read_ipv6_show_full:
  assumes "length gs = 8" "no_digit_front 16 r" "no_dot_front r"
  shows "read_ipv6_addr (show_groups gs @ r) = Some (gs, r)"
  using read_groups_show [of gs 8 r True] assms by (simp add: read_ipv6_addr_def)

lemma read_ipv6_show_mapped:
  assumes "no_digit_front 10 r"
  shows "read_ipv6_addr (''::ffff:'' @ show_ipv4 a b c d @ r)
         = Some ([0, 0, 0, 0, 0, 0xFFFF, u16_from_be_bytes a b, u16_from_be_bytes c d], r)"
proof -
  let ?v4 = "CHR '':'' # show_ipv4 a b c d @ r"
  have ffff: "''ffff'' @ ?v4 = show_hex (unat (0xFFFF :: u16)) @ ?v4"
    by (simp add: show_radix_def digits_of.simps digit_char_def char_of_def bit_Suc_0_iff)
  have start: "read_groups 8 True (''::'' @ ''ffff'' @ ?v4) = ([], False, ''::'' @ ''ffff'' @ ?v4)"
    by (rule read_groups_stop) (simp add: groups_stop_def read_sep_def)
  have v4: "read_groups 6 False ?v4 = ([u16_from_be_bytes a b, u16_from_be_bytes c d], True, r)"
    using read_ipv4_show [OF assms] by (simp add: read_groups_numeral read_sep_def)
  have "Option.bind (read_sep True (''ffff'' @ ?v4)) read_ipv4_addr = None"
    using read_ipv4_hex_None [of ?v4] unfolding ffff by (simp add: read_sep_def)
  moreover have "read_group True (''ffff'' @ ?v4) = Some (0xFFFF, ?v4)"
    using read_group_show [of ?v4 True "0xFFFF"] unfolding ffff by simp
  ultimately have "read_groups 7 True (''ffff'' @ ?v4)
        = ([0xFFFF, u16_from_be_bytes a b, u16_from_be_bytes c d], True, r)"
    using v4 by (subst read_groups_numeral) simp
  with start show ?thesis by (simp add: read_ipv6_addr_def numeral_eq_Suc)
qed

lemma read_ipv6_show:
  assumes "length gs = 8" and "no_digit_front 16 r" "no_dot_front r"
    and "groups_stop True r" "groups_stop False r"
  shows "read_ipv6_addr (show_ipv6 gs @ r) = Some (gs, r)"
proof (cases "is_ipv4_mapped gs")
  case True
  then obtain g h where gs: "gs = [0, 0, 0, 0, 0, 0xFFFF, g, h]"
    using assms(1) append_take_drop_id [of 6 gs]
    by (auto simp: is_ipv4_mapped_def length_Suc_conv numeral_eq_Suc)
  obtain a b c d where quad: "u16_to_be_bytes g = [a, b]" "u16_to_be_bytes h = [c, d]"
    by (simp add: u16_to_be_bytes_def)
  with True gs show ?thesis
    using read_ipv6_show_mapped [OF no_digit_front_10 [OF assms(2)], of a b c d]
    by (simp add: show_ipv6_def u16_from_to_be_bytes)
next
  case False
  obtain st len where run: "longest_zeros 0 (0, 0) (0, 0) gs = (st, len)" by fastforce
  note split = zero_run_split [OF run]
  show ?thesis
  proof (cases "1 < len")
    case True
    let ?h = "take st gs" and ?t = "drop (st + len) gs"
    have sizes: "length ?h = st" "length ?t = 8 - (st + len)" "8 - st - length ?t = len"
      using split assms(1) by auto
    then have "length ?h + length ?t \<le> 6" using split True assms(1) by auto
    moreover have "?h @ replicate (8 - length ?h - length ?t) 0 @ ?t = gs"
      using split sizes by metis
    ultimately show ?thesis
      using read_ipv6_show_compressed [of ?h ?t, OF _ assms(2-5)] False run True
      by (simp add: show_ipv6_def del: length_take length_drop)
  next
    case short: False
    with False run read_ipv6_show_full [OF assms(1-3)] show ?thesis
      by (simp add: show_ipv6_def)
  qed
qed

lemma read_ipv4_show_ipv6_None:
  assumes "read_ipv6_addr (show_ipv6 gs @ r) = Some (gs', r)" "length gs = 8"
    and "no_digit_front 16 r" "no_dot_front r"
  shows "read_ipv4_addr (show_ipv6 gs @ r) = None"
proof (cases "is_ipv4_mapped gs")
  case True
  then show ?thesis
    by (auto simp: show_ipv6_def u16_to_be_bytes_def intro!: read_ipv4_no_digit)
next
  case False
  have front: "read_ipv4_addr (show_groups hs @ r') = None"
    if "no_digit_front 16 r'" "no_dot_front r'" for hs r'
    using that by (cases hs)
      (auto simp: show_groups_Cons read_ipv4_hex_None read_ipv4_no_digit no_digit_front_10)
  from False front assms(3,4) show ?thesis
    by (simp add: show_ipv6_def split: prod.split)
qed

section \<open>Socket addresses\<close>

lemma stop_simps [simp]:
  "groups_stop first (CHR '']'' # r)" "groups_stop first (CHR ''%'' # r)" "groups_stop first []"
  by (auto simp: groups_stop_def read_sep_def)

lemma read_scope_show:
  "read_scope_id (CHR ''%'' # show_dec (unat z) @ CHR '']'' # r) = Some (z, CHR '']'' # r)"
proof -
  have "unat z \<le> 4294967295" using unsigned_less [where 'a = nat, of z] by simp
  then have "read_number 10 None True 4294967295 (show_dec (unat z) @ CHR '']'' # r)
             = Some (unat z, CHR '']'' # r)"
    by (intro read_number_show) auto
  then show ?thesis by (simp add: read_scope_id_def)
qed

lemma parse_socket_addr_show_v6:
  assumes "length gs = 8"
  shows "parse_socket_addr (show_socket_addr (SockAddr (V6 gs) p z)) = Some (SockAddr (V6 gs) p z)"
proof -
  have bracket: "read_socket_addr_v4 (show_socket_addr (SockAddr (V6 gs) p z)) = None"
    by (simp add: read_socket_addr_v4_def read_ipv4_addr_def read_octet_def read_number_def to_digit_def)
  have no_scope: "read_scope_id (CHR '']'' # s) = None" for s
    by (simp add: read_scope_id_def)
  have "read_socket_addr_v6 (show_socket_addr (SockAddr (V6 gs) p z)) = Some (SockAddr (V6 gs) p z, [])"
    using assms
    by (cases "z = 0") (simp_all add: read_socket_addr_v6_def read_ipv6_show no_scope read_scope_show
        read_port_show)
  then show ?thesis
    by (simp del: show_socket_addr.simps add: parse_socket_addr_def parse_with_def
        read_socket_addr_def bracket)
qed

theorem parse_show_socket_addr:
  assumes "sock_wf a"
  shows "parse_socket_addr (show_socket_addr a) = Some a"
  using assms
  by (cases a rule: sock_wf.cases)
     (simp_all only: sock_wf.simps parse_socket_addr_show_v4 parse_socket_addr_show_v6)

theorem parse_show_ip_addr:
  assumes "ip_wf ip"
  shows "parse_ip_addr (show_ip_addr ip) = Some ip"
proof (cases ip)
  case (V6 gs)
  with assms have len: "length gs = 8" by simp
  then have v6: "read_ipv6_addr (show_ipv6 gs @ []) = Some (gs, [])"
    by (intro read_ipv6_show) auto
  from read_ipv4_show_ipv6_None [OF v6 len] v6 V6 show ?thesis
    by (simp add: parse_ip_addr_def parse_with_def read_ip_addr_def)
qed (simp only: parse_ip_addr_show_v4)

section \<open>Host names are no addresses\<close>

text \<open>A text that starts with neither a digit of an address nor a colon.\<close>

lemma parse_ip_addr_hostname:
  assumes "to_digit 10 c = None" "to_digit 16 c = None" "c \<noteq> CHR '':''"
  shows "parse_ip_addr (c # s) = None"
proof -
  have v4: "read_ipv4_addr (c # s) = None"
    using assms(1) by (simp add: read_ipv4_addr_def read_octet_def read_number_def)
  moreover have "read_groups 8 True (c # s) = ([], False, c # s)"
  proof -
    have "read_groups (Suc n) True (c # s) = ([], False, c # s)" for n
      using assms(2) v4 by (simp add: read_sep_def read_group_def read_number_def)
    from this [of 7] show ?thesis by simp
  qed
  ultimately show ?thesis
    using assms(3) by (simp add: parse_ip_addr_def parse_with_def read_ip_addr_def read_ipv6_addr_def)
qed

end
