(* ===== verification/Dnscrypt_Stamp.thy ===== *)
theory Dnscrypt_Stamp
  imports Dnscrypt_Crypto Addr_Text
begin

text \<open>
  \<open>client/dnscrypt/stamp.rs\<close> and \<open>client/dnscrypt/keygen.rs\<close>: parsing an \<open>sdns://\<close> stamp,
  building one, and the key material of a resolver.
\<close>

type_synonym 'a sres = "(msg, 'a) res"

record dnscrypt_stamp =
  st_addr :: socket_addr
  provider_public_key :: bytes
  st_provider_name :: string

section \<open>Parsing\<close>

text \<open>
  \<open>read_lp\<close>: the loop over length-prefixed segments, with the bytes collected so far. Positions
  are \<open>usize\<close> values, so the sum is checked against \<open>2^64\<close>.
\<close>

function read_lp_loop :: "bytes \<Rightarrow> nat \<Rightarrow> bytes \<Rightarrow> (bytes \<times> nat) sres" where
  "read_lp_loop buf pos out =
     (if length buf \<le> pos then Err [Lit ''truncated stamp: missing length byte'']
      else
        let len_byte = buf ! pos; pos' = pos + 1; len = unat (len_byte AND 0x7F); end' = pos' + len in
        if 2 ^ 64 \<le> end' then Err [Lit ''truncated stamp: length overflow'']
        else if length buf < end' then Err [Lit ''truncated stamp: segment exceeds buffer'']
        else
          let out = out @ slice pos' end' buf in
          if len_byte AND 0x80 = 0 then Ok (out, end') else read_lp_loop buf end' out)"
  by pat_completeness auto
termination
  by (relation "measure (\<lambda>(buf, pos, _). length buf - pos)") auto

declare read_lp_loop.simps [simp del]

definition read_lp :: "bytes \<Rightarrow> nat \<Rightarrow> (bytes \<times> nat) sres" where
  "read_lp buf pos = read_lp_loop buf pos []"

definition parse_stamp_addr :: "string \<Rightarrow> socket_addr option" where
  "parse_stamp_addr s =
     (case parse_socket_addr s of
        Some a \<Rightarrow> Some a
      | None \<Rightarrow>
        (case parse_ip_addr s of
           Some ip \<Rightarrow> Some (socket_addr_new ip 443)
         | None \<Rightarrow>
           Option.bind (strip_prefix ''['' s) (\<lambda>inner.
           Option.bind (split_once '']'' inner) (\<lambda>(host, rest).
           Option.bind (parse_ip_addr host) (\<lambda>ip.
             case strip_prefix '':'' rest of
               Some port_str \<Rightarrow>
                 (case parse_u16 port_str of Inr port \<Rightarrow> Some (socket_addr_new ip port) | Inl _ \<Rightarrow> None)
             | None \<Rightarrow> if rest = [] then Some (socket_addr_new ip 443) else None)))))"

text \<open>\<open>String::from_utf8\<close>\<close>

definition from_utf8 :: "bytes \<Rightarrow> string option" where
  "from_utf8 b = (if utf8_valid b then Some (string_of_bytes b) else None)"

definition parse_dnscrypt_stamp :: "base64 \<Rightarrow> string \<Rightarrow> dnscrypt_stamp sres" where
  "parse_dnscrypt_stamp B addr =
     res_bind (ok_or [Lit ''stamp '', Dbg addr, Lit '' must start with \"sdns://\"'']
        (strip_prefix ''sdns://'' addr)) (\<lambda>payload.
     res_bind (lift_sum (\<lambda>e. [Lit ''invalid stamp '', Dbg addr, Lit '': '', Disp e])
        (b64_decode B payload)) (\<lambda>bytes.
     case bytes of
       [] \<Rightarrow> Err [Lit ''stamp '', Dbg addr, Lit '' is empty'']
     | proto # _ \<Rightarrow>
       if proto \<noteq> 0x01 then Err [Lit ''stamp '', Dbg addr, Lit '' has unsupported protocol type '',
         HexByte proto, Lit ''; only DNSCrypt (0x01) is supported'']
       else if length bytes < 9 then Err [Lit ''stamp '', Dbg addr, Lit '' is truncated in properties'']
       else
         res_bind (read_lp bytes 9) (\<lambda>(addr_bytes, pos).
         res_bind (ok_or [Lit ''stamp '', Dbg addr, Lit '' has invalid address: '', StdErr]
            (from_utf8 addr_bytes)) (\<lambda>addr_str.
         res_bind (read_lp bytes pos) (\<lambda>(pk, pos).
         res_bind (read_lp bytes pos) (\<lambda>(name_bytes, pos).
         res_bind (ok_or [Lit ''stamp '', Dbg addr, Lit '' has invalid provider name: '', StdErr]
            (from_utf8 name_bytes)) (\<lambda>nm.
         if length pk \<noteq> 32 then Err [Lit ''stamp '', Dbg addr, Lit '' has a '', Num (length pk),
           Lit ''-byte provider public key; expected 32'']
         else
           res_bind (ok_or [Lit ''stamp '', Dbg addr, Lit '' has invalid server address '', Dbg addr_str]
              (parse_stamp_addr addr_str)) (\<lambda>sock_addr.
           Ok \<lparr>st_addr = sock_addr, provider_public_key = pk, st_provider_name = nm\<rparr>))))))))"

section \<open>Building\<close>

text \<open>\<open>len() as u8\<close>, then the bytes: the length wraps at 256.\<close>

definition push_lp :: "bytes \<Rightarrow> bytes" where
  "push_lp b = of_nat (length b) # b"

definition build_stamp :: "base64 \<Rightarrow> socket_addr \<Rightarrow> bytes \<Rightarrow> string \<Rightarrow> string" where
  "build_stamp B addr pk nm =
     ''sdns://'' @ b64_encode B
       (0x01 # replicate 8 0 @ push_lp (bytes_of_string (show_socket_addr addr)) @ push_lp pk @
        push_lp (bytes_of_string nm))"

record resolver_config =
  rc_provider_name :: string
  provider_signing_key :: bytes
  resolver_secret_key :: bytes

definition resolver_generate :: "bytes \<Rightarrow> bytes \<Rightarrow> string \<Rightarrow> resolver_config" where
  "resolver_generate rnd_sign rnd_box nm =
     \<lparr>rc_provider_name = nm, provider_signing_key = rnd_sign, resolver_secret_key = rnd_box\<rparr>"

definition rc_certificate :: "crypto \<Rightarrow> resolver_config \<Rightarrow> bytes \<Rightarrow> u32 \<Rightarrow> u32 \<Rightarrow> u32 \<Rightarrow> bytes" where
  "rc_certificate C rc magic ser ts te =
     sign_certificate C (provider_signing_key rc) (public_key_of C (resolver_secret_key rc)) magic ser ts te"

definition rc_stamp :: "crypto \<Rightarrow> base64 \<Rightarrow> resolver_config \<Rightarrow> socket_addr \<Rightarrow> string" where
  "rc_stamp C B rc addr =
     build_stamp B addr (verifying_key_of C (provider_signing_key rc)) (rc_provider_name rc)"

section \<open>Address texts are short and ASCII\<close>

definition is_ascii :: "string \<Rightarrow> bool" where
  "is_ascii s \<longleftrightarrow> (\<forall>c \<in> set s. (of_char c :: nat) < 128)"

lemma is_ascii_append [simp]: "is_ascii (s @ t) \<longleftrightarrow> is_ascii s \<and> is_ascii t"
  by (auto simp: is_ascii_def)

lemma is_ascii_Cons [simp]: "is_ascii (c # t) \<longleftrightarrow> (of_char c :: nat) < 128 \<and> is_ascii t"
  by (auto simp: is_ascii_def)

lemma is_ascii_Nil [simp]: "is_ascii []"
  by (simp add: is_ascii_def)

lemma utf8_ascii: "is_ascii s \<Longrightarrow> utf8_valid (bytes_of_string s)"
proof (induction s)
  case (Cons c s)
  then have "(of_nat (of_char c) :: u8) \<le> 0x7F"
    by (simp add: word_le_nat_alt unat_of_nat take_bit_nat_eq_self)
  with Cons show ?case by (simp add: bytes_of_string_def)
qed (simp add: bytes_of_string_def)

lemma from_utf8_ascii: "is_ascii s \<Longrightarrow> from_utf8 (bytes_of_string s) = Some s"
  by (simp add: from_utf8_def utf8_ascii)

lemma is_ascii_show_radix: "2 \<le> r \<Longrightarrow> r \<le> 16 \<Longrightarrow> is_ascii (show_radix r n)"
proof -
  assume r: "2 \<le> r" "r \<le> 16"
  have "(of_char (digit_char d) :: nat) < 128" if "d < 16" for d
    using that by (simp add: digit_char_def)
  then show ?thesis
    using digits_of_bound [OF r(1)] r(2) by (fastforce simp: is_ascii_def show_radix_def)
qed

lemma is_ascii_join: "is_ascii sep \<Longrightarrow> (\<And>p. p \<in> set ps \<Longrightarrow> is_ascii p) \<Longrightarrow> is_ascii (join_with sep ps)"
  by (induction sep ps rule: join_with.induct) auto

lemma is_ascii_show_ipv4: "is_ascii (show_ipv4 a b c d)"
  by (simp add: show_ipv4_def is_ascii_show_radix)

lemma is_ascii_show_ipv6: "is_ascii (show_ipv6 gs)"
  by (auto simp: show_ipv6_def show_groups_def Let_def is_ascii_show_ipv4 is_ascii_show_radix
      intro!: is_ascii_join split: prod.splits list.splits)

lemma is_ascii_show_socket_addr: "is_ascii (show_socket_addr a)"
  by (cases a rule: show_socket_addr.cases)
    (simp_all add: is_ascii_show_ipv4 is_ascii_show_ipv6 is_ascii_show_radix)

lemma length_show_dec: "n < 10 ^ k \<Longrightarrow> 0 < k \<Longrightarrow> length (show_dec n) \<le> k"
  by (simp add: show_radix_def length_digits_of)

lemma length_show_u8: "length (show_dec (unat b)) \<le> 3" for b :: u8
  using unat_u8_le [of b] by (intro length_show_dec) auto

lemma length_show_u16: "length (show_dec (unat p)) \<le> 5" for p :: u16
  using unsigned_less [where 'a = nat, of p] by (intro length_show_dec) auto

lemma length_show_u32: "length (show_dec (unat p)) \<le> 10" for p :: u32
  using unsigned_less [where 'a = nat, of p] by (intro length_show_dec) auto

lemma length_show_ipv4: "length (show_ipv4 a b c d) \<le> 15"
  using length_show_u8 [of a] length_show_u8 [of b] length_show_u8 [of c] length_show_u8 [of d]
  by (simp add: show_ipv4_def)

lemma length_show_groups: "length (show_groups gs) \<le> 5 * length gs"
proof -
  have g: "length (show_hex (unat g)) \<le> 4" for g :: u16
    using unsigned_less [where 'a = nat, of g] length_digits_of [of 16 4 "unat g"]
    by (simp add: show_radix_def)
  have "length (join_with '':'' ps) \<le> 5 * length ps" if "\<And>p. p \<in> set ps \<Longrightarrow> length p \<le> 4" for ps
    using that by (induction "'':''" ps rule: join_with.induct) fastforce+
  from this [of "map (\<lambda>g. show_hex (unat g)) gs"] g show ?thesis by (auto simp: show_groups_def)
qed

lemma length_show_ipv6: "length gs = 8 \<Longrightarrow> length (show_ipv6 gs) \<le> 42"
proof -
  assume gs: "length gs = 8"
  obtain st n where z: "longest_zeros 0 (0, 0) (0, 0) gs = (st, n)" by fastforce
  have "length (show_groups (take st gs)) + length (show_groups (drop (st + n) gs)) \<le> 40"
    using length_show_groups [of "take st gs"] length_show_groups [of "drop (st + n) gs"] gs by simp
  moreover have "length (show_groups gs) \<le> 40" using length_show_groups [of gs] gs by simp
  moreover have "length (''::ffff:'' @ show_ipv4 a b c d) \<le> 42" for a b c d
    using length_show_ipv4 [of a b c d] by simp
  ultimately show ?thesis
    using z by (auto simp: show_ipv6_def u16_to_be_bytes_def)
qed

lemma length_show_socket_addr: "sock_wf a \<Longrightarrow> length (show_socket_addr a) < 128"
proof (cases a rule: show_socket_addr.cases)
  case (1 a1 b c d p s)
  then show ?thesis using length_show_ipv4 [of a1 b c d] length_show_u16 [of p] by simp
next
  case (2 gs p s)
  assume "sock_wf a"
  with 2 have "length gs = 8" by simp
  with 2 show ?thesis
    using length_show_ipv6 [of gs] length_show_u16 [of p] length_show_u32 [of s] by simp
qed

section \<open>A stamp that was built is parsed back\<close>

lemma short_length_byte:
  assumes "n < 128"
  shows "unat ((of_nat n :: u8) AND 0x7F) = n" "(of_nat n :: u8) AND 0x80 = 0"
proof -
  have "(of_nat n :: u8) AND 0x7F = take_bit 7 (of_nat n)"
    by (simp add: take_bit_eq_mask mask_eq_exp_minus_1)
  then show "unat ((of_nat n :: u8) AND 0x7F) = n"
    using assms by (simp add: unsigned_take_bit_eq unat_of_nat take_bit_nat_eq_self)
  have "\<not> bit n 7" using assms by (simp add: bit_iff_odd)
  then have "\<not> bit (of_nat n :: u8) 7" by (simp add: bit_of_nat_iff)
  then show "(of_nat n :: u8) AND 0x80 = 0"
    using and_exp_eq_0_iff_not_bit [of "of_nat n :: u8" 7] by simp
qed

lemma read_lp_push:
  assumes "length b < 128" "length pre + 200 < 2 ^ 64"
  shows "read_lp (pre @ push_lp b @ rest) (length pre) = Ok (b, length pre + 1 + length b)"
proof -
  have nth: "(pre @ push_lp b @ rest) ! length pre = of_nat (length b)"
    by (simp add: push_lp_def)
  have sl: "slice (Suc (length pre)) (Suc (length pre + length b)) (pre @ push_lp b @ rest) = b"
    by (simp add: slice_def push_lp_def)
  have len: "length pre < length (pre @ push_lp b @ rest)"
      "Suc (length pre + length b) \<le> length (pre @ push_lp b @ rest)"
    by (simp_all add: push_lp_def)
  show ?thesis
    unfolding read_lp_def using assms len short_length_byte [OF assms(1)] sl
    by (subst read_lp_loop.simps) (simp add: nth Let_def not_le not_less)
qed

lemma parse_stamp_addr_show: "sock_wf a \<Longrightarrow> parse_stamp_addr (show_socket_addr a) = Some a"
  by (simp add: parse_stamp_addr_def parse_show_socket_addr)

lemma parse_build_stamp:
  assumes "base64_engine B" "sock_wf addr" "length pk = 32" "length nm < 128"
    "utf8_valid (bytes_of_string nm)"
  shows "parse_dnscrypt_stamp B (build_stamp B addr pk nm) =
    Ok \<lparr>st_addr = addr, provider_public_key = pk, st_provider_name = nm\<rparr>"
proof -
  let ?a = "bytes_of_string (show_socket_addr addr)" and ?n = "bytes_of_string nm"
  let ?h = "0x01 # replicate 8 0 :: bytes"
  let ?b = "?h @ push_lp ?a @ push_lp pk @ push_lp ?n"
  have la: "length ?a < 128" using length_show_socket_addr [OF assms(2)] by simp
  have r1: "read_lp ?b 9 = Ok (?a, 10 + length ?a)"
    using read_lp_push [OF la, of ?h "push_lp pk @ push_lp ?n"] by simp
  have r2: "read_lp ?b (10 + length ?a) = Ok (pk, 43 + length ?a)"
    using read_lp_push [of pk "?h @ push_lp ?a" "push_lp ?n"] la assms(3) by (simp add: push_lp_def)
  have r3: "read_lp ?b (43 + length ?a) = Ok (?n, 44 + length ?a + length nm)"
    using read_lp_push [of ?n "?h @ push_lp ?a @ push_lp pk" "[]"] la assms(3,4)
    by (simp add: push_lp_def)
  have "parse_dnscrypt_stamp B (build_stamp B addr pk nm) =
    (case ?b of [] \<Rightarrow> Err [Lit ''stamp '', Dbg (build_stamp B addr pk nm), Lit '' is empty''] | p # r \<Rightarrow>
       Ok \<lparr>st_addr = addr, provider_public_key = pk, st_provider_name = nm\<rparr>)"
    unfolding parse_dnscrypt_stamp_def
    using r1 r2 r3 assms(2,3) from_utf8_ascii [OF is_ascii_show_socket_addr] assms(5)
      strip_prefix_append [of "''sdns://''" "b64_encode B ?b"]
    by (simp add: build_stamp_def base64_engine.b64_roundtrip [OF assms(1)] parse_stamp_addr_show from_utf8_def)
  then show ?thesis by simp
qed

end
