(* ===== verification/Listener_Dnscrypt.thy ===== *)
theory Listener_Dnscrypt
  imports Listener_Io Dnscrypt_Stamp
begin

text \<open>
  \<open>listener/dnscrypt.rs\<close>: the DNSCrypt listener. Random resolver nonces are arguments; on UDP a
  response that is encrypted twice uses two of them. The library's names for the constructors of a
  TXT record and its data are those of \<open>dnslib\<close>.
\<close>

record dnscrypt_server =
  srv_secret_key :: bytes
  srv_provider_name :: string
  srv_client_magic :: bytes
  srv_cert_bytes :: bytes

definition dnscrypt_server_new ::
  "crypto \<Rightarrow> bytes \<Rightarrow> bytes \<Rightarrow> string \<Rightarrow> bytes \<Rightarrow> u32 \<Rightarrow> u32 \<Rightarrow> u32 \<Rightarrow> dnscrypt_server" where
  "dnscrypt_server_new C secret signing_key nm magic ser ts te =
     \<lparr>srv_secret_key = secret, srv_provider_name = nm, srv_client_magic = magic,
      srv_cert_bytes = sign_certificate C signing_key (public_key_of C secret) magic ser ts te\<rparr>"

definition try_answer_provider_txt :: "dnslib \<Rightarrow> dnscrypt_server \<Rightarrow> bytes \<Rightarrow> message option" where
  "try_answer_provider_txt L config packet =
     (case from_bytes L packet of
        Inl _ \<Rightarrow> None
      | Inr req \<Rightarrow>
          if message_type req \<noteq> Query then None
          else (case queries req of
              [] \<Rightarrow> None
            | q # _ \<Rightarrow>
                if q_type q \<noteq> RT_TXT then None
                else (case name_from_ascii L (srv_provider_name config) of
                    Inl _ \<Rightarrow> None
                  | Inr provider_name \<Rightarrow>
                      if \<not> eq_ignore_root L (q_name q) provider_name then None
                      else
                        let resp = message_new L (msg_id req) Response;
                            resp = resp\<lparr>queries := queries resp @ [q]\<rparr>
                        in Some (resp\<lparr>answers := answers resp @
                             [record_from_rdata L (q_name q) 60 (RD_TXT [srv_cert_bytes config])]\<rparr>))))"

datatype dc_response =
  PlainResp message
| EncryptedResp bytes bytes bytes

definition respond ::
  "dnslib \<Rightarrow> crypto \<Rightarrow> dnscrypt_server \<Rightarrow> handler \<Rightarrow> bytes \<Rightarrow> dc_response dfut" where
  "respond L C config handle packet =
     (case try_answer_provider_txt L config packet of
        Some resp \<Rightarrow> now (Ok (PlainResp resp))
      | None \<Rightarrow>
          await_ok (now (decrypt_query C (srv_secret_key config) (srv_client_magic config) packet))
            (\<lambda>(req_bytes, client_public_key, client_nonce).
          await_ok (now (lift_sum (\<lambda>e. InvalidResponse [Lit ''unpacking dnscrypt query: '', Disp e])
             (from_bytes L req_bytes))) (\<lambda>req.
          await_ok (handle req) (\<lambda>resp.
          await_ok (now (lift_sum Pack (to_bytes L resp))) (\<lambda>resp_bytes.
          now (Ok (EncryptedResp client_public_key client_nonce resp_bytes)))))))"

text \<open>The bytes sent back over UDP.\<close>

definition dc_fit_udp ::
  "dnslib \<Rightarrow> crypto \<Rightarrow> bytes \<Rightarrow> bytes \<Rightarrow> dnscrypt_server \<Rightarrow> dc_response \<Rightarrow> bytes dres" where
  "dc_fit_udp L C rn rn' config r =
     (case r of
        PlainResp resp \<Rightarrow> fit_udp L resp
      | EncryptedResp client_public_key client_nonce resp_bytes \<Rightarrow>
          res_bind (encrypt_server_response C rn (srv_secret_key config) client_public_key client_nonce resp_bytes)
            (\<lambda>framed.
              if UDP_MAX_MSG_SIZE < length framed then
                res_bind (lift_sum (\<lambda>e. InvalidResponse [Lit ''re-parsing response: '', Disp e])
                   (from_bytes L resp_bytes)) (\<lambda>resp.
                res_bind (lift_sum Pack (to_bytes L (truncate_msg L resp))) (\<lambda>truncated_bytes.
                encrypt_server_response C rn' (srv_secret_key config) client_public_key client_nonce truncated_bytes))
              else Ok framed))"

definition dc_handle_udp_packet ::
  "dnslib \<Rightarrow> crypto \<Rightarrow> bytes \<Rightarrow> bytes \<Rightarrow> dnscrypt_server \<Rightarrow> handler \<Rightarrow> bytes \<Rightarrow> bytes dfut" where
  "dc_handle_udp_packet L C rn rn' config handle packet =
     await_ok (respond L C config handle packet) (\<lambda>r. now (dc_fit_udp L C rn rn' config r))"

text \<open>The answer to one message of a TCP connection, before its length prefix.\<close>

definition dc_tcp_answer ::
  "dnslib \<Rightarrow> crypto \<Rightarrow> bytes \<Rightarrow> dnscrypt_server \<Rightarrow> handler \<Rightarrow> bytes \<Rightarrow> bytes dfut" where
  "dc_tcp_answer L C rn config handle packet =
     await_ok (respond L C config handle packet) (\<lambda>r. now (case r of
        PlainResp resp \<Rightarrow> lift_sum Pack (to_bytes L resp)
      | EncryptedResp client_public_key client_nonce resp_bytes \<Rightarrow>
          encrypt_server_response C rn (srv_secret_key config) client_public_key client_nonce resp_bytes))"

text \<open>The loop of \<open>handle_tcp_connection\<close>; the \<open>k\<close>-th answer uses the nonce \<open>rn k\<close>.\<close>

function dc_connection ::
  "dnslib \<Rightarrow> crypto \<Rightarrow> (nat \<Rightarrow> bytes) \<Rightarrow> nat \<Rightarrow> dnscrypt_server \<Rightarrow> (nat \<Rightarrow> handler) \<Rightarrow> room \<Rightarrow> bytes \<Rightarrow> bytes \<times> conn_end" where
  "dc_connection L C rn k config handle room input =
     (case read_prefixed input of
        None \<Rightarrow> ([], Closed)
      | Some (packet, rest) \<Rightarrow>
          (case fut_value (dc_tcp_answer L C (rn k) config (handle k) packet) of
             None \<Rightarrow> ([], Waiting)
           | Some Panic \<Rightarrow> ([], Panicked)
           | Some (Err e) \<Rightarrow> ([], Failed e)
           | Some (Ok b) \<Rightarrow>
               after_write (write_prefixed room b) (\<lambda>room. dc_connection L C rn (Suc k) config handle room rest)))"
  by pat_completeness auto
termination
  by (relation "measure (\<lambda>(_, _, _, _, _, _, _, input). length input)") (auto dest: read_prefixed_shorter)

declare dc_connection.simps [simp del]

section \<open>A connection answers its messages in order\<close>

definition dc_answer_message ::
  "dnslib \<Rightarrow> crypto \<Rightarrow> (nat \<Rightarrow> bytes) \<Rightarrow> dnscrypt_server \<Rightarrow> (nat \<Rightarrow> handler) \<Rightarrow> nat \<Rightarrow> bytes \<Rightarrow> conn_end + bytes" where
  "dc_answer_message L C rn config handle k packet =
     (case fut_value (dc_tcp_answer L C (rn k) config (handle k) packet) of
        None \<Rightarrow> Inl Waiting
      | Some Panic \<Rightarrow> Inl Panicked
      | Some (Err e) \<Rightarrow> Inl (Failed e)
      | Some (Ok b) \<Rightarrow> Inr b)"

interpretation dc_conn: stream_listener "\<lambda>k. dc_connection L C rn k config handle" "dc_answer_message L C rn config handle"
  for L C rn config handle
proof unfold_locales
  fix input room k
  show "dc_connection L C rn k config handle room input = ([], Closed)" if "read_prefixed input = None"
    using that by (subst dc_connection.simps) simp
  fix packet rest
  show "dc_connection L C rn k config handle room input =
      (case dc_answer_message L C rn config handle k packet of
         Inl e \<Rightarrow> ([], e)
       | Inr b \<Rightarrow> after_write (write_prefixed room b) (\<lambda>room. dc_connection L C rn (Suc k) config handle room rest))"
    if "read_prefixed input = Some (packet, rest)"
    using that by (subst dc_connection.simps) (simp add: dc_answer_message_def split: option.splits res.splits)
qed

section \<open>What the listener promises\<close>

text \<open>Nothing is dispatched to the handler unless it was encrypted for this server.\<close>

lemma respond_encrypted:
  assumes "fut_value (respond L C config handle packet) = Some (Ok (EncryptedResp pk n b))"
  shows "\<exists>m req resp. decrypt_query C (srv_secret_key config) (srv_client_magic config) packet = Ok (m, pk, n) \<and>
    from_bytes L m = Inr req \<and> fut_value (handle req) = Some (Ok resp) \<and> to_bytes L resp = Inr b"
proof -
  have none: "try_answer_provider_txt L config packet = None"
    using assms by (auto simp: respond_def split: option.splits)
  have lift: "lift_sum f s = Ok x \<longleftrightarrow> s = Inr x" for f s x
    by (cases s) auto
  show ?thesis using assms none by (auto simp: respond_def fut_simps lift)
qed

text \<open>A query that the client encrypted, through the listener, back to the client.\<close>

lemma respond_query:
  assumes laws: "crypto_laws C" and codec: "dns_codec L good"
    and len: "length rsk = 32" "length csk = 32" "length n = 12" "length magic = 8" "length rn = 12"
    and srv: "srv_secret_key config = rsk" "srv_client_magic config = magic"
    and cert: "resolver_public_key cert = public_key_of C rsk" "client_magic cert = magic"
    and req: "to_bytes L req = Inr b" "from_bytes L b = Inr req"
    and enc: "encrypt_query C n cert (client_generate C csk) b = Ok (framed, n)"
    and no_txt: "try_answer_provider_txt L config framed = None"
    and handle: "fut_value (handle req) = Some (Ok resp)" and resp: "good resp"
  shows "\<exists>out. fut_value (dc_tcp_answer L C rn config handle framed) = Some (Ok out) \<and>
    res_bind (decrypt_response C cert (client_generate C csk) n out)
      (\<lambda>rb. lift_sum (\<lambda>e. InvalidResponse [Lit ''unpacking response: '', Disp e]) (from_bytes L rb)) = Ok resp"
proof -
  have dq: "decrypt_query C rsk magic framed = Ok (b, public_key_of C csk, n)"
    using crypto_laws.decrypt_encrypt_query [OF laws len(1-4) cert, of b] enc by auto
  obtain rb where rb: "to_bytes L resp = Inr rb" "from_bytes L rb = Inr resp"
    using dns_codec.wire_roundtrip [OF codec resp] by blast
  obtain out where out: "encrypt_server_response C rn rsk (public_key_of C csk) n rb = Ok out"
      "decrypt_response C cert (client_generate C csk) n out = Ok rb"
    using crypto_laws.decrypt_encrypt_response [OF laws len(1-3,5) cert(1), of rb] by blast
  have "fut_value (respond L C config handle framed) = Some (Ok (EncryptedResp (public_key_of C csk) n rb))"
    using dq req(2) handle rb(1) no_txt srv by (simp add: respond_def fut_value_await_ok)
  then have "fut_value (dc_tcp_answer L C rn config handle framed) = Some (Ok out)"
    using out(1) srv by (simp add: dc_tcp_answer_def fut_value_await_ok)
  then show ?thesis using out(2) rb(2) by simp
qed

end
