(* ===== verification/Listener_Setup.thy ===== *)
theory Listener_Setup
  imports Listener_Doh Listener_Dnscrypt
begin

text \<open>
  Starting the listeners (\<open>serve\<close> and \<open>serve_all\<close> of every module under \<open>listener/\<close>), the loops that
  accept packets, connections, streams and requests, and \<open>listener/tls_config.rs\<close>. The process is
  the sockets it holds and the tasks it has spawned; a start-up step may fail and leaves the tasks
  spawned before it. \<open>host\<close> collects the parameters: the operating system, the file system, the
  PEM parser and the TLS and QUIC libraries.
\<close>

section \<open>The process\<close>

record server_tls =
  tls_chain :: "bytes list"
  tls_private_key :: bytes
  tls_alpn :: "string list"

datatype task =
  UdpTask sock
| TcpTask sock
| DotTask sock server_tls
| DoqTask socket_addr server_tls
| DohTask sock server_tls credentials
| Doh3Task socket_addr server_tls credentials
| DcUdpTask sock dnscrypt_server
| DcTcpTask sock dnscrypt_server

text \<open>The log of the process: its filter, the directives added to it in their order, and timestamps.\<close>

record logger =
  log_filter :: string
  log_directives :: "string list"
  log_time :: bool

record process =
  sockets :: "sock list"
  spawned :: "task list"
  provider_installed :: bool
  log_installed :: "logger option"

definition fresh_process :: process where
  "fresh_process = \<lparr>sockets = [], spawned = [], provider_installed = False, log_installed = None\<rparr>"

record host =
  os_refuse :: refusal
  os_local_addr :: "sock \<Rightarrow> string + socket_addr"
  quic_refuse :: "server_tls \<Rightarrow> string option"
  endpoint_refuse :: "process \<Rightarrow> server_tls \<Rightarrow> socket_addr \<Rightarrow> string option"
  endpoint_local_addr :: "socket_addr \<Rightarrow> string + socket_addr"
  fs_read :: "string \<Rightarrow> string + bytes"
  fs_read_to_string :: "string \<Rightarrow> string + string"
  fs_is_file :: "string \<Rightarrow> bool"
  fs_write :: "string \<Rightarrow> string \<Rightarrow> string option"
  pem_certs :: "bytes \<Rightarrow> (string + bytes) list"
  pem_private_key :: "bytes \<Rightarrow> string + bytes option"
  single_cert_refuse :: "bytes list \<Rightarrow> bytes \<Rightarrow> string option"

type_synonym ('e, 'a) startup = "process \<Rightarrow> ('e, 'a) res \<times> process"

definition start_lift :: "('e, 'a) res \<Rightarrow> ('e, 'a) startup" where
  "start_lift r p = (r, p)"

definition start_bind :: "('e, 'a) startup \<Rightarrow> ('a \<Rightarrow> ('e, 'b) startup) \<Rightarrow> ('e, 'b) startup" where
  "start_bind m f p = (case m p of (Ok x, p') \<Rightarrow> f x p' | (Err e, p') \<Rightarrow> (Err e, p') | (Panic, p') \<Rightarrow> (Panic, p'))"

text \<open>A bound socket joins the process; \<open>tokio::spawn\<close> adds a task.\<close>

definition hold :: "sock \<Rightarrow> process \<Rightarrow> process" where
  "hold s p = p\<lparr>sockets := sockets p @ [s]\<rparr>"

definition spawn :: "task \<Rightarrow> process \<Rightarrow> process" where
  "spawn t p = p\<lparr>spawned := spawned p @ [t]\<rparr>"

section \<open>Certificates\<close>

fun collect_results :: "('e + 'a) list \<Rightarrow> 'e + 'a list" where
  "collect_results [] = Inr []"
| "collect_results (Inl e # rs) = Inl e"
| "collect_results (Inr x # rs) = (case collect_results rs of Inl e \<Rightarrow> Inl e | Inr xs \<Rightarrow> Inr (x # xs))"

definition load_server_tls_config :: "host \<Rightarrow> string \<Rightarrow> string \<Rightarrow> string list \<Rightarrow> server_tls dres" where
  "load_server_tls_config H cert_path key_path alpn' =
     res_bind (lift_sum Io (fs_read H cert_path)) (\<lambda>cert_file.
     res_bind (lift_sum (\<lambda>e. Http [Lit ''reading '', Disp cert_path, Lit '': '', Disp e])
        (collect_results (pem_certs H cert_file))) (\<lambda>certs.
     if certs = [] then Err (Http [Lit ''no certificates found in '', Disp cert_path])
     else
       res_bind (lift_sum Io (fs_read H key_path)) (\<lambda>key_file.
       res_bind (lift_sum (\<lambda>e. Http [Lit ''reading '', Disp key_path, Lit '': '', Disp e])
          (pem_private_key H key_file)) (\<lambda>key.
       res_bind (ok_or (Http [Lit ''no private key found in '', Disp key_path]) key) (\<lambda>key.
       case single_cert_refuse H certs key of
         Some e \<Rightarrow> Err (Http [Lit ''building tls config: '', Disp e])
       | None \<Rightarrow> Ok \<lparr>tls_chain = certs, tls_private_key = key, tls_alpn = alpn'\<rparr>)))))"

section \<open>Starting one listener\<close>

definition serve :: "host \<Rightarrow> socket_addr \<Rightarrow> (doh_error, unit) startup" where
  "serve H addr p =
     (case bind_udp (os_refuse H (sockets p)) addr of
        Err e \<Rightarrow> (Err e, p)
      | Panic \<Rightarrow> (Panic, p)
      | Ok udp \<Rightarrow>
          (case bind_tcp (os_refuse H (sockets p @ [udp])) addr of
             Err e \<Rightarrow> (Err e, p)
           | Panic \<Rightarrow> (Panic, p)
           | Ok tcp \<Rightarrow> (Ok (), spawn (TcpTask tcp) (spawn (UdpTask udp) (hold tcp (hold udp p))))))"

text \<open>A socket bound by \<open>bind1\<close>, its local address, and the task that serves it.\<close>

definition serve_socket ::
  "host \<Rightarrow> ((sock_op \<Rightarrow> sock \<Rightarrow> string option) \<Rightarrow> socket_addr \<Rightarrow> sock dres) \<Rightarrow> (sock \<Rightarrow> task) \<Rightarrow> socket_addr \<Rightarrow>
   (doh_error, socket_addr) startup" where
  "serve_socket H bind1 task addr p =
     (case bind1 (os_refuse H (sockets p)) addr of
        Err e \<Rightarrow> (Err e, p)
      | Panic \<Rightarrow> (Panic, p)
      | Ok s \<Rightarrow>
          (case os_local_addr H s of
             Inl e \<Rightarrow> (Err (Io e), p)
           | Inr bound_addr \<Rightarrow> (Ok bound_addr, spawn (task s) (hold s p))))"

definition dot_serve :: "host \<Rightarrow> server_tls \<Rightarrow> socket_addr \<Rightarrow> (doh_error, socket_addr) startup" where
  "dot_serve H tls = serve_socket H bind_tcp (\<lambda>s. DotTask s tls)"

definition doh_serve :: "host \<Rightarrow> server_tls \<Rightarrow> credentials \<Rightarrow> socket_addr \<Rightarrow> (doh_error, socket_addr) startup" where
  "doh_serve H tls creds = serve_socket H bind_tcp (\<lambda>s. DohTask s tls creds)"

definition dc_serve_udp :: "host \<Rightarrow> dnscrypt_server \<Rightarrow> socket_addr \<Rightarrow> (doh_error, socket_addr) startup" where
  "dc_serve_udp H config = serve_socket H bind_udp (\<lambda>s. DcUdpTask s config)"

definition dc_serve_tcp :: "host \<Rightarrow> dnscrypt_server \<Rightarrow> socket_addr \<Rightarrow> (doh_error, socket_addr) startup" where
  "dc_serve_tcp H config = serve_socket H bind_tcp (\<lambda>s. DcTcpTask s config)"

text \<open>The QUIC listeners: the configuration, the endpoint, its address, and the task.\<close>

definition serve_endpoint ::
  "host \<Rightarrow> server_tls \<Rightarrow> task \<Rightarrow> socket_addr \<Rightarrow> (doh_error, socket_addr) startup" where
  "serve_endpoint H tls task addr p =
     (case quic_refuse H tls of
        Some e \<Rightarrow> (Err (Quic e), p)
      | None \<Rightarrow>
          (case endpoint_refuse H p tls addr of
             Some e \<Rightarrow> (Err (Quic e), p)
           | None \<Rightarrow>
               (case endpoint_local_addr H addr of
                  Inl e \<Rightarrow> (Err (Quic e), p)
                | Inr bound_addr \<Rightarrow> (Ok bound_addr, spawn task p))))"

definition doq_serve :: "host \<Rightarrow> server_tls \<Rightarrow> socket_addr \<Rightarrow> (doh_error, socket_addr) startup" where
  "doq_serve H tls addr = serve_endpoint H tls (DoqTask addr tls) addr"

definition doh3_serve :: "host \<Rightarrow> server_tls \<Rightarrow> credentials \<Rightarrow> socket_addr \<Rightarrow> (doh_error, socket_addr) startup" where
  "doh3_serve H tls creds addr = serve_endpoint H tls (Doh3Task addr tls creds) addr"

section \<open>Starting a listener on every address\<close>

text \<open>The loop that every \<open>serve_all\<close> is: the first address that fails ends it.\<close>

fun serve_each :: "(socket_addr \<Rightarrow> (doh_error, 'a) startup) \<Rightarrow> socket_addr list \<Rightarrow> (doh_error, unit) startup" where
  "serve_each serve1 [] = start_lift (Ok ())"
| "serve_each serve1 (a # as) = start_bind (serve1 a) (\<lambda>_. serve_each serve1 as)"

definition serve_all :: "host \<Rightarrow> socket_addr list \<Rightarrow> (doh_error, unit) startup" where
  "serve_all H addrs = serve_each (serve H) addrs"

definition dot_serve_all :: "host \<Rightarrow> socket_addr list \<Rightarrow> server_tls \<Rightarrow> (doh_error, unit) startup" where
  "dot_serve_all H addrs tls = serve_each (dot_serve H tls) addrs"

definition doq_serve_all :: "host \<Rightarrow> socket_addr list \<Rightarrow> server_tls \<Rightarrow> (doh_error, unit) startup" where
  "doq_serve_all H addrs tls = serve_each (doq_serve H tls) addrs"

definition doh_serve_all :: "host \<Rightarrow> socket_addr list \<Rightarrow> server_tls \<Rightarrow> credentials \<Rightarrow> (doh_error, unit) startup" where
  "doh_serve_all H addrs tls creds = serve_each (doh_serve H tls creds) addrs"

definition doh3_serve_all :: "host \<Rightarrow> socket_addr list \<Rightarrow> server_tls \<Rightarrow> credentials \<Rightarrow> (doh_error, unit) startup" where
  "doh3_serve_all H addrs tls creds = serve_each (doh3_serve H tls creds) addrs"

definition dc_serve_all ::
  "host \<Rightarrow> socket_addr list \<Rightarrow> socket_addr list \<Rightarrow> dnscrypt_server \<Rightarrow> (doh_error, unit) startup" where
  "dc_serve_all H udp_addrs tcp_addrs config =
     start_bind (serve_each (dc_serve_udp H config) udp_addrs) (\<lambda>_. serve_each (dc_serve_tcp H config) tcp_addrs)"

section \<open>Accepting\<close>

text \<open>
  The loops run for ever; a loop is described by what the tasks it has spawned after some outcomes
  of \<open>recv_from\<close> or \<open>accept\<close> do. The plain, DoT, DoH and DNSCrypt loops pass over an error; the QUIC
  loops end at one. A task is a function of the handler: what the shared closure, whose state changes
  from call to call, answers in the calls that the task makes, the \<open>k\<close>-th being \<open>handle k\<close> where it makes
  several.
\<close>

fun accept_forever :: "('c \<Rightarrow> 't) \<Rightarrow> (string + 'c) list \<Rightarrow> 't list" where
  "accept_forever task [] = []"
| "accept_forever task (Inl e # evs) = accept_forever task evs"
| "accept_forever task (Inr c # evs) = task c # accept_forever task evs"

fun accept_until :: "('c \<Rightarrow> 't) \<Rightarrow> (string + 'c) list \<Rightarrow> 't list" where
  "accept_until task [] = []"
| "accept_until task (Inl e # evs) = []"
| "accept_until task (Inr c # evs) = task c # accept_until task evs"

fun accept_while_open :: "('c \<Rightarrow> 't) \<Rightarrow> 'c option list \<Rightarrow> 't list" where
  "accept_while_open task [] = []"
| "accept_while_open task (None # evs) = []"
| "accept_while_open task (Some c # evs) = task c # accept_while_open task evs"

text \<open>
  Plain DNS: \<open>send_to\<close> is the socket's call that sends an answer; a task ends with its error, the
  handler's, or none.
\<close>

definition udp_loop ::
  "dnslib \<Rightarrow> (bytes \<Rightarrow> socket_addr \<Rightarrow> unit io) \<Rightarrow> (string + bytes \<times> socket_addr) list \<Rightarrow>
   (handler \<Rightarrow> unit dfut) list" where
  "udp_loop L send_to = accept_forever (\<lambda>(packet, peer) handle.
     await_ok (handle_udp_packet L handle packet) (\<lambda>b. lift_err Io (send_to b peer)))"

definition tcp_loop :: "dnslib \<Rightarrow> (string + stream) list \<Rightarrow> ((nat \<Rightarrow> handler) \<Rightarrow> bytes \<times> conn_end) list" where
  "tcp_loop L = accept_forever (\<lambda>s handle. handle_tcp_connection L handle s)"

definition dot_accept_loop ::
  "dnslib \<Rightarrow> (stream \<Rightarrow> string + stream) \<Rightarrow> (string + stream) list \<Rightarrow>
   ((nat \<Rightarrow> handler) \<Rightarrow> bytes \<times> conn_end) list" where
  "dot_accept_loop L acceptor = accept_forever (\<lambda>tcp handle. dot_handle_connection L handle (acceptor tcp))"

text \<open>
  DNS over QUIC: one task per connection, which has one task per stream; a stream is the bytes the
  peer sends on it and the call that writes the answer and finishes it.
\<close>

definition doq_connection_loop ::
  "dnslib \<Rightarrow> string \<Rightarrow> (string + bytes \<times> (bytes \<Rightarrow> unit io)) list \<Rightarrow> (handler \<Rightarrow> unit dfut) list" where
  "doq_connection_loop L early = accept_until (\<lambda>(recv, send) handle.
     await_ok (doq_handle_stream L early handle recv) (\<lambda>b. lift_err Quic (send b)))"

definition doq_accept_loop ::
  "dnslib \<Rightarrow> string \<Rightarrow> (string + (string + bytes \<times> (bytes \<Rightarrow> unit io)) list) option list \<Rightarrow>
   (handler \<Rightarrow> unit dfut) list list" where
  "doq_accept_loop L early = accept_while_open (\<lambda>incoming.
     case incoming of Inr conn \<Rightarrow> doq_connection_loop L early conn | Inl e \<Rightarrow> [])"

text \<open>
  DNS over HTTPS: hyper serves the requests of a connection with \<open>service\<close>; \<open>hyper\<close> is that call,
  over a TLS stream \<open>'s\<close>.
\<close>

definition doh_handle_connection ::
  "dnslib \<Rightarrow> base64 \<Rightarrow> ('s \<Rightarrow> (nat \<Rightarrow> http_in \<Rightarrow> http_response dfut) \<Rightarrow> string + unit) \<Rightarrow> ('c \<Rightarrow> string + 's) \<Rightarrow>
   (nat \<Rightarrow> handler) \<Rightarrow> credentials \<Rightarrow> 'c \<Rightarrow> unit dres" where
  "doh_handle_connection L B hyper acceptor handle creds tcp =
     res_bind (lift_sum (\<lambda>e. Http [Lit ''tls handshake failed: '', Disp e]) (acceptor tcp)) (\<lambda>tls.
     lift_sum (\<lambda>e. Http [Lit ''serving connection: '', Disp e]) (hyper tls (\<lambda>k. handle_request L B (handle k) creds)))"

definition doh_accept_loop ::
  "dnslib \<Rightarrow> base64 \<Rightarrow> ('s \<Rightarrow> (nat \<Rightarrow> http_in \<Rightarrow> http_response dfut) \<Rightarrow> string + unit) \<Rightarrow> ('c \<Rightarrow> string + 's) \<Rightarrow>
   credentials \<Rightarrow> (string + 'c) list \<Rightarrow> ((nat \<Rightarrow> handler) \<Rightarrow> unit dres) list" where
  "doh_accept_loop L B hyper acceptor creds =
     accept_forever (\<lambda>tcp handle. doh_handle_connection L B hyper acceptor handle creds tcp)"

text \<open>
  Answering on an HTTP/3 stream: the calls on it, of which the first that fails ends the task. The
  answers that \<open>h3_handle_request\<close> gives are those of \<open>send_response\<close> and \<open>send_unauthorized\<close>.
\<close>

datatype h3_op = SendResponse nat "(string \<times> string) list" | SendData bytes | FinishStream

type_synonym h3_stream = "h3_op \<Rightarrow> string option"

fun run_h3 :: "h3_stream \<Rightarrow> h3_op list \<Rightarrow> unit dres" where
  "run_h3 stream [] = Ok ()"
| "run_h3 stream (op # ops) = (case stream op of Some e \<Rightarrow> Err (Quic e) | None \<Rightarrow> run_h3 stream ops)"

definition send_response :: "h3_stream \<Rightarrow> nat \<Rightarrow> bytes \<Rightarrow> unit dres" where
  "send_response stream code b =
     run_h3 stream ([SendResponse code [(''content-type'', ''application/dns-message'')]] @
       (if b \<noteq> [] then [SendData b] else []) @ [FinishStream])"

definition send_unauthorized :: "h3_stream \<Rightarrow> unit dres" where
  "send_unauthorized stream = run_h3 stream [SendResponse 401 [(''www-authenticate'', ''Basic'')], FinishStream]"

definition doh3_handle_request ::
  "dnslib \<Rightarrow> base64 \<Rightarrow> handler \<Rightarrow> credentials \<Rightarrow> http_in \<times> h3_stream \<Rightarrow> unit dfut" where
  "doh3_handle_request L B handle creds rs =
     (case rs of (req, stream) \<Rightarrow>
        await_ok (h3_handle_request L B handle creds req) (\<lambda>resp.
        now (if refused creds req then send_unauthorized stream
             else send_response stream (status resp) (body resp))))"

text \<open>
  A connection is the outcome of setting it up and then of accepting requests on it, each of which
  still has to be resolved.
\<close>

fun accept_requests :: "('c \<Rightarrow> 't) \<Rightarrow> (string + 'c option) list \<Rightarrow> 't list" where
  "accept_requests task [] = []"
| "accept_requests task (Inl e # evs) = []"
| "accept_requests task (Inr None # evs) = []"
| "accept_requests task (Inr (Some c) # evs) = task c # accept_requests task evs"

type_synonym h3_conn = "string + (string + (string + http_in \<times> h3_stream) option) list"

definition doh3_connection_loop ::
  "dnslib \<Rightarrow> base64 \<Rightarrow> credentials \<Rightarrow> h3_conn \<Rightarrow> (handler \<Rightarrow> unit dfut) option list" where
  "doh3_connection_loop L B creds conn =
     (case conn of
        Inl e \<Rightarrow> []
      | Inr evs \<Rightarrow> accept_requests (\<lambda>resolver.
          case resolver of Inr rs \<Rightarrow> Some (\<lambda>handle. doh3_handle_request L B handle creds rs) | Inl e \<Rightarrow> None) evs)"

definition doh3_accept_loop ::
  "dnslib \<Rightarrow> base64 \<Rightarrow> credentials \<Rightarrow> (string + h3_conn) option list \<Rightarrow>
   (handler \<Rightarrow> unit dfut) option list list" where
  "doh3_accept_loop L B creds = accept_while_open (\<lambda>incoming.
     case incoming of Inr conn \<Rightarrow> doh3_connection_loop L B creds conn | Inl e \<Rightarrow> [])"

text \<open>DNSCrypt: each packet with the nonces its answer uses.\<close>

definition dc_udp_loop ::
  "dnslib \<Rightarrow> crypto \<Rightarrow> (bytes \<Rightarrow> socket_addr \<Rightarrow> unit io) \<Rightarrow> dnscrypt_server \<Rightarrow>
   (string + (bytes \<times> bytes) \<times> bytes \<times> socket_addr) list \<Rightarrow> (handler \<Rightarrow> unit dfut) list" where
  "dc_udp_loop L C send_to config = accept_forever (\<lambda>((rn, rn'), packet, peer) handle.
     await_ok (dc_handle_udp_packet L C rn rn' config handle packet) (\<lambda>b. lift_err Io (send_to b peer)))"

definition dc_tcp_accept_loop ::
  "dnslib \<Rightarrow> crypto \<Rightarrow> dnscrypt_server \<Rightarrow> (string + (nat \<Rightarrow> bytes) \<times> stream) list \<Rightarrow>
   ((nat \<Rightarrow> handler) \<Rightarrow> bytes \<times> conn_end) list" where
  "dc_tcp_accept_loop L C config =
     accept_forever (\<lambda>(rn, input, room) handle. dc_connection L C rn 0 config handle room input)"

section \<open>The contract of a listener's start\<close>

text \<open>
  Starting a listener on an address adds the tasks \<open>made\<close> for it, or fails and changes nothing. A
  \<open>serve_all\<close> over it then has the tasks of every address, or those of the addresses before the one
  that failed.
\<close>

locale starter =
  fixes serve1 :: "socket_addr \<Rightarrow> (doh_error, 'a) startup" and made :: "socket_addr \<Rightarrow> task list"
  assumes started: "serve1 a p = (Ok x, p') \<Longrightarrow> spawned p' = spawned p @ made a"
    and not_started: "serve1 a p = (r, p') \<Longrightarrow> \<not> is_ok r \<Longrightarrow> p' = p \<and> r \<noteq> Panic"
begin

lemma serve_each_started:
  "serve_each serve1 as p = (Ok u, p') \<Longrightarrow> spawned p' = spawned p @ concat (map made as)"
proof (induction "as" arbitrary: p)
  case (Cons a "as")
  then obtain x q where "serve1 a p = (Ok x, q)" "serve_each serve1 as q = (Ok u, p')"
    by (auto simp: start_bind_def split: prod.splits res.splits)
  then show ?case using Cons.IH started by fastforce
qed (simp add: start_lift_def)

lemma serve_each_failed:
  "serve_each serve1 as p = (r, p') \<Longrightarrow> \<not> is_ok r \<Longrightarrow>
   \<exists>pre a post e. as = pre @ a # post \<and> r = Err e \<and> spawned p' = spawned p @ concat (map made pre)"
proof (induction "as" arbitrary: p)
  case (Cons a "as")
  obtain s q where s: "serve1 a p = (s, q)" by (cases "serve1 a p")
  show ?case
  proof (cases s)
    case (Ok x)
    then have "serve_each serve1 as q = (r, p')" using Cons.prems s by (simp add: start_bind_def)
    then obtain pre b post e where "as = pre @ b # post" "r = Err e"
        "spawned p' = spawned q @ concat (map made pre)"
      using Cons.IH Cons.prems(2) by blast
    then show ?thesis using started s Ok by (intro exI [of _ "a # pre"]) auto
  next
    case (Err e)
    then have "p' = q" "r = Err e" using Cons.prems s by (auto simp: start_bind_def)
    then show ?thesis using not_started [OF s] Err by (intro exI [of _ "[]"]) auto
  qed (use not_started [OF s] in simp)
qed (auto simp: start_lift_def)

end

lemma spawned_hold [simp]: "spawned (hold s p) = spawned p"
  by (simp add: hold_def)

lemma spawned_spawn [simp]: "spawned (spawn t p) = spawned p @ [t]"
  by (simp add: spawn_def)

lemma sockets_hold [simp]: "sockets (hold s p) = sockets p @ [s]"
  by (simp add: hold_def)

lemma sockets_spawn [simp]: "sockets (spawn t p) = sockets p"
  by (simp add: spawn_def)

abbreviation udp_sock :: "socket_addr \<Rightarrow> sock" where
  "udp_sock a \<equiv> bound_sock a DGRAM UDP None"

abbreviation tcp_sock :: "socket_addr \<Rightarrow> sock" where
  "tcp_sock a \<equiv> bound_sock a STREAM TCP (Some 1024)"

interpretation plain: starter "serve H" "\<lambda>a. [UdpTask (udp_sock a), TcpTask (tcp_sock a)]" for H
  by unfold_locales
    (auto simp: serve_def bind_no_panic split: res.splits dest!: bind_udp_ok bind_tcp_ok)

lemma serve_socket_started:
  assumes "\<And>refuse a s. bind1 refuse a = Ok s \<Longrightarrow> s = mk a" "\<And>refuse a. bind1 refuse a \<noteq> Panic"
  shows "starter (serve_socket H bind1 task) (\<lambda>a. [task (mk a)])"
  using assms by unfold_locales (auto simp: serve_socket_def split: res.splits sum.splits)

interpretation dot_l: starter "dot_serve H tls" "\<lambda>a. [DotTask (tcp_sock a) tls]" for H tls
  unfolding dot_serve_def by (rule serve_socket_started) (simp_all add: bind_tcp_ok bind_no_panic)

interpretation doh_l: starter "doh_serve H tls creds" "\<lambda>a. [DohTask (tcp_sock a) tls creds]" for H tls creds
  unfolding doh_serve_def by (rule serve_socket_started) (simp_all add: bind_tcp_ok bind_no_panic)

interpretation dc_udp_l: starter "dc_serve_udp H config" "\<lambda>a. [DcUdpTask (udp_sock a) config]" for H config
  unfolding dc_serve_udp_def by (rule serve_socket_started) (simp_all add: bind_udp_ok bind_no_panic)

interpretation dc_tcp_l: starter "dc_serve_tcp H config" "\<lambda>a. [DcTcpTask (tcp_sock a) config]" for H config
  unfolding dc_serve_tcp_def by (rule serve_socket_started) (simp_all add: bind_tcp_ok bind_no_panic)

interpretation doq_l: starter "doq_serve H tls" "\<lambda>a. [DoqTask a tls]" for H tls
  by unfold_locales (auto simp: doq_serve_def serve_endpoint_def split: option.splits sum.splits)

interpretation doh3_l: starter "doh3_serve H tls creds" "\<lambda>a. [Doh3Task a tls creds]" for H tls creds
  by unfold_locales (auto simp: doh3_serve_def serve_endpoint_def split: option.splits sum.splits)

section \<open>Both families on one port\<close>

definition unspecified :: "ip_addr \<Rightarrow> bool" where
  "unspecified ip \<longleftrightarrow> ip = V4 0 0 0 0 \<or> ip = V6 [0, 0, 0, 0, 0, 0, 0, 0]"

text \<open>
  When the operating system has to refuse a bind: a socket of the same type is bound to the same
  port, and their addresses overlap. An IPv6 wildcard covers IPv4 too, unless it is restricted.
\<close>

definition overlap :: "sock \<Rightarrow> socket_addr \<Rightarrow> sock \<Rightarrow> bool" where
  "overlap s addr t =
     (case sk_bound t of
        None \<Rightarrow> False
      | Some b \<Rightarrow>
          sk_type s = sk_type t \<and> sa_port addr = sa_port b \<and> sa_port addr \<noteq> 0 \<and>
          (if sk_domain s = sk_domain t then sa_ip addr = sa_ip b \<or> unspecified (sa_ip addr) \<or> unspecified (sa_ip b)
           else sk_domain s = IPV6 \<and> unspecified (sa_ip addr) \<and> \<not> sk_only_v6 s \<or>
             sk_domain t = IPV6 \<and> unspecified (sa_ip b) \<and> \<not> sk_only_v6 t))"

definition refuses_overlaps_only :: "refusal \<Rightarrow> bool" where
  "refuses_overlaps_only refuse \<longleftrightarrow>
     (\<forall>socks op s. refuse socks op s \<noteq> None \<longrightarrow> (\<exists>addr t. op = Bind addr \<and> t \<in> set socks \<and> overlap s addr t))"

lemma bind_apart:
  assumes "refuses_overlaps_only refuse"
  shows "(\<And>t s. t \<in> set socks \<Longrightarrow> sk_type s = DGRAM \<Longrightarrow> sk_domain s = (if is_ipv6 (sa_ip addr) then IPV6 else IPV4) \<Longrightarrow>
      sk_only_v6 s = is_ipv6 (sa_ip addr) \<Longrightarrow> \<not> overlap s addr t) \<Longrightarrow>
      bind_udp (refuse socks) addr = Ok (udp_sock addr)"
    and "(\<And>t s. t \<in> set socks \<Longrightarrow> sk_type s = STREAM \<Longrightarrow> sk_domain s = (if is_ipv6 (sa_ip addr) then IPV6 else IPV4) \<Longrightarrow>
      sk_only_v6 s = is_ipv6 (sa_ip addr) \<Longrightarrow> \<not> overlap s addr t) \<Longrightarrow>
      bind_tcp (refuse socks) addr = Ok (tcp_sock addr)"
proof -
  have ok: "refuse socks op s = None" if "\<And>addr. op \<noteq> Bind addr" for socks op s
    using assms that unfolding refuses_overlaps_only_def by blast
  have bind: "refuse socks (Bind addr) s = None" if "\<And>t. t \<in> set socks \<Longrightarrow> \<not> overlap s addr t" for socks addr s
    using assms that unfolding refuses_overlaps_only_def by blast
  show "bind_udp (refuse socks) addr = Ok (udp_sock addr)"
    if "\<And>t s. t \<in> set socks \<Longrightarrow> sk_type s = DGRAM \<Longrightarrow> sk_domain s = (if is_ipv6 (sa_ip addr) then IPV6 else IPV4) \<Longrightarrow>
      sk_only_v6 s = is_ipv6 (sa_ip addr) \<Longrightarrow> \<not> overlap s addr t"
    using that by (auto simp: bind_udp_def new_socket_def Let_def sock_call_def ok bind bound_sock_def)
  show "bind_tcp (refuse socks) addr = Ok (tcp_sock addr)"
    if "\<And>t s. t \<in> set socks \<Longrightarrow> sk_type s = STREAM \<Longrightarrow> sk_domain s = (if is_ipv6 (sa_ip addr) then IPV6 else IPV4) \<Longrightarrow>
      sk_only_v6 s = is_ipv6 (sa_ip addr) \<Longrightarrow> \<not> overlap s addr t"
    using that by (auto simp: bind_tcp_def new_socket_def Let_def sock_call_def ok bind bound_sock_def)
qed

abbreviation v4_any :: ip_addr where
  "v4_any \<equiv> V4 0 0 0 0"

abbreviation v6_any :: ip_addr where
  "v6_any \<equiv> V6 [0, 0, 0, 0, 0, 0, 0, 0]"

lemma serve_both_wildcards:
  assumes "refuses_overlaps_only (os_refuse H)" "sockets p = []"
  shows "\<exists>p'. serve_all H [socket_addr_new v4_any port, socket_addr_new v6_any port] p = (Ok (), p')"
proof -
  let ?a4 = "socket_addr_new v4_any port" and ?a6 = "socket_addr_new v6_any port"
  have 1: "bind_udp (os_refuse H []) ?a4 = Ok (udp_sock ?a4)" by (rule bind_apart [OF assms(1)]) simp
  have 2: "bind_tcp (os_refuse H [udp_sock ?a4]) ?a4 = Ok (tcp_sock ?a4)"
    by (rule bind_apart [OF assms(1)]) (auto simp: overlap_def bound_sock_def)
  have 3: "bind_udp (os_refuse H [udp_sock ?a4, tcp_sock ?a4]) ?a6 = Ok (udp_sock ?a6)"
    by (rule bind_apart [OF assms(1)]) (auto simp: overlap_def bound_sock_def socket_addr_new_def)
  have 4: "bind_tcp (os_refuse H [udp_sock ?a4, tcp_sock ?a4, udp_sock ?a6]) ?a6 = Ok (tcp_sock ?a6)"
    by (rule bind_apart [OF assms(1)]) (auto simp: overlap_def bound_sock_def socket_addr_new_def)
  show ?thesis
    using 1 2 3 4 assms(2) by (simp add: serve_all_def start_bind_def start_lift_def serve_def)
qed

section \<open>Accept loops\<close>

lemma accept_forever_map: "accept_forever task evs = map task (concat (map (case_sum (\<lambda>_. []) (\<lambda>c. [c])) evs))"
  by (induction task evs rule: accept_forever.induct) auto

text \<open>What an HTTP/3 stream is sent is the response that the request handler gives.\<close>

lemma fut_value_await_ok_step:
  "fut_value f = Some (Ok x) \<Longrightarrow> fut_value (await_ok f g) = fut_value (g x)"
  by (cases "(f, g)" rule: await_ok.cases) auto

lemma h3_answer_headers:
  assumes "fut_value (h3_handle_request L B handle creds req) = Some (Ok resp)" "\<not> refused creds req"
  shows "headers resp = [(''content-type'', ''application/dns-message'')]"
proof (cases "in_method req")
  case POST
  then obtain b where "read_chunks (in_chunks req) (in_chunk_error req) [] = Ok b"
    using assms by (auto simp: h3_handle_request_def Let_def fut_value_await_ok)
  with POST show ?thesis using assms
    by (cases "decode_request L B (Option.bind (in_query req) find_dns_param) b")
      (auto simp: h3_handle_request_def Let_def fut_value_await_ok dns_response_def)
qed (use assms in \<open>auto simp: h3_handle_request_def Let_def fut_value_await_ok dns_response_def split: res.splits\<close>)

lemma h3_response_sent:
  assumes "fut_value (h3_handle_request L B handle creds req) = Some (Ok resp)"
  shows "fut_value (doh3_handle_request L B handle creds (req, stream)) =
    Some (run_h3 stream ([SendResponse (status resp) (headers resp)] @
      (if body resp = [] then [] else [SendData (body resp)]) @ [FinishStream]))"
proof (cases "refused creds req")
  case True
  then show ?thesis using assms
    by (auto simp: doh3_handle_request_def h3_handle_request_def send_unauthorized_def unauthorized_response_def
        simp del: run_h3.simps)
next
  case False
  show ?thesis using assms False h3_answer_headers [OF assms False]
    by (simp add: doh3_handle_request_def send_response_def fut_value_await_ok_step [OF assms] del: run_h3.simps)
qed

lemma accept_until_map:
  "accept_until task evs = map (\<lambda>ev. task (projr ev)) (takeWhile (\<lambda>ev. \<not> isl ev) evs)"
  by (induction task evs rule: accept_until.induct) auto

end
