(* ===== verification/Dnscrypt_Client.thy ===== *)
theory Dnscrypt_Client
  imports Dnscrypt_Stamp Bootstrap
begin

text \<open>
  \<open>client/dnscrypt.rs\<close>: the DNSCrypt client. Its state is the cached resolver certificate. What
  the operating system supplies to one exchange (clock readings, message ids, key pairs and nonces,
  for the first and for the second attempt) is the record \<open>rand_supply\<close>.
\<close>

record dnscrypt_upstream =
  dc_stamp :: dnscrypt_stamp
  dc_addr_redacted :: string
  dc_timeout :: "duration option"

record rand_supply =
  su_clock :: "nat option"
  su_clock_refresh :: "nat option"
  su_rid :: u16
  su_secret :: bytes
  su_nonce :: bytes

text \<open>The clock's seconds since the epoch, of which the low 32 bits are used; zero before the epoch.\<close>

definition now_unix :: "nat option \<Rightarrow> u32" where
  "now_unix clock = (case clock of Some secs \<Rightarrow> of_nat secs | None \<Rightarrow> 0)"

abbreviation su_now :: "rand_supply \<Rightarrow> u32" where
  "su_now su \<equiv> now_unix (su_clock su)"

abbreviation su_now_refresh :: "rand_supply \<Rightarrow> u32" where
  "su_now_refresh su \<equiv> now_unix (su_clock_refresh su)"

definition dnscrypt_new :: "base64 \<Rightarrow> string \<Rightarrow> 'r options \<Rightarrow> dnscrypt_upstream sres" where
  "dnscrypt_new B stamp_url opts =
     res_bind (parse_dnscrypt_stamp B stamp_url) (\<lambda>stamp.
     Ok \<lparr>dc_stamp = stamp, dc_addr_redacted = stamp_url, dc_timeout = timeout opts\<rparr>)"

section \<open>Exchanging bytes with the server\<close>

definition dc_udp :: "'h net \<Rightarrow> socket_addr \<Rightarrow> bytes \<Rightarrow> bytes dfut" where
  "dc_udp N addr framed =
     await_ok (lift_err Io (udp_bind N (local_for addr))) (\<lambda>sock.
     await_ok (lift_err Io (udp_connect N sock addr)) (\<lambda>sock.
     await_ok (lift_err Io (udp_send N sock framed)) (\<lambda>sock.
     lift_err Io (udp_recv N sock 65535))))"

definition dc_tcp :: "'h net \<Rightarrow> socket_addr \<Rightarrow> bytes \<Rightarrow> bytes dfut" where
  "dc_tcp N addr framed =
     (if u16_max < length framed
      then now (Err (DnsCrypt [Lit ''encrypted query too large for tcp framing'']))
      else
        await_ok (lift_err Io (tcp_connect N addr)) (\<lambda>tcp.
        await_ok (write_framed N Io tcp framed) (\<lambda>tcp.
        read_framed N Io tcp)))"

section \<open>The certificate\<close>

definition txt_strings :: "message \<Rightarrow> bytes list" where
  "txt_strings m = concat (map (\<lambda>r. case rr_data r of RD_TXT ss \<Rightarrow> ss | _ \<Rightarrow> []) (answers m))"

definition fetch_provider_txt ::
  "dnslib \<Rightarrow> 'h net \<Rightarrow> dnscrypt_upstream \<Rightarrow> u16 \<Rightarrow> bytes list dfut" where
  "fetch_provider_txt L N self rid =
     await_ok (now (lift_sum (\<lambda>e. DnsCrypt [Lit ''invalid provider name: '', Disp e])
        (name_from_ascii L (st_provider_name (dc_stamp self))))) (\<lambda>nm.
     let m = (message_new L rid Query)\<lparr>recursion_desired := True\<rparr>;
         m = m\<lparr>queries := queries m @ [query_new L nm RT_TXT]\<rparr> in
     await_ok (now (lift_sum Pack (to_bytes L m))) (\<lambda>req_bytes.
     await_ok (dc_udp N (st_addr (dc_stamp self)) req_bytes) (\<lambda>buf.
     now (res_bind (lift_sum (\<lambda>e. InvalidResponse [Lit ''unpacking cert response: '', Disp e])
        (from_bytes L buf)) (\<lambda>resp. Ok (txt_strings resp))))))"

definition choose_cert :: "dnscrypt_upstream \<Rightarrow> u32 \<Rightarrow> certificate list \<Rightarrow> certificate dres" where
  "choose_cert self t certs =
     (case filter (\<lambda>c. is_valid_at c t) certs of
        [] \<Rightarrow> Err (DnsCrypt [Lit ''no valid certificate found for provider '',
            Dbg (st_provider_name (dc_stamp self))])
      | c # _ \<Rightarrow> Ok c)"

definition refresh_cert ::
  "dnslib \<Rightarrow> crypto \<Rightarrow> 'h net \<Rightarrow> dnscrypt_upstream \<Rightarrow> rand_supply \<Rightarrow> certificate option \<Rightarrow>
   (certificate dres \<times> certificate option) fut" where
  "refresh_cert L C N self su st =
     await_st (with_st st (fetch_provider_txt L N self (su_rid su))) (\<lambda>txt_records st.
     await_st (now (parse_certificates C txt_records (provider_public_key (dc_stamp self)), st)) (\<lambda>certs st.
     await_st (now (choose_cert self (su_now_refresh su) certs, st)) (\<lambda>cert st.
     now (Ok cert, Some cert))))"

definition current_cert ::
  "dnslib \<Rightarrow> crypto \<Rightarrow> 'h net \<Rightarrow> dnscrypt_upstream \<Rightarrow> rand_supply \<Rightarrow> certificate option \<Rightarrow>
   (certificate dres \<times> certificate option) fut" where
  "current_cert L C N self su st =
     (case st of
        Some c \<Rightarrow> if is_valid_at c (su_now su) then now (Ok c, st) else refresh_cert L C N self su st
      | None \<Rightarrow> refresh_cert L C N self su st)"

section \<open>Exchanges\<close>

definition dc_decrypt ::
  "dnslib \<Rightarrow> crypto \<Rightarrow> certificate \<Rightarrow> client_key_pair \<Rightarrow> bytes \<Rightarrow> bytes \<Rightarrow> message dres" where
  "dc_decrypt L C cert client client_nonce enc_resp =
     res_bind (decrypt_response C cert client client_nonce enc_resp) (\<lambda>resp_bytes.
     lift_sum (\<lambda>e. InvalidResponse [Lit ''unpacking response: '', Disp e]) (from_bytes L resp_bytes))"

definition exchange_with_cert ::
  "dnslib \<Rightarrow> crypto \<Rightarrow> 'h net \<Rightarrow> dnscrypt_upstream \<Rightarrow> rand_supply \<Rightarrow> certificate \<Rightarrow> message \<Rightarrow> message dfut" where
  "exchange_with_cert L C N self su cert req =
     await_ok (now (lift_sum Pack (to_bytes L req))) (\<lambda>req_bytes.
     let client = client_generate C (su_secret su) in
     await_ok (now (encrypt_query C (su_nonce su) cert client req_bytes)) (\<lambda>(framed, client_nonce).
     await_ok (dc_udp N (st_addr (dc_stamp self)) framed) (\<lambda>enc_resp.
     await_ok (now (dc_decrypt L C cert client client_nonce enc_resp)) (\<lambda>resp.
     if truncation resp then
       await_ok (dc_tcp N (st_addr (dc_stamp self)) framed) (\<lambda>enc_resp.
       await_ok (now (dc_decrypt L C cert client client_nonce enc_resp)) (\<lambda>resp.
       now (res_bind (validate_response L req resp) (\<lambda>_. Ok resp))))
     else now (res_bind (validate_response L req resp) (\<lambda>_. Ok resp))))))"

text \<open>\<open>matches!(e, DohError::Timeout(_) | DohError::Io(_))\<close>\<close>

fun timeout_or_io :: "doh_error \<Rightarrow> bool" where
  "timeout_or_io (Timeout d) = True"
| "timeout_or_io (Io e) = True"
| "timeout_or_io _ = False"

definition dc_attempts ::
  "dnslib \<Rightarrow> crypto \<Rightarrow> 'h net \<Rightarrow> 'h net \<Rightarrow> dnscrypt_upstream \<Rightarrow> rand_supply \<Rightarrow> rand_supply \<Rightarrow> certificate option \<Rightarrow>
   message \<Rightarrow> (message dres \<times> certificate option) fut" where
  "dc_attempts L C N N' self su su' st req =
     await_st (current_cert L C N self su st) (\<lambda>cert st.
     await (exchange_with_cert L C N self su cert req) (\<lambda>r. case r of
        Ok resp \<Rightarrow> now (Ok resp, st)
      | Err e \<Rightarrow>
          if timeout_or_io e then
            await_st (refresh_cert L C N' self su' st) (\<lambda>cert st.
            with_st st (exchange_with_cert L C N' self su' cert req))
          else now (Err e, st)
      | Panic \<Rightarrow> now (Panic, st)))"

text \<open>
  The certificate cache when the timeout \<open>d\<close> cuts the attempts off: what had been written by then.
\<close>

definition dc_cert_at ::
  "dnslib \<Rightarrow> crypto \<Rightarrow> 'h net \<Rightarrow> 'h net \<Rightarrow> dnscrypt_upstream \<Rightarrow> rand_supply \<Rightarrow> rand_supply \<Rightarrow> certificate option \<Rightarrow>
   message \<Rightarrow> duration \<Rightarrow> certificate option" where
  "dc_cert_at L C N N' self su su' st req d =
     (case current_cert L C N self su st of
        Ready t (Ok cert, st1) \<Rightarrow>
          if d < t then st
          else (case exchange_with_cert L C N self su cert req of
              Ready u (Err e) \<Rightarrow>
                if timeout_or_io e then
                  (case refresh_cert L C N' self su' st1 of
                     Ready v (_, st2) \<Rightarrow> if d < t + u + v then st1 else st2
                   | Never \<Rightarrow> st1)
                else st1
            | _ \<Rightarrow> st1)
      | _ \<Rightarrow> st)"

definition dc_exchange ::
  "dnslib \<Rightarrow> crypto \<Rightarrow> 'h net \<Rightarrow> 'h net \<Rightarrow> dnscrypt_upstream \<Rightarrow> rand_supply \<Rightarrow> rand_supply \<Rightarrow> certificate option \<Rightarrow>
   message \<Rightarrow> (message dres \<times> certificate option) fut" where
  "dc_exchange L C N N' self su su' st req =
     (let f = dc_attempts L C N N' self su su' st req in
      case dc_timeout self of
        None \<Rightarrow> f
      | Some d \<Rightarrow>
          (if resolves_by d f then f
           else Ready d (Err (Timeout d), dc_cert_at L C N N' self su su' st req d)))"

definition dc_answer ::
  "dnslib \<Rightarrow> crypto \<Rightarrow> 'h net \<Rightarrow> 'h net \<Rightarrow> rand_supply \<Rightarrow> rand_supply \<Rightarrow> dnscrypt_upstream \<times> certificate option \<Rightarrow>
   message \<Rightarrow> message dfut" where
  "dc_answer L C N N' su su' x req = map_fut fst (dc_exchange L C N N' (fst x) su su' (snd x) req)"

section \<open>What an exchange promises\<close>

lemma exchange_with_cert_ok:
  "fut_value (exchange_with_cert L C N self su cert req) = Some (Ok resp) \<Longrightarrow> same_question L req resp"
  by (auto simp: exchange_with_cert_def fut_simps Let_def res_simps validate_response_ok_iff split: if_splits)

lemma dc_attempts_ok:
  assumes "fut_value (dc_attempts L C N N' self su su' st req) = Some (Ok resp, st')"
  shows "same_question L req resp"
proof -
  obtain cert st1 where c: "fut_value (current_cert L C N self su st) = Some (Ok cert, st1)"
    and f: "fut_value (await (exchange_with_cert L C N self su cert req) (\<lambda>r. case r of
        Ok resp \<Rightarrow> now (Ok resp, st1)
      | Err e \<Rightarrow>
          if timeout_or_io e then
            await_st (refresh_cert L C N' self su' st1) (\<lambda>cert st.
            with_st st (exchange_with_cert L C N' self su' cert req))
          else now (Err e, st1)
      | Panic \<Rightarrow> now (Panic, st1))) = Some (Ok resp, st')"
    using assms by (auto simp: dc_attempts_def fut_value_await_st)
  obtain r where r: "fut_value (exchange_with_cert L C N self su cert req) = Some r"
    using f by (auto simp: fut_value_await bind_eq_Some_conv)
  show ?thesis
    using f r exchange_with_cert_ok [of L C N self su cert req resp]
    by (cases r) (auto simp: fut_value_await fut_simps intro: exchange_with_cert_ok split: if_splits)
qed

interpretation dnscrypt: validated_exchange L "dc_answer L C N N' su su'" for L C N N' su su'
proof
  fix x req resp
  assume "fut_value (dc_answer L C N N' su su' x req) = Some (Ok resp)"
  then show "same_question L req resp"
    by (auto simp: dc_answer_def dc_exchange_def Let_def dest!: dc_attempts_ok split: option.splits if_splits)
qed

lemma dc_exchange_bounded:
  "dc_timeout self = Some d \<Longrightarrow> resolves_by d (dc_exchange L C N N' self su su' st req)"
  by (simp add: dc_exchange_def Let_def)

text \<open>Nothing inside an attempt times out: only input and output errors lead to a second one.\<close>

lemma timeout_free:
  "fut_value (await_ok f g) = Some (Err (Timeout d)) \<longleftrightarrow>
   fut_value f = Some (Err (Timeout d)) \<or>
   (\<exists>x. fut_value f = Some (Ok x) \<and> fut_value (g x) = Some (Err (Timeout d)))"
  by (cases "(f, g)" rule: await_ok.cases) auto

lemma lift_err_timeout: "(\<And>e. w e \<noteq> Timeout d) \<Longrightarrow> fut_value (lift_err w f) \<noteq> Some (Err (Timeout d))"
proof (cases f)
  case (Ready t r)
  assume "\<And>e. w e \<noteq> Timeout d"
  then show ?thesis using Ready by (cases r) auto
qed (simp add: lift_err_def)

lemma res_bind_timeout:
  "res_bind r g = Err (Timeout d) \<longleftrightarrow> r = Err (Timeout d) \<or> (\<exists>x. r = Ok x \<and> g x = Err (Timeout d))"
  by (cases r) auto

lemma lift_sum_timeout: "(\<And>e. w e \<noteq> Timeout d) \<Longrightarrow> lift_sum w s \<noteq> Err (Timeout d)"
  by (cases s) auto

lemma unpad_timeout: "unpad p \<noteq> Err (Timeout d)"
  by (simp add: unpad_def split: option.splits)

lemma validate_timeout: "validate_response L req resp \<noteq> Err (Timeout d)"
  by (auto simp: validate_response_def Let_def split: list.splits)

lemma crypto_timeout:
  "encrypt_query C n cert client m \<noteq> Err (Timeout d)"
  "decrypt_response C cert client n resp \<noteq> Err (Timeout d)"
  by (auto simp: encrypt_query_def decrypt_response_def Let_def res_bind_timeout lift_sum_timeout unpad_timeout)

lemma socket_timeout:
  "fut_value (dc_udp N addr b) \<noteq> Some (Err (Timeout d))"
  "fut_value (dc_tcp N addr b) \<noteq> Some (Err (Timeout d))"
  by (auto simp: dc_udp_def dc_tcp_def write_framed_def read_framed_def Let_def timeout_free lift_err_timeout)

lemma exchange_with_cert_timeout:
  "fut_value (exchange_with_cert L C N self su cert req) \<noteq> Some (Err (Timeout d))"
  by (auto simp: exchange_with_cert_def dc_decrypt_def Let_def timeout_free res_bind_timeout
      lift_sum_timeout crypto_timeout socket_timeout validate_timeout)

section \<open>The certificate in use\<close>

text \<open>
  A certificate obtained by \<open>refresh_cert\<close> was signed by the provider of the stamp, is valid now,
  and has the highest serial of all such certificates the server returned; it is cached.
\<close>

lemma choose_cert_best:
  assumes "choose_cert self t certs = Ok c" "sorted_wrt (\<lambda>c d. serial d \<le> serial c) certs"
  shows "c \<in> set certs \<and> is_valid_at c t \<and> (\<forall>d \<in> set certs. is_valid_at d t \<longrightarrow> serial d \<le> serial c)"
proof -
  obtain ds where ds: "filter (\<lambda>c. is_valid_at c t) certs = c # ds"
    using assms(1) by (auto simp: choose_cert_def split: list.splits)
  then have "sorted_wrt (\<lambda>c d. serial d \<le> serial c) (c # ds)"
    using sorted_wrt_filter [OF assms(2)] by metis
  moreover have "set (c # ds) = {d \<in> set certs. is_valid_at d t}" using ds by (metis set_filter)
  ultimately show ?thesis by auto
qed

lemma refresh_cert_ok:
  assumes "fut_value (refresh_cert L C N self su st) = Some (Ok c, st')"
  shows "st' = Some c \<and> is_valid_at c (su_now_refresh su) \<and>
    (\<exists>txts vk. fut_value (fetch_provider_txt L N self (su_rid su)) = Some (Ok txts) \<and>
       verifying_key_from_bytes C (provider_public_key (dc_stamp self)) = Inr vk \<and>
       (\<exists>txt \<in> set txts. cert_verified C vk txt c) \<and>
       (\<forall>txt \<in> set txts. \<forall>d. parse_one_certificate C txt vk = Some d \<longrightarrow>
          is_valid_at d (su_now_refresh su) \<longrightarrow> serial d \<le> serial c))"
proof -
  obtain txts certs where t: "fut_value (fetch_provider_txt L N self (su_rid su)) = Some (Ok txts)"
    and p: "parse_certificates C txts (provider_public_key (dc_stamp self)) = Ok certs"
    and ch: "choose_cert self (su_now_refresh su) certs = Ok c" and st': "st' = Some c"
    using assms by (auto simp: refresh_cert_def fut_simps)
  obtain vk where vk: "verifying_key_from_bytes C (provider_public_key (dc_stamp self)) = Inr vk"
      "\<forall>c \<in> set certs. \<exists>txt \<in> set txts. cert_verified C vk txt c"
      "sorted_wrt (\<lambda>c d. serial d \<le> serial c) certs"
    using parse_certificates_ok [OF p] by blast
  have "set certs = {d. \<exists>txt \<in> set txts. parse_one_certificate C txt vk = Some d}"
    using p vk(1) by (force simp: parse_certificates_def map_filter_def)
  then show ?thesis using choose_cert_best [OF ch vk(3)] t vk st' by blast
qed

text \<open>A certificate that \<open>current_cert\<close> hands out without asking the server has not expired.\<close>

lemma current_cert_valid:
  assumes "fut_value (current_cert L C N self su st) = Some (Ok c, st')"
  shows "is_valid_at c (su_now su) \<or> is_valid_at c (su_now_refresh su)"
  using assms refresh_cert_ok
  by (fastforce simp: current_cert_def split: option.splits if_splits)

end
