(* ===== verification/Latency.thy ===== *)
theory Latency
  imports Dns_Message
begin

text \<open>
  \<open>LatencyTracker\<close> of \<open>client/upstream.rs\<close>: the exponential moving average that the
  load-balancing mode ranks upstreams by. The average is computed in \<open>f64\<close>; the model computes the
  same numbers in integers, with IEEE 754 rounding to 53 significant bits written out. All
  intermediate values are multiples of \<open>2^-54\<close> below \<open>2^65\<close>, so neither overflow nor subnormals
  arise, and a value is kept as its multiple of \<open>2^-54\<close>.
\<close>

section \<open>Rounding to 53 bits\<close>

fun bit_len :: "nat \<Rightarrow> nat" where
  "bit_len n = (if n = 0 then 0 else Suc (bit_len (n div 2)))"

declare bit_len.simps [simp del]

text \<open>Round to nearest, ties to even.\<close>

definition rne53 :: "nat \<Rightarrow> nat" where
  "rne53 n =
     (let e = bit_len n - 53; q = n div 2 ^ e; r = n mod 2 ^ e
      in (if 2 ^ e < 2 * r \<or> (2 ^ e = 2 * r \<and> odd q) then q + 1 else q) * 2 ^ e)"

section \<open>The tracker\<close>

text \<open>\<open>0.3\<close> as an \<open>f64\<close>, and \<open>1.0 - EMA_ALPHA\<close> as the subtraction rounds it, in units of \<open>2^-54\<close>.\<close>

definition EMA_ALPHA :: nat where
  "EMA_ALPHA = 5404319552844595"

definition one_minus_alpha :: nat where
  "one_minus_alpha = rne53 (2 ^ 54 - EMA_ALPHA)"

text \<open>\<open>(EMA_ALPHA * sample + (1.0 - EMA_ALPHA) * prev).round() as u64\<close>\<close>

definition ema :: "nat \<Rightarrow> nat \<Rightarrow> nat" where
  "ema prev sample =
     (let p = rne53 prev; s = rne53 sample;
          sum = rne53 (rne53 (EMA_ALPHA * s) + rne53 (one_minus_alpha * p))
      in min ((sum + 2 ^ 53) div 2 ^ 54) (2 ^ 64 - 1))"

record latency_tracker =
  avg_micros :: u64

definition latency_new :: latency_tracker where
  "latency_new = \<lparr>avg_micros = - 1\<rparr>"

text \<open>\<open>#[derive(Default)]\<close> on the tracker.\<close>

definition latency_default :: latency_tracker where
  "latency_default = \<lparr>avg_micros = 0\<rparr>"

definition latency_record :: "latency_tracker \<Rightarrow> duration \<Rightarrow> latency_tracker" where
  "latency_record t elapsed =
     (let sample = min (as_micros elapsed) (2 ^ 64 - 1); prev = avg_micros t
      in \<lparr>avg_micros = (if prev = - 1 then of_nat sample else of_nat (ema (unat prev) sample))\<rparr>)"

definition latency_average :: "latency_tracker \<Rightarrow> duration option" where
  "latency_average t = (if avg_micros t = - 1 then None else Some (unat (avg_micros t) * 1000))"

section \<open>Rounding error\<close>

lemma bit_len_bounds: "0 < n \<Longrightarrow> 2 ^ (bit_len n - 1) \<le> n"
proof (induction n rule: bit_len.induct)
  case (1 n)
  then have len: "bit_len n = Suc (bit_len (n div 2))" by (subst bit_len.simps) simp
  show ?case
  proof (cases "n div 2 = 0")
    case True
    then show ?thesis using 1 len by (simp add: bit_len.simps)
  next
    case False
    then have "2 ^ (bit_len (n div 2) - 1) \<le> n div 2" using 1 by simp
    moreover have "bit_len (n div 2) = Suc (bit_len (n div 2) - 1)"
      using False by (simp add: bit_len.simps)
    ultimately have "2 ^ bit_len (n div 2) \<le> 2 * (n div 2)" by (metis mult_le_mono2 power_Suc)
    then show ?thesis using len by simp
  qed
qed

lemma bit_len_le: "n < 2 ^ k \<Longrightarrow> bit_len n \<le> k"
proof (rule ccontr)
  assume n: "n < 2 ^ k" and "\<not> bit_len n \<le> k"
  then have "k \<le> bit_len n - 1" "0 < n" by (auto simp: bit_len.simps intro: ccontr)
  then have "2 ^ k \<le> n" using bit_len_bounds [of n] by (meson le_trans one_le_numeral power_increasing)
  with n show False by simp
qed

text \<open>Integers below \<open>2^53\<close> are exact, and rounding moves a value by at most one part in \<open>2^53\<close>.\<close>

lemma rne53_exact: "n < 2 ^ 53 \<Longrightarrow> rne53 n = n"
  using bit_len_le [of n 53] by (simp add: rne53_def)

lemma rne53_error: "rne53 n * 2 ^ 53 \<le> n * 2 ^ 53 + n" "n * 2 ^ 53 \<le> rne53 n * 2 ^ 53 + n"
proof -
  define e q r where "e = bit_len n - 53" and "q = n div 2 ^ e" and "r = n mod 2 ^ e"
  have n: "n = q * 2 ^ e + r" by (simp only: q_def r_def div_mult_mod_eq)
  have r: "r < 2 ^ e" by (simp add: r_def)
  have up: "rne53 n * 2 \<le> n * 2 + 2 ^ e \<and> n * 2 \<le> rne53 n * 2 + 2 ^ e" if "0 < e"
    unfolding rne53_def Let_def e_def [symmetric] q_def [symmetric] r_def [symmetric]
    using n r by auto
  have "(rne53 n * 2 ^ 53 \<le> n * 2 ^ 53 + n) \<and> (n * 2 ^ 53 \<le> rne53 n * 2 ^ 53 + n)"
  proof (cases "e = 0")
    case True
    then have "rne53 n = n" by (simp add: rne53_def e_def)
    then show ?thesis by simp
  next
    case False
    then have "0 < n" using bit_len.simps [of 0] by (cases "n = 0") (simp_all add: e_def)
    then have "2 ^ (bit_len n - 1) \<le> n" by (rule bit_len_bounds)
    moreover have "bit_len n - 1 = 52 + e" using False by (simp add: e_def)
    ultimately have "2 ^ 52 * 2 ^ e \<le> n" by (simp add: power_add)
    with up False show ?thesis by auto
  qed
  then show "rne53 n * 2 ^ 53 \<le> n * 2 ^ 53 + n" "n * 2 ^ 53 \<le> rne53 n * 2 ^ 53 + n" by auto
qed

lemma one_minus_alpha_eq: "one_minus_alpha = 12610078956637388"
proof -
  have "bit_len (2 ^ 54 - EMA_ALPHA) = 54"
    by (simp add: EMA_ALPHA_def bit_len.simps)
  then show ?thesis by (simp add: one_minus_alpha_def rne53_def EMA_ALPHA_def Let_def)
qed

lemma rne53_close:
  assumes "n \<le> k * 2 ^ 53"
  shows "rne53 n \<le> n + k" "n \<le> rne53 n + k"
proof -
  have "rne53 n * 2 ^ 53 \<le> (n + k) * 2 ^ 53" "n * 2 ^ 53 \<le> (rne53 n + k) * 2 ^ 53"
    using rne53_error [of n] assms by (simp_all add: add_mult_distrib)
  then show "rne53 n \<le> n + k" "n \<le> rne53 n + k" by simp_all
qed

section \<open>The average stays between the old average and the sample\<close>

lemma ema_between:
  assumes p: "p < 2 ^ 50" and s: "s < 2 ^ 50"
  shows "min p s \<le> ema p s" "ema p s \<le> max p s"
proof -
  define m M where "m = min p s" and "M = max p s"
  have b: "m \<le> p" "m \<le> s" "p \<le> M" "s \<le> M" "M < 2 ^ 50" using p s by (auto simp: m_def M_def)
  define p1 p2 where "p1 = rne53 (5404319552844595 * s)" and "p2 = rne53 (12610078956637388 * p)"
  have p1: "p1 \<le> 5404319552844595 * s + M" "5404319552844595 * s \<le> p1 + M"
    unfolding p1_def using b by (intro rne53_close; simp)+
  have p2: "p2 \<le> 12610078956637388 * p + 2 * M" "12610078956637388 * p \<le> p2 + 2 * M"
    unfolding p2_def using b by (intro rne53_close; simp)+
  have n: "p1 + p2 \<le> (2 * M + 1) * 2 ^ 53" using p1 p2 b by simp
  define N where "N = rne53 (p1 + p2)"
  have "N \<le> 2 ^ 54 * M + 4 * M + 1" "2 ^ 54 * m \<le> N + 6 * M + 1"
    using rne53_close [OF n] p1 p2 b unfolding N_def by simp_all
  then have N: "N + 2 ^ 53 < 2 ^ 54 * (M + 1)" "2 ^ 54 * m \<le> N + 2 ^ 53" using b by simp_all
  have "ema p s = min ((N + 2 ^ 53) div 2 ^ 54) (2 ^ 64 - 1)"
    using p s by (simp add: ema_def rne53_exact one_minus_alpha_eq EMA_ALPHA_def N_def p1_def p2_def)
  moreover have "(N + 2 ^ 53) div 2 ^ 54 < M + 1" "m \<le> (N + 2 ^ 53) div 2 ^ 54"
    using N by (simp_all add: less_mult_imp_div_less less_eq_div_iff_mult_less_eq mult.commute)
  ultimately show "min p s \<le> ema p s" "ema p s \<le> max p s"
    using b by (auto simp: m_def [symmetric] M_def [symmetric])
qed

text \<open>
  \<open>tracks t S\<close>: the tracker is untested, or its average lies between two of the samples \<open>S\<close>,
  in microseconds.
\<close>

definition tracks :: "latency_tracker \<Rightarrow> nat set \<Rightarrow> bool" where
  "tracks t S \<longleftrightarrow> (avg_micros t = - 1 \<and> S = {}) \<or>
     (\<exists>lo \<in> S. \<exists>hi \<in> S. lo \<le> unat (avg_micros t) \<and> unat (avg_micros t) \<le> hi \<and> hi < 2 ^ 50)"

lemma unat_of_nat_u64: "n < 2 ^ 50 \<Longrightarrow> unat (of_nat n :: u64) = n"
  by (simp add: unat_of_nat take_bit_nat_eq_self)

lemma small_not_untested: "unat w < 2 ^ 50 \<Longrightarrow> w \<noteq> - 1" for w :: u64
  by (auto simp: unsigned_minus_1_eq_mask mask_eq_exp_minus_1)

lemma tracks_record:
  assumes "tracks t S" and small: "as_micros d < 2 ^ 50"
  shows "tracks (latency_record t d) (insert (as_micros d) S)"
proof (cases "avg_micros t = - 1")
  case True
  then have "avg_micros (latency_record t d) = of_nat (as_micros d)"
    using small by (simp add: latency_record_def)
  then show ?thesis using small unat_of_nat_u64 [OF small] by (auto simp: tracks_def)
next
  case False
  then obtain lo hi where h: "lo \<in> S" "hi \<in> S" "lo \<le> unat (avg_micros t)" "unat (avg_micros t) \<le> hi"
      "hi < 2 ^ 50"
    using assms(1) by (auto simp: tracks_def)
  let ?e = "ema (unat (avg_micros t)) (as_micros d)"
  have e: "min (unat (avg_micros t)) (as_micros d) \<le> ?e" "?e \<le> max (unat (avg_micros t)) (as_micros d)"
    using h small by (auto intro!: ema_between)
  then have "unat (of_nat ?e :: u64) = ?e" using h small by (intro unat_of_nat_u64) auto
  moreover have "avg_micros (latency_record t d) = of_nat ?e"
    using False small by (simp add: latency_record_def)
  moreover have "min lo (as_micros d) \<in> insert (as_micros d) S" "max hi (as_micros d) \<in> insert (as_micros d) S"
    using h by (auto simp: min_def max_def)
  moreover have "min lo (as_micros d) \<le> ?e" "?e \<le> max hi (as_micros d)" "max hi (as_micros d) < 2 ^ 50"
    using e h small by linarith+
  ultimately show ?thesis unfolding tracks_def by metis
qed

lemma tracks_fold:
  assumes "\<forall>d \<in> set ds. as_micros d < 2 ^ 50"
  shows "tracks (fold (\<lambda>d t. latency_record t d) ds latency_new) (as_micros ` set ds)"
proof -
  have "tracks (fold (\<lambda>d t. latency_record t d) ds t) (as_micros ` set ds \<union> S)" if "tracks t S" for t S
    using that assms
  proof (induction ds arbitrary: t S)
    case (Cons d ds)
    then show ?case using Cons.IH [OF tracks_record [OF Cons.prems(1)]] by simp
  qed simp
  from this [of latency_new "{}"] show ?thesis by (simp add: tracks_def latency_new_def)
qed

end
