(* ===== verification/Upstream.thy ===== *)
theory Upstream
  imports Doh_Client Dnscrypt_Client Latency
begin

text \<open>
  \<open>client/upstream.rs\<close>: the six kinds of upstream behind one type, and the upstream with its
  latency history. The state that a client keeps between exchanges is part of its constructor.
  \<open>world\<close> collects the parameters that stand for the libraries, the network and the randomness
  of one exchange; \<open>w_net_retry\<close> and \<open>w_supply_retry\<close> are what a second DNSCrypt attempt meets.
\<close>

record uri_parts =
  uri_host :: "string option"
  uri_path :: string
  uri_port :: "u16 option"

record 'h world =
  w_dns :: dnslib
  w_b64 :: base64
  w_std_encode :: "bytes \<Rightarrow> string"
  w_uri :: "string \<Rightarrow> string + uri_parts"
  w_net :: "'h net"
  w_net_retry :: "'h net"
  w_http :: "'h http"
  w_crypto :: crypto
  w_fuel :: nat
  w_quic_first :: bool
  w_supply :: rand_supply
  w_supply_retry :: rand_supply

datatype 'h upstream =
  Doh doh_upstream "'h doh_state"
| Dot dot_upstream
| Doq doq_upstream "'h option"
| DnsCryptUp dnscrypt_upstream "certificate option"
| PlainUdp udp_upstream
| PlainTcp host_upstream

fun address :: "'h upstream \<Rightarrow> string" where
  "address (Doh u st) = doh_addr_redacted u"
| "address (Dot u) = up_addr_redacted u"
| "address (Doq u st) = up_addr_redacted u"
| "address (DnsCryptUp u st) = dc_addr_redacted u"
| "address (PlainUdp u) = udp_addr_redacted u"
| "address (PlainTcp u) = up_addr_redacted u"

text \<open>The answer, and the upstream with the state its client has afterwards.\<close>

fun upstream_exchange :: "'h world \<Rightarrow> 'h upstream \<Rightarrow> message \<Rightarrow> (message dres \<times> 'h upstream) fut" where
  "upstream_exchange W (Doh u st) req =
     map_fut (\<lambda>(r, st'). (r, Doh u st'))
       (doh_exchange (w_dns W) (w_b64 W) (w_net W) (w_http W) (w_fuel W) (w_quic_first W) u st req)"
| "upstream_exchange W (Dot u) req = with_st (Dot u) (dot_exchange (w_dns W) (w_net W) u req)"
| "upstream_exchange W (Doq u st) req =
     map_fut (\<lambda>(r, st'). (r, Doq u st')) (doq_exchange (w_dns W) (w_net W) u st req)"
| "upstream_exchange W (DnsCryptUp u st) req =
     map_fut (\<lambda>(r, st'). (r, DnsCryptUp u st'))
       (dc_exchange (w_dns W) (w_crypto W) (w_net W) (w_net_retry W) u (w_supply W) (w_supply_retry W) st req)"
| "upstream_exchange W (PlainUdp u) req = with_st (PlainUdp u) (udp_exchange (w_dns W) (w_net W) u req)"
| "upstream_exchange W (PlainTcp u) req = with_st (PlainTcp u) (tcp_exchange (w_dns W) (w_net W) u req)"

section \<open>Tracked upstreams\<close>

record 'h tracked =
  tr_upstream :: "'h upstream"
  tr_latency :: latency_tracker

definition tracked_new :: "'h upstream \<Rightarrow> 'h tracked" where
  "tracked_new u = \<lparr>tr_upstream = u, tr_latency = latency_new\<rparr>"

text \<open>Only a successful exchange is timed.\<close>

definition tracked_exchange :: "'h world \<Rightarrow> 'h tracked \<Rightarrow> message \<Rightarrow> (message dres \<times> 'h tracked) fut" where
  "tracked_exchange W tr req =
     (case upstream_exchange W (tr_upstream tr) req of
        Never \<Rightarrow> Never
      | Ready t (r, u) \<Rightarrow>
          Ready t (r, \<lparr>tr_upstream = u,
            tr_latency = (if is_ok r then latency_record (tr_latency tr) t else tr_latency tr)\<rparr>))"

section \<open>Every kind of upstream validates its answers\<close>

definition upstream_answer :: "'h world \<Rightarrow> 'h upstream \<Rightarrow> message \<Rightarrow> message dfut" where
  "upstream_answer W u req = map_fut fst (upstream_exchange W u req)"

lemma upstream_answer_cases:
  "upstream_answer W u req =
   (case u of
      Doh v st \<Rightarrow> doh_answer (w_dns W) (w_b64 W) (w_net W) (w_http W) (w_fuel W) (w_quic_first W) (v, st) req
    | Dot v \<Rightarrow> dot_exchange (w_dns W) (w_net W) v req
    | Doq v st \<Rightarrow> doq_answer (w_dns W) (w_net W) (v, st) req
    | DnsCryptUp v st \<Rightarrow>
        dc_answer (w_dns W) (w_crypto W) (w_net W) (w_net_retry W) (w_supply W) (w_supply_retry W) (v, st) req
    | PlainUdp v \<Rightarrow> udp_exchange (w_dns W) (w_net W) v req
    | PlainTcp v \<Rightarrow> tcp_exchange (w_dns W) (w_net W) v req)"
proof -
  have [simp]: "map_fut fst (with_st s f) = f" for s f by (cases f) auto
  have [simp]: "map_fut fst (map_fut (\<lambda>(r, s). (r, g s)) f) = map_fut fst f" for g f
    by (cases f) (auto split: prod.splits)
  show ?thesis
    by (cases u) (simp_all add: upstream_answer_def doh_answer_def doq_answer_def dc_answer_def)
qed

interpretation any_upstream: validated_exchange "w_dns W" "upstream_answer W" for W
  by unfold_locales
    (auto simp: upstream_answer_cases split: upstream.splits
      intro: udp.exchange_validated tcp.exchange_validated dot.exchange_validated
        doq.exchange_validated doh.exchange_validated dnscrypt.exchange_validated)

lemma tracked_exchange_ok:
  assumes "fut_value (tracked_exchange W tr req) = Some (Ok resp, tr')"
  shows "same_question (w_dns W) req resp"
proof -
  obtain t u where "upstream_exchange W (tr_upstream tr) req = Ready t (Ok resp, u)"
    using assms by (auto simp: tracked_exchange_def split: fut.splits prod.splits)
  then have "fut_value (upstream_answer W (tr_upstream tr) req) = Some (Ok resp)"
    by (simp add: upstream_answer_def)
  then show ?thesis by (rule any_upstream.exchange_validated)
qed

text \<open>A failed exchange leaves the average as it was; a successful one records its duration.\<close>

lemma tracked_exchange_latency:
  assumes "tracked_exchange W tr req = Ready t (r, tr')"
  shows "tr_latency tr' = (if is_ok r then latency_record (tr_latency tr) t else tr_latency tr)"
  using assms by (auto simp: tracked_exchange_def split: fut.splits prod.splits)

end
