(* ===== verification/Upstream_Url.thy ===== *)
theory Upstream_Url
  imports Upstream
begin

text \<open>
  \<open>client/upstream_url.rs\<close>: from an upstream's address text to the client. \<open>Uri\<close> is the parser of
  the \<open>http\<close> crate, the parameter \<open>w_uri\<close>.
\<close>

definition extract_userinfo :: "string \<Rightarrow> ((string \<times> string) option \<times> string) sres" where
  "extract_userinfo url =
     (case split_once ''://'' url of
        None \<Rightarrow> Err [Lit ''upstream must be an absolute URL'']
      | Some (scheme_sep, rest) \<Rightarrow>
          (case rsplit_once CHR ''@'' rest of
             None \<Rightarrow> Ok (None, url)
           | Some (userinfo, host_and_path) \<Rightarrow>
               (case split_once '':'' userinfo of
                  None \<Rightarrow> Err [Lit ''userinfo in upstream must be user:pass'']
                | Some (user, pass) \<Rightarrow>
                    Ok (Some (user, pass), scheme_sep @ ''://'' @ host_and_path))))"

definition parse_upstream :: "'h world \<Rightarrow> string \<Rightarrow> resolver options \<Rightarrow> doh_upstream sres" where
  "parse_upstream W addr base_opts =
     (case split_once ''://'' addr of
        None \<Rightarrow> Err [Lit ''upstream '', Dbg addr, Lit '' must be an absolute URL'']
      | Some (scheme, _) \<Rightarrow>
          res_bind (if scheme = ''https'' then Ok None
             else if scheme = ''h3'' then Ok (Some [Http3])
             else Err [Lit ''unsupported upstream scheme '', Dbg scheme, Lit '' in '', Dbg addr]) (\<lambda>versions.
          res_bind (extract_userinfo addr) (\<lambda>(auth, stripped).
          res_bind (if scheme = ''h3''
             then (case split_once ''://'' stripped of
                     Some (_, after) \<Rightarrow> Ok (''https://'' @ after)
                   | None \<Rightarrow> Panic)
             else Ok stripped) (\<lambda>normalized.
          res_bind (lift_sum (\<lambda>e. [Lit ''invalid upstream '', Dbg addr, Lit '': '', Disp e])
             (w_uri W normalized)) (\<lambda>uri.
          res_bind (ok_or [Lit ''upstream '', Dbg addr, Lit '' must include a host''] (uri_host uri)) (\<lambda>host.
          Ok (doh_new (w_net W) (w_std_encode W) host (uri_port uri) (uri_path uri)
                \<lparr>bootstrap = bootstrap base_opts,
                 http_versions = (case versions of Some v \<Rightarrow> v | None \<Rightarrow> http_versions base_opts),
                 timeout = timeout base_opts,
                 insecure_skip_verify = insecure_skip_verify base_opts,
                 prefer_ipv6 = prefer_ipv6 base_opts, basic_auth = auth\<rparr>)))))))"

definition clone_opts :: "resolver options \<Rightarrow> resolver options" where
  "clone_opts base = \<lparr>bootstrap = bootstrap base, http_versions = [], timeout = timeout base,
     insecure_skip_verify = insecure_skip_verify base, prefer_ipv6 = prefer_ipv6 base, basic_auth = None\<rparr>"

text \<open>\<open>p.parse::<u16>()\<close> with the error message of \<open>split_host_port\<close>.\<close>

definition parse_port :: "string \<Rightarrow> string \<Rightarrow> u16 sres" where
  "parse_port rest p =
     (case parse_u16 p of
        Inr port \<Rightarrow> Ok port
      | Inl e \<Rightarrow> Err [Lit ''invalid port in '', Dbg rest, Lit '': '', StdErr])"

definition split_host_port :: "string \<Rightarrow> (string \<times> u16 option) sres" where
  "split_host_port rest =
     (case strip_prefix ''['' rest of
        Some stripped \<Rightarrow>
          res_bind (ok_or [Lit ''invalid host '', Dbg rest, Lit '': unterminated \"[\"'']
             (split_once '']'' stripped)) (\<lambda>(host, after).
          case strip_prefix '':'' after of
            Some p \<Rightarrow> res_bind (parse_port rest p) (\<lambda>port. Ok (host, Some port))
          | None \<Rightarrow> if after = [] then Ok (host, None)
                    else Err [Lit ''invalid host '', Dbg rest])
      | None \<Rightarrow>
          (case rsplit_once CHR '':'' rest of
             Some (host, port) \<Rightarrow>
               if \<not> contains '':'' host
               then res_bind (parse_port rest port) (\<lambda>port. Ok (host, Some port))
               else Ok (rest, None)
           | None \<Rightarrow> Ok (rest, None)))"

definition parse_any_upstream :: "'h world \<Rightarrow> string \<Rightarrow> resolver options \<Rightarrow> 'h upstream sres" where
  "parse_any_upstream W addr base_opts =
     (let (scheme, rest) = (case split_once ''://'' addr of Some sr \<Rightarrow> sr | None \<Rightarrow> (''udp'', addr)) in
      if scheme = ''udp'' then
        (case parse_socket_addr rest of
           Some sock_addr \<Rightarrow> Ok (PlainUdp (udp_new sock_addr (timeout base_opts)))
         | None \<Rightarrow>
             (case parse_ip_addr rest of
                Some ip \<Rightarrow> Ok (PlainUdp (udp_new (socket_addr_new ip 53) (timeout base_opts)))
              | None \<Rightarrow> Err [Lit ''plain upstream '', Dbg addr, Lit '' must use a literal IP host'']))
      else if scheme = ''tcp'' then
        res_bind (split_host_port rest) (\<lambda>(host, port).
          Ok (PlainTcp (tcp_new (w_net W) host port (clone_opts base_opts))))
      else if scheme = ''tls'' then
        res_bind (split_host_port rest) (\<lambda>(host, port).
          Ok (Dot (dot_new (w_net W) host port (clone_opts base_opts))))
      else if scheme = ''quic'' then
        res_bind (split_host_port rest) (\<lambda>(host, port).
          Ok (Doq (doq_new (w_net W) host port (clone_opts base_opts)) None))
      else if scheme = ''sdns'' then
        res_bind (dnscrypt_new (w_b64 W) addr (clone_opts base_opts)) (\<lambda>u. Ok (DnsCryptUp u None))
      else res_bind (parse_upstream W addr base_opts) (\<lambda>u. Ok (Doh u doh_init)))"

section \<open>Userinfo\<close>

text \<open>
  The user ends at the first colon and the credentials at the last at-sign, so a password may
  contain both.
\<close>

lemma split_once_scheme:
  "CHR '':'' \<notin> set scheme \<Longrightarrow> split_once ''://'' (scheme @ ''://'' @ rest) = Some (scheme, rest)"
  by (induction scheme) auto

lemma extract_userinfo_ok:
  assumes "CHR '':'' \<notin> set scheme" "CHR '':'' \<notin> set user" "CHR ''@'' \<notin> set host"
  shows "extract_userinfo (scheme @ ''://'' @ user @ '':'' @ pass @ ''@'' @ host) =
    Ok (Some (user, pass), scheme @ ''://'' @ host)"
proof -
  have "rsplit_once CHR ''@'' ((user @ '':'' @ pass) @ CHR ''@'' # host) = Some (user @ '':'' @ pass, host)"
    using assms(3) by (rule rsplit_once_last)
  then have "rsplit_once CHR ''@'' (user @ '':'' @ pass @ ''@'' @ host) = Some (user @ '':'' @ pass, host)"
    by simp
  moreover have "split_once '':'' (user @ '':'' @ pass) = Some (user, pass)"
    using assms(2) by (simp add: split_once_single)
  ultimately show ?thesis
    unfolding extract_userinfo_def
    using split_once_scheme [OF assms(1), of "user @ '':'' @ pass @ ''@'' @ host"] by simp
qed

lemma extract_userinfo_none:
  assumes "CHR '':'' \<notin> set scheme" "CHR ''@'' \<notin> set rest"
  shows "extract_userinfo (scheme @ ''://'' @ rest) = Ok (None, scheme @ ''://'' @ rest)"
proof -
  have "rsplit_once CHR ''@'' rest = None" using assms(2) by (simp add: rsplit_once_None)
  then show ?thesis
    using split_once_scheme [OF assms(1), of rest] by (simp add: extract_userinfo_def)
qed

text \<open>What is left of a URL still has its scheme, so the slice of an \<open>h3\<close> address is in range.\<close>

lemma extract_userinfo_absolute:
  assumes "extract_userinfo url = Ok (auth, stripped)"
  shows "\<exists>s r. split_once ''://'' stripped = Some (s, r)"
proof -
  obtain s rest where s: "split_once ''://'' url = Some (s, rest)"
    using assms by (auto simp: extract_userinfo_def split: option.splits)
  have "contains ''://'' (s @ ''://'' @ x)" for x
    using contains_iff by blast
  then have "split_once ''://'' (s @ ''://'' @ x) \<noteq> None" for x
    by (simp add: contains_def)
  then show ?thesis
    using assms s by (auto simp: extract_userinfo_def split: option.splits)
qed

lemma extract_userinfo_no_panic: "extract_userinfo url \<noteq> Panic"
  by (auto simp: extract_userinfo_def split: option.splits)

lemma parse_upstream_no_panic: "parse_upstream W addr opts \<noteq> Panic"
  by (auto simp: parse_upstream_def res_simps extract_userinfo_no_panic
      dest: extract_userinfo_absolute split: option.splits if_splits)

section \<open>Host and port\<close>

text \<open>
  \<open>split_host_port\<close> reads back what \<open>format_host_port\<close> prints: an address literal in brackets, or
  a name without colons.
\<close>

lemma parse_port_show: "parse_port rest (show_dec (unat p)) = Ok p"
  by (simp add: parse_port_def parse_u16_show)

lemma strip_bracket_None: "hd s \<noteq> c \<Longrightarrow> s \<noteq> [] \<Longrightarrow> strip_prefix [c] (s @ t) = None"
  by (cases s) auto

lemma not_digit_not_in_show_dec:
  assumes "to_digit 10 c = None"
  shows "c \<notin> set (show_dec n)"
proof
  assume "c \<in> set (show_dec n)"
  then obtain d where "d \<in> set (digits_of 10 n)" "c = digit_char d"
    by (auto simp: show_radix_def)
  then have "to_digit 10 c = Some d"
    using digits_of_bound [of 10 d n] to_digit_digit_char [of d 10] by simp
  with assms show False by simp
qed

lemma colon_not_in_show_dec: "CHR '':'' \<notin> set (show_dec n)"
  by (rule not_digit_not_in_show_dec) (simp add: to_digit_def)

lemma split_format_host_port:
  assumes "host \<noteq> []" "hd host \<noteq> CHR ''[''" "CHR '']'' \<notin> set host"
    and "parse_ipv6_addr host = None \<Longrightarrow> CHR '':'' \<notin> set host"
  shows "split_host_port (format_host_port host port) = Ok (host, Some port)"
proof (cases "parse_ipv6_addr host")
  case None
  then have f: "format_host_port host port = host @ CHR '':'' # show_dec (unat port)"
    by (simp add: format_host_port_def)
  have "rsplit_once CHR '':'' (host @ CHR '':'' # show_dec (unat port)) = Some (host, show_dec (unat port))"
    by (rule rsplit_once_last) (rule colon_not_in_show_dec)
  moreover have "\<not> contains '':'' host"
    using assms(4) [OF None] by (simp add: contains_def split_once_single_None)
  ultimately show ?thesis
    using strip_bracket_None [OF assms(2,1)] by (simp add: split_host_port_def f parse_port_show)
next
  case (Some gs)
  then have f: "format_host_port host port = CHR ''['' # host @ CHR '']'' # CHR '':'' # show_dec (unat port)"
    by (simp add: format_host_port_def)
  show ?thesis
    using split_once_single [OF assms(3)] by (simp add: split_host_port_def f parse_port_show)
qed

text \<open>So the redacted address of a TCP, DoT or DoQ upstream parses to an upstream of the same host and port.\<close>

lemma parse_any_format:
  assumes "host \<noteq> []" "hd host \<noteq> CHR ''[''" "CHR '']'' \<notin> set host"
    and "parse_ipv6_addr host = None \<Longrightarrow> CHR '':'' \<notin> set host"
  shows "parse_any_upstream W (''tcp://'' @ format_host_port host port) opts =
      Ok (PlainTcp (tcp_new (w_net W) host (Some port) (clone_opts opts)))"
    and "parse_any_upstream W (''tls://'' @ format_host_port host port) opts =
      Ok (Dot (dot_new (w_net W) host (Some port) (clone_opts opts)))"
    and "parse_any_upstream W (''quic://'' @ format_host_port host port) opts =
      Ok (Doq (doq_new (w_net W) host (Some port) (clone_opts opts)) None)"
  using split_format_host_port [OF assms, of port]
    split_once_scheme [of "''tcp''" "format_host_port host port"]
    split_once_scheme [of "''tls''" "format_host_port host port"]
    split_once_scheme [of "''quic''" "format_host_port host port"]
  by (simp_all add: parse_any_upstream_def)

lemma parse_any_udp:
  assumes "sock_wf a"
  shows "parse_any_upstream W (''udp://'' @ show_socket_addr a) opts = Ok (PlainUdp (udp_new a (timeout opts)))"
  using parse_show_socket_addr [OF assms] split_once_scheme [of "''udp''" "show_socket_addr a"]
  by (simp add: parse_any_upstream_def)

end
