(* ===== verification/Upstream_Config.thy ===== *)
theory Upstream_Config
  imports Upstream_Url "HOL-Library.Option_ord" "HOL-Library.AList" "HOL-Library.Multiset"
begin

text \<open>
  \<open>client/upstream_config.rs\<close>: the upstream configuration file, the choice of upstreams for a
  query's name, their order, and the exchange with failover. An \<open>Arc<TrackedUpstream>\<close> is an index
  into the \<open>store\<close>, so that rules which name the same server share its latency history. Atomic
  counters are read and updated in one step. The random order of \<open>shuffle\<close> is the argument \<open>shuf\<close>.
\<close>

datatype upstream_mode = Ordered | RoundRobin | LoadBalance

record group =
  upstreams :: "nat list"
  cursor :: nat

definition group_default :: group where
  "group_default = \<lparr>upstreams = [], cursor = 0\<rparr>"

definition group_push :: "group \<Rightarrow> nat \<Rightarrow> group" where
  "group_push g u = g\<lparr>upstreams := upstreams g @ [u]\<rparr>"

section \<open>The order in which upstreams are tried\<close>

text \<open>The cursor is a \<open>usize\<close>: \<open>fetch_add\<close> wraps at \<open>2^64\<close>.\<close>

definition group_ordered ::
  "(nat \<Rightarrow> latency_tracker) \<Rightarrow> (nat list \<Rightarrow> nat list) \<Rightarrow> group \<Rightarrow> upstream_mode \<Rightarrow> nat list \<times> group" where
  "group_ordered lat shuf g mode =
     (case mode of
        Ordered \<Rightarrow> (upstreams g, g)
      | RoundRobin \<Rightarrow>
          (let len = length (upstreams g) in
           if len = 0 then ([], g)
           else let start = cursor g mod len
             in (drop start (upstreams g) @ take start (upstreams g),
                 g\<lparr>cursor := (cursor g + 1) mod 2 ^ 64\<rparr>))
      | LoadBalance \<Rightarrow>
          (let tested = filter (\<lambda>u. latency_average (lat u) \<noteq> None) (upstreams g);
               untested = filter (\<lambda>u. latency_average (lat u) = None) (upstreams g)
           in (shuf untested @ sort_key (\<lambda>u. latency_average (lat u)) tested, g)))"

section \<open>The configuration\<close>

record 'h upstream_config =
  store :: "'h tracked list"
  domain_upstreams :: "(string \<times> group) list"
  default_upstreams :: group
  mode :: upstream_mode

definition split_config_line :: "string \<Rightarrow> (string list \<times> string list) sres" where
  "split_config_line line =
     (case strip_prefix ''[/'' line of
        None \<Rightarrow> Ok ([line], [])
      | Some rest \<Rightarrow>
          (case split_once ''/]'' rest of
             None \<Rightarrow> Err [Lit ''wrong upstream format: missing closing \"/]\"'']
           | Some (domains_part, upstreams_part) \<Rightarrow>
               if upstreams_part = []
               then Err [Lit ''wrong upstream format: no upstreams after \"/]\"'']
               else if [] \<in> set (split_on CHR ''/'' domains_part)
               then Err [Lit ''wrong upstream format: empty domain in rule'']
               else Ok (split_whitespace upstreams_part,
                        map (\<lambda>host. to_ascii_lowercase host @ ''.'') (split_on CHR ''/'' domains_part))))"

record 'h parse_state =
  ps_index :: "(string \<times> nat) list"
  ps_store :: "'h tracked list"
  ps_domains :: "(string \<times> group) list"
  ps_default :: group
  ps_errors :: "(nat \<times> msg) list"

definition parse_init :: "'h parse_state" where
  "parse_init = \<lparr>ps_index = [], ps_store = [], ps_domains = [], ps_default = group_default, ps_errors = []\<rparr>"

text \<open>\<open>entry(domain).or_default().push(upstream)\<close>\<close>

definition push_domain :: "nat \<Rightarrow> string \<Rightarrow> (string \<times> group) list \<Rightarrow> (string \<times> group) list" where
  "push_domain u domain ds =
     AList.update domain
       (group_push (case map_of ds domain of Some g \<Rightarrow> g | None \<Rightarrow> group_default) u) ds"

definition push_upstream :: "string list \<Rightarrow> nat \<Rightarrow> 'h parse_state \<Rightarrow> 'h parse_state" where
  "push_upstream domains u st =
     (if domains = [] then st\<lparr>ps_default := group_push (ps_default st) u\<rparr>
      else st\<lparr>ps_domains := fold (push_domain u) domains (ps_domains st)\<rparr>)"

text \<open>One upstream of a line: the client of an equal text, or a new one.\<close>

definition parse_one ::
  "'h world \<Rightarrow> resolver options \<Rightarrow> nat \<Rightarrow> string list \<Rightarrow> string \<Rightarrow> 'h parse_state \<Rightarrow> (unit, 'h parse_state) res" where
  "parse_one W opts idx domains u st =
     (case map_of (ps_index st) u of
        Some existing \<Rightarrow> Ok (push_upstream domains existing st)
      | None \<Rightarrow>
          (case parse_any_upstream W u opts of
             Ok built \<Rightarrow>
               let i = length (ps_store st) in
               Ok (push_upstream domains i
                 (st\<lparr>ps_store := ps_store st @ [tracked_new built], ps_index := AList.update u i (ps_index st)\<rparr>))
           | Err e \<Rightarrow> Ok (st\<lparr>ps_errors := ps_errors st @ [(idx, [Lit ''upstream '', Dbg u, Lit '': ''] @ e)]\<rparr>)
           | Panic \<Rightarrow> Panic))"

fun parse_list ::
  "'h world \<Rightarrow> resolver options \<Rightarrow> nat \<Rightarrow> string list \<Rightarrow> string list \<Rightarrow> 'h parse_state \<Rightarrow> (unit, 'h parse_state) res" where
  "parse_list W opts idx domains [] st = Ok st"
| "parse_list W opts idx domains (u # us) st =
     res_bind (parse_one W opts idx domains u st) (parse_list W opts idx domains us)"

definition parse_line ::
  "'h world \<Rightarrow> resolver options \<Rightarrow> nat \<Rightarrow> string \<Rightarrow> 'h parse_state \<Rightarrow> (unit, 'h parse_state) res" where
  "parse_line W opts idx line st =
     (let line = trim line in
      if line = [] \<or> starts_with ''#'' line then Ok st
      else (case split_config_line line of
          Ok (upstream_strs, domains) \<Rightarrow> parse_list W opts idx domains upstream_strs st
        | Err e \<Rightarrow> Ok (st\<lparr>ps_errors := ps_errors st @ [(idx, e)]\<rparr>)
        | Panic \<Rightarrow> Panic))"

fun parse_lines ::
  "'h world \<Rightarrow> resolver options \<Rightarrow> nat \<Rightarrow> string list \<Rightarrow> 'h parse_state \<Rightarrow> (unit, 'h parse_state) res" where
  "parse_lines W opts idx [] st = Ok st"
| "parse_lines W opts idx (l # ls) st =
     res_bind (parse_line W opts idx l st) (parse_lines W opts (Suc idx) ls)"

definition parse_with_mode ::
  "'h world \<Rightarrow> string list \<Rightarrow> resolver options \<Rightarrow> upstream_mode \<Rightarrow> ((nat \<times> msg) list, 'h upstream_config) res" where
  "parse_with_mode W ls opts m =
     (case parse_lines W opts 0 ls parse_init of
        Ok st \<Rightarrow>
          if ps_errors st \<noteq> [] then Err (ps_errors st)
          else Ok \<lparr>store = ps_store st, domain_upstreams = ps_domains st, default_upstreams = ps_default st, mode = m\<rparr>
      | _ \<Rightarrow> Panic)"

section \<open>Matching a name\<close>

text \<open>The loop of \<open>group_for\<close>: the key of the rule that matches, if any.\<close>

function match_suffix :: "(string \<times> group) list \<Rightarrow> string \<Rightarrow> string option" where
  "match_suffix rules suffix =
     (if map_of rules suffix \<noteq> None then Some suffix
      else (case split_once ''.'' suffix of
          Some (_, rest) \<Rightarrow> if rest \<noteq> [] then match_suffix rules rest else None
        | None \<Rightarrow> None))"
  by pat_completeness auto
termination
  by (relation "measure (\<lambda>(_, s). length s)") (auto dest: split_once_length)

declare match_suffix.simps [simp del]

definition group_key :: "'h upstream_config \<Rightarrow> string \<Rightarrow> string option" where
  "group_key cfg dname =
     (if domain_upstreams cfg = [] then None
      else match_suffix (domain_upstreams cfg) (to_ascii_lowercase dname))"

definition group_for :: "'h upstream_config \<Rightarrow> string \<Rightarrow> group" where
  "group_for cfg dname =
     (case group_key cfg dname of
        Some k \<Rightarrow> (case map_of (domain_upstreams cfg) k of Some g \<Rightarrow> g | None \<Rightarrow> default_upstreams cfg)
      | None \<Rightarrow> default_upstreams cfg)"

definition set_group :: "string option \<Rightarrow> group \<Rightarrow> 'h upstream_config \<Rightarrow> 'h upstream_config" where
  "set_group key g cfg =
     (case key of
        Some k \<Rightarrow> cfg\<lparr>domain_upstreams := AList.update k g (domain_upstreams cfg)\<rparr>
      | None \<Rightarrow> cfg\<lparr>default_upstreams := g\<rparr>)"

definition upstreams_for ::
  "(nat list \<Rightarrow> nat list) \<Rightarrow> 'h upstream_config \<Rightarrow> string \<Rightarrow> nat list \<times> 'h upstream_config" where
  "upstreams_for shuf cfg dname =
     (let (us, g) = group_ordered (\<lambda>i. tr_latency (store cfg ! i)) shuf (group_for cfg dname) (mode cfg)
      in (us, set_group (group_key cfg dname) g cfg))"

section \<open>Exchanging with failover\<close>

text \<open>The loop over the upstreams; the \<open>k\<close>-th attempt meets the world \<open>W k\<close>.\<close>

fun try_upstreams ::
  "(nat \<Rightarrow> 'h world) \<Rightarrow> message \<Rightarrow> doh_error \<Rightarrow> nat \<Rightarrow> nat list \<Rightarrow> 'h tracked list \<Rightarrow> doh_error option \<Rightarrow>
   (message dres \<times> 'h tracked list) fut" where
  "try_upstreams W req none k [] trs last_err =
     now (Err (case last_err of Some e \<Rightarrow> e | None \<Rightarrow> none), trs)"
| "try_upstreams W req none k (i # is) trs last_err =
     await (tracked_exchange (W k) (trs ! i) req) (\<lambda>(r, tr).
       let trs = trs[i := tr] in
       case r of
         Ok resp \<Rightarrow> now (Ok resp, trs)
       | Err e \<Rightarrow> try_upstreams W req none (Suc k) is trs (Some e)
       | Panic \<Rightarrow> now (Panic, trs))"

definition query_name :: "dnslib \<Rightarrow> message \<Rightarrow> string" where
  "query_name L req = (case queries req of [] \<Rightarrow> [] | q # _ \<Rightarrow> name_to_ascii L (q_name q))"

definition config_exchange ::
  "dnslib \<Rightarrow> (nat \<Rightarrow> 'h world) \<Rightarrow> (nat list \<Rightarrow> nat list) \<Rightarrow> 'h upstream_config \<Rightarrow> message \<Rightarrow>
   (message dres \<times> 'h upstream_config) fut" where
  "config_exchange L W shuf cfg req =
     (let nm = query_name L req; (us, cfg) = upstreams_for shuf cfg nm
      in map_fut (\<lambda>(r, trs). (r, cfg\<lparr>store := trs\<rparr>))
           (try_upstreams W req (doh_error.Bootstrap [Lit ''no upstreams configured for '', Dbg nm]) 0 us (store cfg) None))"

section \<open>The most specific rule matches\<close>

text \<open>\<open>label_suffix k s\<close>: \<open>k\<close> is \<open>s\<close>, or what follows one of its dots and is not empty.\<close>

definition label_suffix :: "string \<Rightarrow> string \<Rightarrow> bool" where
  "label_suffix k s \<longleftrightarrow> k = s \<or> (k \<noteq> [] \<and> (\<exists>p. s = p @ ''.'' @ k))"

lemma label_suffix_refl [simp]: "label_suffix s s"
  by (simp add: label_suffix_def)

lemma label_suffix_length: "label_suffix k s \<Longrightarrow> length k \<le> length s"
  by (auto simp: label_suffix_def)

text \<open>The suffixes of \<open>s\<close> after its first label are those of the rest.\<close>

lemma label_suffix_split:
  assumes "split_once ''.'' s = Some (a, r)" "k \<noteq> s"
  shows "label_suffix k s \<longleftrightarrow> r \<noteq> [] \<and> label_suffix k r"
proof -
  have s: "s = a @ CHR ''.'' # r" "CHR ''.'' \<notin> set a"
    using assms(1) split_once_Some [OF assms(1)] split_once_single_notin [OF assms(1)] by auto
  show ?thesis
  proof
    assume "label_suffix k s"
    then obtain p where p: "k \<noteq> []" "a @ CHR ''.'' # r = p @ CHR ''.'' # k"
      using assms(2) s by (auto simp: label_suffix_def)
    have "length a \<le> length p"
    proof (rule ccontr)
      assume "\<not> length a \<le> length p"
      then have "(p @ CHR ''.'' # k) ! length p \<in> set a" using p(2) by (metis not_le nth_append nth_mem)
      with s(2) show False by simp
    qed
    then obtain q where "p = a @ q"
      using p(2) by (metis append_eq_append_conv_if append_take_drop_id)
    then show "r \<noteq> [] \<and> label_suffix k r"
      using p by (cases q) (auto simp: label_suffix_def)
  next
    assume r: "r \<noteq> [] \<and> label_suffix k r"
    show "label_suffix k s"
    proof (cases "k = r")
      case True
      then show ?thesis using r s by (auto simp: label_suffix_def)
    next
      case False
      then obtain p where "k \<noteq> []" "r = p @ CHR ''.'' # k" using r by (auto simp: label_suffix_def)
      then have "s = (a @ CHR ''.'' # p) @ ''.'' @ k" using s by simp
      then show ?thesis using \<open>k \<noteq> []\<close> unfolding label_suffix_def by blast
    qed
  qed
qed

lemma label_suffix_no_dot:
  assumes "split_once ''.'' s = None" shows "label_suffix k s \<longleftrightarrow> k = s"
  using assms by (auto simp: label_suffix_def split_once_single_None)

lemma match_suffix_Some:
  assumes "match_suffix rules s = Some k"
  shows "map_of rules k \<noteq> None \<and> label_suffix k s \<and>
    (\<forall>k'. map_of rules k' \<noteq> None \<longrightarrow> label_suffix k' s \<longrightarrow> length k' \<le> length k)"
  using assms
proof (induction rules s rule: match_suffix.induct)
  case (1 rules s)
  show ?case
  proof (cases "map_of rules s \<noteq> None")
    case True
    then have "k = s" using "1.prems" by (subst (asm) match_suffix.simps) simp
    then show ?thesis using True label_suffix_length by auto
  next
    case False
    then obtain a r where r: "split_once ''.'' s = Some (a, r)" "r \<noteq> []" "match_suffix rules r = Some k"
      using "1.prems" by (subst (asm) match_suffix.simps) (auto split: option.splits if_splits)
    note IH = "1.IH" [OF False r(1) refl r(2,3)]
    have ls: "label_suffix k' s \<longleftrightarrow> label_suffix k' r" if "map_of rules k' \<noteq> None" for k'
    proof -
      have "k' \<noteq> s" using that False by auto
      then show ?thesis using r(2) label_suffix_split [OF r(1)] by simp
    qed
    show ?thesis using IH ls by auto
  qed
qed

lemma match_suffix_None:
  assumes "match_suffix rules s = None" "map_of rules k \<noteq> None"
  shows "\<not> label_suffix k s"
  using assms
proof (induction rules s rule: match_suffix.induct)
  case (1 rules s)
  have s: "map_of rules s = None"
  proof (rule ccontr)
    assume "map_of rules s \<noteq> None"
    then show False using "1.prems"(1) by (subst (asm) match_suffix.simps) simp
  qed
  then have "k \<noteq> s" using "1.prems"(2) by auto
  show ?case
  proof (cases "split_once ''.'' s")
    case None
    then show ?thesis using label_suffix_no_dot \<open>k \<noteq> s\<close> by simp
  next
    case (Some z)
    obtain a r where z: "z = (a, r)" by (cases z)
    have "r \<noteq> [] \<Longrightarrow> match_suffix rules r = None"
      using "1.prems"(1) s Some z by (subst (asm) match_suffix.simps) simp
    then have "\<not> (r \<noteq> [] \<and> label_suffix k r)"
      using "1.IH" [OF _ Some z [symmetric]] s "1.prems"(2) by blast
    then show ?thesis using label_suffix_split [OF Some [unfolded z] \<open>k \<noteq> s\<close>] by simp
  qed
qed

section \<open>Orders\<close>

lemma mset_rotate_parts: "mset (drop n xs @ take n xs) = mset xs"
  by (metis append_take_drop_id mset_append union_commute)

text \<open>Every mode tries exactly the group's upstreams.\<close>

lemma group_ordered_perm:
  assumes "\<And>xs. mset (shuf xs) = mset xs"
  shows "mset (fst (group_ordered lat shuf g m)) = mset (upstreams g)"
proof (cases m)
  case LoadBalance
  let ?P = "\<lambda>u. latency_average (lat u) = None"
  have "mset (filter ?P xs) + mset (filter (\<lambda>x. \<not> ?P x) xs) = mset xs" for xs
    by (metis mset_filter multiset_partition)
  then show ?thesis using LoadBalance assms by (simp add: group_ordered_def Let_def)
qed (auto simp: group_ordered_def Let_def mset_rotate_parts simp del: mset_append)

lemma group_ordered_upstreams [simp]: "upstreams (snd (group_ordered lat shuf g m)) = upstreams g"
  by (cases m) (auto simp: group_ordered_def Let_def)

text \<open>Load balancing: untested upstreams first, then the tested ones from the fastest.\<close>

lemma group_ordered_balance:
  assumes "\<And>xs. mset (shuf xs) = mset xs"
  shows "\<exists>un te. fst (group_ordered lat shuf g LoadBalance) = un @ te \<and>
    (\<forall>u \<in> set un. latency_average (lat u) = None) \<and>
    (\<forall>u \<in> set te. latency_average (lat u) \<noteq> None) \<and>
    sorted_wrt (\<lambda>u v. the (latency_average (lat u)) \<le> the (latency_average (lat v))) te"
proof -
  let ?un = "shuf (filter (\<lambda>u. latency_average (lat u) = None) (upstreams g))"
  let ?te = "sort_key (\<lambda>u. latency_average (lat u)) (filter (\<lambda>u. latency_average (lat u) \<noteq> None) (upstreams g))"
  have "set ?un = set (filter (\<lambda>u. latency_average (lat u) = None) (upstreams g))"
    using assms by (metis set_mset_mset)
  moreover have "sorted_wrt (\<lambda>u v. latency_average (lat u) \<le> latency_average (lat v)) ?te"
    using sorted_sort_key [of "\<lambda>u. latency_average (lat u)"] by (simp add: sorted_map)
  then have "sorted_wrt (\<lambda>u v. the (latency_average (lat u)) \<le> the (latency_average (lat v))) ?te"
    by (rule sorted_wrt_mono_rel [rotated]) (auto simp: less_eq_option_def)
  moreover have "fst (group_ordered lat shuf g LoadBalance) = ?un @ ?te"
    by (simp add: group_ordered_def Let_def)
  ultimately show ?thesis by (intro exI [of _ ?un] exI [of _ ?te]) auto
qed

text \<open>Round robin: the upstreams that come first in successive queries.\<close>

fun rr_firsts ::
  "(nat \<Rightarrow> latency_tracker) \<Rightarrow> (nat list \<Rightarrow> nat list) \<Rightarrow> nat \<Rightarrow> group \<Rightarrow> nat list" where
  "rr_firsts lat shuf 0 g = []"
| "rr_firsts lat shuf (Suc k) g =
     (let (us, g') = group_ordered lat shuf g RoundRobin in hd us # rr_firsts lat shuf k g')"

lemma rr_firsts_nth:
  assumes "upstreams g \<noteq> []" "cursor g + k < 2 ^ 64"
  shows "rr_firsts lat shuf k g =
    map (\<lambda>j. upstreams g ! ((cursor g + j) mod length (upstreams g))) [0..<k]"
  using assms
proof (induction k arbitrary: g)
  case (Suc k)
  let ?n = "length (upstreams g)" and ?g = "g\<lparr>cursor := cursor g + 1\<rparr>"
  have "cursor g mod ?n < ?n" using Suc.prems(1) by simp
  then have hd: "hd (drop (cursor g mod ?n) (upstreams g) @ take (cursor g mod ?n) (upstreams g)) =
      upstreams g ! (cursor g mod ?n)"
    by (simp add: hd_append hd_drop_conv_nth)
  have o: "group_ordered lat shuf g RoundRobin =
      (drop (cursor g mod ?n) (upstreams g) @ take (cursor g mod ?n) (upstreams g), ?g)"
    using Suc.prems by (simp add: group_ordered_def Let_def)
  have "rr_firsts lat shuf k ?g = map (\<lambda>j. upstreams g ! ((cursor g + 1 + j) mod ?n)) [0..<k]"
    using Suc.IH [of ?g] Suc.prems by simp
  moreover have "[0..<Suc k] = 0 # map Suc [0..<k]"
    unfolding map_Suc_upt by (rule upt_conv_Cons) simp
  ultimately show ?case using o hd by (simp add: comp_def del: upt_Suc)
qed simp

text \<open>Over as many queries as there are upstreams, every upstream comes first once, in order.\<close>

lemma rr_firsts_rotate:
  assumes "upstreams g \<noteq> []" "cursor g + length (upstreams g) < 2 ^ 64"
  shows "rr_firsts lat shuf (length (upstreams g)) g = rotate (cursor g) (upstreams g)"
  using rr_firsts_nth [OF assms] by (intro nth_equalityI) (simp_all add: nth_rotate)

section \<open>Failover\<close>

lemma try_upstreams_ok:
  assumes "fut_value (try_upstreams W req none k is trs e) = Some (Ok resp, trs')"
    and "\<And>k. w_dns (W k) = L"
  shows "same_question L req resp"
  using assms(1)
proof (induction "is" arbitrary: k trs e)
  case (Cons i "is")
  obtain t r tr where t: "tracked_exchange (W k) (trs ! i) req = Ready t (r, tr)"
    using Cons.prems by (cases "tracked_exchange (W k) (trs ! i) req") auto
  show ?case
  proof (cases r)
    case (Ok x)
    then have "fut_value (tracked_exchange (W k) (trs ! i) req) = Some (Ok resp, tr)"
      using Cons.prems t by (simp add: Let_def)
    then show ?thesis using tracked_exchange_ok assms(2) by metis
  qed (use Cons t in \<open>auto simp: Let_def\<close>)
qed simp

definition fails :: "'h world \<Rightarrow> 'h tracked \<Rightarrow> message \<Rightarrow> doh_error \<Rightarrow> bool" where
  "fails W tr req e \<longleftrightarrow> (\<exists>tr'. fut_value (tracked_exchange W tr req) = Some (Err e, tr'))"

lemma try_upstreams_skip:
  assumes "fails (W k) (trs ! i) req e'"
  shows "\<exists>tr. fut_value (try_upstreams W req none k (i # is) trs e) =
    fut_value (try_upstreams W req none (Suc k) is (trs[i := tr]) (Some e'))"
proof -
  obtain t tr where "tracked_exchange (W k) (trs ! i) req = Ready t (Err e', tr)"
    using assms by (auto simp: fails_def fut_value_eq_Some)
  then show ?thesis by (auto simp: Let_def)
qed

text \<open>The first upstream that answers is the one whose answer is returned.\<close>

lemma try_upstreams_first:
  assumes "distinct (pre @ [i])"
    and "\<And>j. j < length pre \<Longrightarrow> \<exists>e. fails (W (k + j)) (trs ! (pre ! j)) req e"
    and "fut_value (tracked_exchange (W (k + length pre)) (trs ! i) req) = Some (Ok resp, tr')"
  shows "\<exists>trs'. fut_value (try_upstreams W req none k (pre @ i # post) trs e) = Some (Ok resp, trs')"
  using assms
proof (induction pre arbitrary: k trs e)
  case Nil
  then show ?case by (auto simp: Let_def fut_value_eq_Some)
next
  case (Cons p pre)
  obtain e' where "fails (W k) (trs ! p) req e'" using Cons.prems(2) [of 0] by auto
  then obtain tr where tr: "fut_value (try_upstreams W req none k (p # pre @ i # post) trs e) =
      fut_value (try_upstreams W req none (Suc k) (pre @ i # post) (trs[p := tr]) (Some e'))"
    using try_upstreams_skip by blast
  have "\<exists>e. fails (W (Suc k + j)) (trs[p := tr] ! (pre ! j)) req e" if "j < length pre" for j
  proof -
    have "pre ! j \<noteq> p" using Cons.prems(1) nth_mem [OF that] by auto
    then show ?thesis using Cons.prems(2) [of "Suc j"] that by simp
  qed
  moreover have "fut_value (tracked_exchange (W (Suc k + length pre)) (trs[p := tr] ! i) req) = Some (Ok resp, tr')"
    using Cons.prems(1,3) by auto
  ultimately show ?case using Cons.IH [of "Suc k" "trs[p := tr]" "Some e'"] Cons.prems(1) tr by simp
qed

text \<open>When all of them fail, the error of the last one is returned.\<close>

lemma try_upstreams_all_fail:
  assumes "distinct is" "length es = length is"
    and "\<And>j. j < length is \<Longrightarrow> fails (W (k + j)) (trs ! (is ! j)) req (es ! j)"
  shows "\<exists>trs'. fut_value (try_upstreams W req none k is trs e) =
    Some (Err (if es = [] then (case e of Some x \<Rightarrow> x | None \<Rightarrow> none) else last es), trs')"
  using assms
proof (induction "is" arbitrary: k trs e es)
  case (Cons i "is")
  then obtain e' es' where es: "es = e' # es'" by (cases es) auto
  have "fails (W k) (trs ! i) req e'" using Cons.prems(3) [of 0] es by simp
  then obtain tr where tr: "fut_value (try_upstreams W req none k (i # is) trs e) =
      fut_value (try_upstreams W req none (Suc k) is (trs[i := tr]) (Some e'))"
    using try_upstreams_skip by blast
  have "fails (W (Suc k + j)) (trs[i := tr] ! (is ! j)) req (es' ! j)" if "j < length is" for j
  proof -
    have "is ! j \<noteq> i" using Cons.prems(1) nth_mem [OF that] by auto
    then show ?thesis using Cons.prems(3) [of "Suc j"] that es by simp
  qed
  then show ?case using Cons.IH [of es' "Suc k" "trs[i := tr]" "Some e'"] Cons.prems(1,2) tr es by auto
qed auto

section \<open>Parsing a configuration\<close>

lemma read_lp_loop_no_panic: "read_lp_loop buf pos out \<noteq> Panic"
proof (induction buf pos out rule: read_lp_loop.induct)
  case (1 buf pos out)
  show ?case
    using 1 by (subst read_lp_loop.simps) (auto simp: Let_def)
qed

lemma parse_dnscrypt_stamp_no_panic: "parse_dnscrypt_stamp B addr \<noteq> Panic"
  by (auto simp: parse_dnscrypt_stamp_def res_simps read_lp_def read_lp_loop_no_panic split: list.splits if_splits)

lemma split_host_port_no_panic: "split_host_port rest \<noteq> Panic"
  by (auto simp: split_host_port_def parse_port_def res_simps split: option.splits sum.splits if_splits)

lemma parse_any_upstream_no_panic: "parse_any_upstream W addr opts \<noteq> Panic"
  by (auto simp: parse_any_upstream_def dnscrypt_new_def res_simps split_host_port_no_panic
      parse_dnscrypt_stamp_no_panic parse_upstream_no_panic split: option.splits prod.splits)

text \<open>
  The invariant of the parser: every index is in the store, every client in the index was built
  from its text, and a rule has at least one upstream.
\<close>

definition group_in :: "nat \<Rightarrow> group \<Rightarrow> bool" where
  "group_in n g \<longleftrightarrow> (\<forall>i \<in> set (upstreams g). i < n)"

definition rules_ok :: "nat \<Rightarrow> (string \<times> group) list \<Rightarrow> bool" where
  "rules_ok n ds \<longleftrightarrow> (\<forall>d g. map_of ds d = Some g \<longrightarrow> group_in n g \<and> upstreams g \<noteq> [])"

definition ps_ok :: "'h world \<Rightarrow> resolver options \<Rightarrow> 'h parse_state \<Rightarrow> bool" where
  "ps_ok W opts st \<longleftrightarrow>
     group_in (length (ps_store st)) (ps_default st) \<and>
     rules_ok (length (ps_store st)) (ps_domains st) \<and>
     (\<forall>tr \<in> set (ps_store st). \<exists>u b. parse_any_upstream W u opts = Ok b \<and> tr = tracked_new b) \<and>
     (\<forall>u i. map_of (ps_index st) u = Some i \<longrightarrow> i < length (ps_store st) \<and>
        (\<exists>b. parse_any_upstream W u opts = Ok b \<and> ps_store st ! i = tracked_new b))"

lemma group_in_push: "group_in n g \<Longrightarrow> i < n \<Longrightarrow> group_in n (group_push g i)"
  by (auto simp: group_in_def group_push_def)

lemma group_in_mono: "group_in n g \<Longrightarrow> n \<le> m \<Longrightarrow> group_in m g"
  by (auto simp: group_in_def)

lemma rules_ok_mono: "rules_ok n ds \<Longrightarrow> n \<le> m \<Longrightarrow> rules_ok m ds"
  unfolding rules_ok_def using group_in_mono by blast

lemma push_domain_ok:
  assumes "rules_ok n ds" "i < n"
  shows "rules_ok n (push_domain i dm ds)"
proof -
  have "group_in n (group_push (case map_of ds dm of Some g \<Rightarrow> g | None \<Rightarrow> group_default) i)"
    using assms by (auto simp: rules_ok_def group_default_def group_in_def group_push_def split: option.splits)
  moreover have "upstreams (group_push g i) \<noteq> []" for g by (simp add: group_push_def)
  ultimately show ?thesis using assms(1)
    by (simp add: rules_ok_def push_domain_def update_conv')
qed

lemma fold_push_domain_ok: "rules_ok n ds \<Longrightarrow> i < n \<Longrightarrow> rules_ok n (fold (push_domain i) dms ds)"
  by (induction dms arbitrary: ds) (simp_all add: push_domain_ok)

lemma push_upstream_ok: "ps_ok W opts st \<Longrightarrow> i < length (ps_store st) \<Longrightarrow> ps_ok W opts (push_upstream domains i st)"
  by (simp add: ps_ok_def push_upstream_def group_in_push fold_push_domain_ok)

lemma ps_ok_new:
  assumes "ps_ok W opts st" "parse_any_upstream W u opts = Ok b"
  shows "ps_ok W opts (st\<lparr>ps_store := ps_store st @ [tracked_new b],
    ps_index := AList.update u (length (ps_store st)) (ps_index st)\<rparr>)"
proof -
  have "group_in (Suc (length (ps_store st))) (ps_default st)" "rules_ok (Suc (length (ps_store st))) (ps_domains st)"
    using assms(1) group_in_mono rules_ok_mono by (auto simp: ps_ok_def)
  then show ?thesis
    using assms by (auto simp: ps_ok_def update_conv' nth_append less_Suc_eq)
qed

lemma parse_one_ok:
  assumes "ps_ok W opts st"
  shows "\<exists>st'. parse_one W opts idx domains u st = Ok st' \<and> ps_ok W opts st'"
proof (cases "map_of (ps_index st) u")
  case (Some i)
  then have "i < length (ps_store st)" using assms by (auto simp: ps_ok_def)
  then show ?thesis using assms Some by (simp add: parse_one_def push_upstream_ok)
next
  case None
  show ?thesis
  proof (cases "parse_any_upstream W u opts")
    case (Ok b)
    then show ?thesis using None ps_ok_new [OF assms Ok]
      by (auto simp: parse_one_def Let_def intro!: push_upstream_ok)
  next
    case (Err e)
    then show ?thesis using None assms by (simp add: parse_one_def ps_ok_def)
  qed (simp add: parse_any_upstream_no_panic)
qed

lemma parse_list_ok: "ps_ok W opts st \<Longrightarrow> \<exists>st'. parse_list W opts idx domains us st = Ok st' \<and> ps_ok W opts st'"
proof (induction us arbitrary: st)
  case (Cons u us)
  then show ?case using parse_one_ok [OF Cons.prems, of idx domains u] by (auto simp: res_simps)
qed simp

lemma split_config_line_no_panic: "split_config_line line \<noteq> Panic"
  by (auto simp: split_config_line_def split: option.splits)

lemma parse_line_ok: "ps_ok W opts st \<Longrightarrow> \<exists>st'. parse_line W opts idx line st = Ok st' \<and> ps_ok W opts st'"
  using parse_list_ok [of W opts st]
  by (auto simp: parse_line_def Let_def split_config_line_no_panic ps_ok_def split: res.splits)

lemma parse_lines_ok: "ps_ok W opts st \<Longrightarrow> \<exists>st'. parse_lines W opts idx ls st = Ok st' \<and> ps_ok W opts st'"
proof (induction ls arbitrary: idx st)
  case (Cons l ls)
  then show ?case using parse_line_ok [OF Cons.prems, of idx l] by (auto simp: res_simps)
qed simp

lemma parse_init_ok: "ps_ok W opts parse_init"
  by (simp add: ps_ok_def parse_init_def group_default_def group_in_def rules_ok_def)

definition config_ok :: "'h upstream_config \<Rightarrow> bool" where
  "config_ok cfg \<longleftrightarrow> group_in (length (store cfg)) (default_upstreams cfg) \<and>
     rules_ok (length (store cfg)) (domain_upstreams cfg)"

lemma parse_with_mode_total: "parse_with_mode W ls opts m \<noteq> Panic"
  using parse_lines_ok [OF parse_init_ok, of W opts 0 ls]
  by (auto simp: parse_with_mode_def split: if_splits)

lemma parse_with_mode_ok: "parse_with_mode W ls opts m = Ok cfg \<Longrightarrow> config_ok cfg"
  using parse_lines_ok [OF parse_init_ok, of W opts 0 ls]
  by (auto simp: parse_with_mode_def config_ok_def ps_ok_def split: if_splits)

lemma parse_with_mode_store:
  "parse_with_mode W ls opts m = Ok cfg \<Longrightarrow> tr \<in> set (store cfg) \<Longrightarrow>
   \<exists>u b. parse_any_upstream W u opts = Ok b \<and> tr = tracked_new b"
  using parse_lines_ok [OF parse_init_ok, of W opts 0 ls]
  by (auto simp: parse_with_mode_def ps_ok_def split: if_splits)

section \<open>Exchanges keep the invariant\<close>

lemma set_group_ok:
  assumes "config_ok cfg" "g = group_for cfg dname" "upstreams g' = upstreams g"
  shows "config_ok (set_group (group_key cfg dname) g' cfg)"
proof (cases "group_key cfg dname")
  case None
  then show ?thesis using assms by (simp add: config_ok_def set_group_def group_for_def group_in_def)
next
  case (Some k)
  then have "match_suffix (domain_upstreams cfg) (to_ascii_lowercase dname) = Some k"
    by (auto simp: group_key_def split: if_splits)
  then obtain h where h: "map_of (domain_upstreams cfg) k = Some h" using match_suffix_Some by blast
  then have "g = h" using Some assms(2) by (simp add: group_for_def)
  then have "group_in (length (store cfg)) g'" "upstreams g' \<noteq> []"
    using assms h by (auto simp: config_ok_def rules_ok_def group_in_def)
  then show ?thesis using assms(1) Some
    by (simp add: config_ok_def set_group_def rules_ok_def update_conv')
qed

lemma upstreams_for_ok:
  assumes "upstreams_for shuf cfg dname = (us, cfg')" "config_ok cfg" "\<And>xs. mset (shuf xs) = mset xs"
  shows "config_ok cfg' \<and> store cfg' = store cfg \<and> mset us = mset (upstreams (group_for cfg dname)) \<and>
    (\<forall>i \<in> set us. i < length (store cfg))"
proof -
  let ?o = "group_ordered (\<lambda>i. tr_latency (store cfg ! i)) shuf (group_for cfg dname) (mode cfg)"
  have u: "us = fst ?o" "cfg' = set_group (group_key cfg dname) (snd ?o) cfg"
    using assms(1) by (auto simp: upstreams_for_def Let_def split: prod.splits)
  have "config_ok cfg'" using set_group_ok [OF assms(2) refl, of "snd ?o" dname] u by simp
  moreover have "store cfg' = store cfg" by (simp add: u(2) set_group_def split: option.splits)
  moreover have m: "mset us = mset (upstreams (group_for cfg dname))"
    using group_ordered_perm [OF assms(3)] u(1) by simp
  moreover have "group_in (length (store cfg)) (group_for cfg dname)"
    using assms(2) by (auto simp: config_ok_def group_for_def rules_ok_def split: option.splits)
  ultimately show ?thesis by (metis group_in_def set_mset_mset)
qed

text \<open>A query moves at most the cursor of its rule: which upstreams each rule names stays.\<close>

lemma match_suffix_cong:
  assumes "\<And>k. map_of rules k = None \<longleftrightarrow> map_of rules' k = None"
  shows "match_suffix rules s = match_suffix rules' s"
proof (induction s rule: measure_induct_rule [of length])
  case (less s)
  show ?case
    using less split_once_length [of "''.''" s] assms [of s]
    by (subst (1 2) match_suffix.simps) (auto split: option.splits)
qed

lemma upstreams_for_rules:
  assumes "upstreams_for shuf cfg dname = (us, cfg')"
  shows "upstreams (group_for cfg' n) = upstreams (group_for cfg n)"
proof -
  let ?o = "group_ordered (\<lambda>i. tr_latency (store cfg ! i)) shuf (group_for cfg dname) (mode cfg)"
  have cfg': "cfg' = set_group (group_key cfg dname) (snd ?o) cfg"
    using assms by (auto simp: upstreams_for_def Let_def split: prod.splits)
  show ?thesis
  proof (cases "group_key cfg dname")
    case None
    then have "snd ?o = default_upstreams cfg \<or> upstreams (snd ?o) = upstreams (default_upstreams cfg)"
      by (simp add: group_for_def)
    then show ?thesis using None by (auto simp: cfg' set_group_def group_for_def group_key_def split: option.splits)
  next
    case (Some k)
    then have "match_suffix (domain_upstreams cfg) (to_ascii_lowercase dname) = Some k"
      by (auto simp: group_key_def split: if_splits)
    then obtain h where h: "map_of (domain_upstreams cfg) k = Some h" using match_suffix_Some by blast
    then have ups: "upstreams (snd ?o) = upstreams h" using Some by (simp add: group_for_def)
    have dom: "domain_upstreams cfg' = AList.update k (snd ?o) (domain_upstreams cfg)"
      by (simp add: cfg' set_group_def Some)
    have "map_of (domain_upstreams cfg') k' = None \<longleftrightarrow> map_of (domain_upstreams cfg) k' = None" for k'
      using h by (simp add: dom update_conv')
    then have "match_suffix (domain_upstreams cfg') s = match_suffix (domain_upstreams cfg) s" for s
      by (rule match_suffix_cong)
    moreover have "domain_upstreams cfg' \<noteq> []" "domain_upstreams cfg \<noteq> []" using h by (auto simp: dom)
    ultimately have key: "group_key cfg' n = group_key cfg n" by (simp add: group_key_def)
    have "default_upstreams cfg' = default_upstreams cfg" by (simp add: cfg' set_group_def Some)
    then show ?thesis using h ups by (auto simp: group_for_def key dom update_conv' split: option.splits)
  qed
qed

end
