(* ===== verification/Main_Args.thy ===== *)
theory Main_Args
  imports Listener_Setup Upstream_Config
begin

text \<open>
  \<open>main.rs\<close>: the arguments, the addresses they ask to listen on, the log, and the crypto provider. \<open>args\<close>
  is the structure that the argument parser fills in, with the defaults of the flags that are not
  given; \<open>args_accepted\<close> are the constraints between flags that the parser is told of.
\<close>

section \<open>Arguments\<close>

datatype upstream_mode_arg = ArgOrdered | ArgRoundRobin | ArgLoadBalance

fun mode_of_arg :: "upstream_mode_arg \<Rightarrow> upstream_mode" where
  "mode_of_arg ArgOrdered = Ordered"
| "mode_of_arg ArgRoundRobin = RoundRobin"
| "mode_of_arg ArgLoadBalance = LoadBalance"

record args =
  arg_listen :: "socket_addr list"
  arg_port :: "u16 option"
  arg_upstreams :: "string list"
  arg_upstream_file :: "string option"
  arg_timeout :: nat
  arg_upstream_mode :: upstream_mode_arg
  arg_bootstrap :: "string list"
  arg_insecure :: bool
  arg_prefer_ipv6 :: bool
  arg_http3 :: bool
  arg_verbose :: u8
  arg_log_level :: string
  arg_no_timestamp :: bool
  arg_cache :: bool
  arg_cache_size :: nat
  arg_cache_min_ttl :: nat
  arg_cache_max_ttl :: nat
  arg_private_upstream :: "string option"
  quic_listen :: "socket_addr list"
  quic_port :: "u16 option"
  tls_listen :: "socket_addr list"
  tls_port :: "u16 option"
  https_listen :: "socket_addr list"
  https_port :: "u16 option"
  listener_tls_cert :: "string option"
  listener_tls_key :: "string option"
  doh_auth :: "string list"
  doh_auth_file :: "string option"
  dnscrypt_listen :: "socket_addr list"
  dnscrypt_port :: "u16 option"
  dnscrypt_config :: "string option"
  dnscrypt_generate_config :: "string option"
  dnscrypt_provider_name :: "string option"

text \<open>The \<open>conflicts_with\<close> and \<open>requires\<close> of the flags: the parser ends the program when one of them is violated.\<close>

definition args_accepted :: "args \<Rightarrow> bool" where
  "args_accepted a \<longleftrightarrow>
     (arg_listen a = [] \<or> arg_port a = None) \<and>
     (quic_listen a = [] \<or> quic_port a = None) \<and>
     (tls_listen a = [] \<or> tls_port a = None) \<and>
     (https_listen a = [] \<or> https_port a = None) \<and>
     (listener_tls_cert a = None \<longleftrightarrow> listener_tls_key a = None) \<and>
     (dnscrypt_listen a = [] \<or> dnscrypt_port a = None) \<and>
     (dnscrypt_generate_config a = None \<or> dnscrypt_provider_name a \<noteq> None)"

section \<open>Addresses to listen on\<close>

definition wildcards :: "u16 \<Rightarrow> socket_addr list" where
  "wildcards port = [socket_addr_new v4_any port, socket_addr_new v6_any port]"

definition expand_listen :: "socket_addr list \<Rightarrow> u16 option \<Rightarrow> socket_addr list" where
  "expand_listen listen port = (case port of Some p \<Rightarrow> wildcards p | None \<Rightarrow> listen)"

definition secure_listener_enabled :: "args \<Rightarrow> bool" where
  "secure_listener_enabled a \<longleftrightarrow>
     (let quic = quic_listen a \<noteq> [] \<or> quic_port a \<noteq> None;
          tls = tls_listen a \<noteq> [] \<or> tls_port a \<noteq> None;
          https = https_listen a \<noteq> [] \<or> https_port a \<noteq> None;
          dnscrypt = dnscrypt_listen a \<noteq> [] \<or> dnscrypt_port a \<noteq> None
      in quic \<or> tls \<or> https \<or> dnscrypt)"

definition listen_addrs :: "args \<Rightarrow> socket_addr list" where
  "listen_addrs a =
     (case arg_port a of
        Some p \<Rightarrow> wildcards p
      | None \<Rightarrow>
          if arg_listen a \<noteq> [] then arg_listen a
          else if secure_listener_enabled a then []
          else [socket_addr_new (V4 127 0 0 1) 53])"

section \<open>The log and the crypto provider\<close>

definition muted :: "u8 \<Rightarrow> string list" where
  "muted verbose =
     (if verbose < 5 then [''quinn_proto::connection=warn''] else []) @
     (if verbose < 4
      then [''h2::proto=warn'', ''rustls::client=warn'', ''quinn_proto=warn'', ''rustls_platform_verifier=warn'']
      else []) @
     (if verbose < 3 then [''h2::codec=warn'', ''h2::hpack=warn'', ''h2::client=warn''] else []) @
     (if verbose < 2
      then [''hyper_util::client=warn'', ''hickory_proto=warn'', ''rustls=warn'', ''h2::frame=warn''] else []) @
     (if verbose < 1 then [''reqwest::connect=warn''] else [])"

text \<open>
  \<open>rust_log\<close> is the filter in the environment, when there is one that parses; \<open>journal\<close> whether the
  process runs under the journal. A second log or provider panics.
\<close>

definition init_log :: "string option \<Rightarrow> bool \<Rightarrow> u8 \<Rightarrow> string \<Rightarrow> bool \<Rightarrow> ('e, unit) startup" where
  "init_log rust_log journal verbose default_level no_timestamp p =
     (let f = (case rust_log of Some f \<Rightarrow> f | None \<Rightarrow> default_level);
          log = \<lparr>log_filter = f, log_directives = muted verbose, log_time = (\<not> (no_timestamp \<or> journal))\<rparr>
      in case log_installed p of
           None \<Rightarrow> (Ok (), p\<lparr>log_installed := Some log\<rparr>)
         | Some _ \<Rightarrow> (Panic, p))"

definition install_crypto_provider :: "('e, unit) startup" where
  "install_crypto_provider p =
     (if provider_installed p then (Panic, p) else (Ok (), p\<lparr>provider_installed := True\<rparr>))"

lemma init_log_ok:
  "init_log rust_log journal v lvl nt p = (Ok u, p') \<longleftrightarrow> log_installed p = None \<and>
     p' = p\<lparr>log_installed := Some \<lparr>log_filter = (case rust_log of Some f \<Rightarrow> f | None \<Rightarrow> lvl),
       log_directives = muted v, log_time = (\<not> nt \<and> \<not> journal)\<rparr>\<rparr>"
  by (auto simp: init_log_def Let_def split: option.splits)

lemma install_crypto_provider_ok:
  "install_crypto_provider p = (Ok u, p') \<longleftrightarrow> \<not> provider_installed p \<and> p' = p\<lparr>provider_installed := True\<rparr>"
  by (auto simp: install_crypto_provider_def)

text \<open>Every further \<open>-v\<close> only takes directives away, and from five on none is left.\<close>

lemma set_if_mono: "(d \<Longrightarrow> c) \<Longrightarrow> set (if d then xs else []) \<subseteq> set (if c then xs else [])"
  by auto

lemma muted_mono: "v \<le> w \<Longrightarrow> set (muted w) \<subseteq> set (muted v)"
  unfolding muted_def set_append by (intro Un_mono set_if_mono) (erule (1) le_less_trans)+

lemma muted_none: "muted v = [] \<longleftrightarrow> 5 \<le> v"
  by (auto simp: muted_def word_less_nat_alt word_le_nat_alt)

text \<open>The flags that the parser accepts name their addresses in one way.\<close>

lemma accepted_expand:
  assumes "args_accepted a"
  shows "set (expand_listen (quic_listen a) (quic_port a)) =
      set (quic_listen a) \<union> set (case quic_port a of Some p \<Rightarrow> wildcards p | None \<Rightarrow> [])"
    "set (expand_listen (tls_listen a) (tls_port a)) =
      set (tls_listen a) \<union> set (case tls_port a of Some p \<Rightarrow> wildcards p | None \<Rightarrow> [])"
    "set (expand_listen (https_listen a) (https_port a)) =
      set (https_listen a) \<union> set (case https_port a of Some p \<Rightarrow> wildcards p | None \<Rightarrow> [])"
    "set (expand_listen (dnscrypt_listen a) (dnscrypt_port a)) =
      set (dnscrypt_listen a) \<union> set (case dnscrypt_port a of Some p \<Rightarrow> wildcards p | None \<Rightarrow> [])"
  using assms by (auto simp: args_accepted_def expand_listen_def split: option.splits)

end
