(* ===== verification/Cache.thy ===== *)
theory Cache
  imports Wire
begin

text \<open>
  \<open>cache.rs\<close>: the TTL-aware response cache. The bounded map is the \<open>lru\<close> crate, a parameter
  \<open>K\<close> with the documented laws in the locale \<open>lru_cache\<close>; clock readings are arguments, in
  nanoseconds. \<open>into_handler\<close> holds the lock only inside \<open>get\<close> and \<open>put\<close>, so other requests run
  between its parts: the parts are the phases of a task, and the step relation of
  \<open>Cache_Tasks\<close> interleaves them.
\<close>

section \<open>State\<close>

record cache_options =
  opt_size :: nat
  opt_min_ttl :: duration
  opt_max_ttl :: "duration option"

record ckey =
  key_name :: name
  query_type :: record_type
  query_class :: u16
  key_dnssec_ok :: bool
  key_checking_disabled :: bool

record cache_entry =
  response :: message
  stored_at :: nat
  entry_ttl :: duration

text \<open>The \<open>lru\<close> crate: a cache \<open>'c\<close> from keys to values, updated in place.\<close>

record ('c, 'k, 'v) lru =
  lru_new :: "nat \<Rightarrow> 'c"
  lru_get :: "'c \<Rightarrow> 'k \<Rightarrow> 'v option \<times> 'c"
  lru_pop :: "'c \<Rightarrow> 'k \<Rightarrow> 'c"
  lru_put :: "'c \<Rightarrow> 'k \<Rightarrow> 'v \<Rightarrow> 'c"

type_synonym 'c entry_lru = "('c, ckey, cache_entry) lru"

record 'c cache =
  entries :: 'c
  min_ttl :: duration
  max_ttl :: "duration option"

text \<open>\<open>CacheKey\<close>'s derived equality: names compare without case.\<close>

definition key_eq :: "dnslib \<Rightarrow> ckey \<Rightarrow> ckey \<Rightarrow> bool" where
  "key_eq L j k \<longleftrightarrow> name_eq L (key_name j) (key_name k) \<and> query_type j = query_type k \<and>
     query_class j = query_class k \<and> key_dnssec_ok j = key_dnssec_ok k \<and>
     key_checking_disabled j = key_checking_disabled k"

section \<open>Operations\<close>

definition cache_new :: "'c entry_lru \<Rightarrow> cache_options \<Rightarrow> 'c cache" where
  "cache_new K opts =
     \<lparr>entries = lru_new K (opt_size opts), min_ttl = opt_min_ttl opts, max_ttl = opt_max_ttl opts\<rparr>"

definition cache_key :: "message \<Rightarrow> ckey option" where
  "cache_key req =
     (if length (queries req) \<noteq> 1 then None
      else let q = hd (queries req) in
        Some \<lparr>key_name = q_name q, query_type = q_type q, query_class = q_class q,
              key_dnssec_ok = (case edns req of Some e \<Rightarrow> dnssec_ok e | None \<Rightarrow> False),
              key_checking_disabled = checking_disabled req\<rparr>)"

definition cacheable_records :: "message \<Rightarrow> rr list" where
  "cacheable_records m =
     filter (\<lambda>r. record_type r \<noteq> RT_OPT) (answers m @ authorities m @ additionals m)"

text \<open>
  The loop over \<open>all_records_mut\<close> that writes one TTL into every record but the OPT
  pseudo-record.
\<close>

definition set_ttl :: "u32 \<Rightarrow> rr \<Rightarrow> rr" where
  "set_ttl t r = (if record_type r \<noteq> RT_OPT then r\<lparr>rr_ttl := t\<rparr> else r)"

definition set_all_ttls :: "u32 \<Rightarrow> message \<Rightarrow> message" where
  "set_all_ttls t m = m\<lparr>answers := map (set_ttl t) (answers m),
     authorities := map (set_ttl t) (authorities m),
     additionals := map (set_ttl t) (additionals m)\<rparr>"

fun list_min :: "'a::linorder list \<Rightarrow> 'a option" where
  "list_min [] = None"
| "list_min (x # xs) = Some (foldl min x xs)"

definition response_ttl :: "'c cache \<Rightarrow> message \<Rightarrow> duration option" where
  "response_ttl c resp =
     (case list_min (map rr_ttl (cacheable_records resp)) of
        None \<Rightarrow> None
      | Some min_rr_ttl \<Rightarrow>
          (let ttl = from_secs (unat min_rr_ttl);
               ttl = (if ttl < min_ttl c then min_ttl c else ttl)
           in Some (case max_ttl c of
                 Some mx \<Rightarrow> if mx < ttl then mx else ttl
               | None \<Rightarrow> ttl)))"

definition serve_entry :: "cache_entry \<Rightarrow> u16 \<Rightarrow> duration \<Rightarrow> message" where
  "serve_entry e i elapsed =
     (let remaining = (of_nat (as_secs (entry_ttl e - elapsed)) :: u32)
      in set_all_ttls remaining ((response e)\<lparr>msg_id := i\<rparr>))"

definition cache_get ::
  "'c entry_lru \<Rightarrow> 'c cache \<Rightarrow> ckey \<Rightarrow> u16 \<Rightarrow> nat \<Rightarrow> message option \<times> 'c cache" where
  "cache_get K c key i now' =
     (case lru_get K (entries c) key of
        (None, es) \<Rightarrow> (None, c\<lparr>entries := es\<rparr>)
      | (Some e, es) \<Rightarrow>
          (let elapsed = now' - stored_at e in
           if entry_ttl e \<le> elapsed then (None, c\<lparr>entries := lru_pop K es key\<rparr>)
           else (Some (serve_entry e i elapsed), c\<lparr>entries := es\<rparr>)))"

text \<open>\<open>insert\<close> reads the clock before it waits for the lock: the entry, then the \<open>put\<close>.\<close>

definition new_entry :: "'c cache \<Rightarrow> message \<Rightarrow> nat \<Rightarrow> cache_entry option" where
  "new_entry c resp now' =
     map_option (\<lambda>ttl. \<lparr>response = resp, stored_at = now', entry_ttl = ttl\<rparr>) (response_ttl c resp)"

definition put_entry :: "'c entry_lru \<Rightarrow> 'c cache \<Rightarrow> ckey \<Rightarrow> cache_entry \<Rightarrow> 'c cache" where
  "put_entry K c key e = c\<lparr>entries := lru_put K (entries c) key e\<rparr>"

definition cache_insert :: "'c entry_lru \<Rightarrow> 'c cache \<Rightarrow> ckey \<Rightarrow> message \<Rightarrow> nat \<Rightarrow> 'c cache" where
  "cache_insert K c key resp now' =
     (case new_entry c resp now' of None \<Rightarrow> c | Some e \<Rightarrow> put_entry K c key e)"

text \<open>
  The wrapped handler, with no other task between its parts: the answer and the cache afterwards.
\<close>

definition cache_into_handler ::
  "'c entry_lru \<Rightarrow> (message \<Rightarrow> message dfut) \<Rightarrow> 'c cache \<Rightarrow> nat \<Rightarrow> message \<Rightarrow>
   (message dres \<times> 'c cache) fut" where
  "cache_into_handler K handler c now' req =
     (case cache_key req of
        None \<Rightarrow> map_fut (\<lambda>r. (r, c)) (handler req)
      | Some key \<Rightarrow>
          (case cache_get K c key (msg_id req) now' of
             (Some resp, c') \<Rightarrow> now (Ok resp, c')
           | (None, c') \<Rightarrow>
               (case handler req of
                  Never \<Rightarrow> Never
                | Ready t (Ok resp) \<Rightarrow> Ready t (Ok resp, cache_insert K c' key resp (now' + t))
                | Ready t r \<Rightarrow> Ready t (r, c'))))"

section \<open>The contract of the bounded map\<close>

text \<open>
  Over the entries from the most to the least recently used: \<open>get\<close> finds the entry of an equal
  key and moves it to the front; \<open>pop\<close> removes it; \<open>put\<close> replaces the value of an equal key or
  adds one, dropping the least recently used entry of a full cache.
\<close>

fun promote :: "('k \<times> 'v \<Rightarrow> bool) \<Rightarrow> ('k \<times> 'v) list \<Rightarrow> ('k \<times> 'v) list" where
  "promote P xs = filter P xs @ filter (\<lambda>x. \<not> P x) xs"

locale lru_cache =
  fixes K :: "('c, 'k, 'v) lru" and keq :: "'k \<Rightarrow> 'k \<Rightarrow> bool"
    and recent :: "'c \<Rightarrow> ('k \<times> 'v) list" and cap :: "'c \<Rightarrow> nat"
  assumes new_recent: "recent (lru_new K n) = []"
    and new_cap: "cap (lru_new K n) = n"
    and get_value: "fst (lru_get K c k) = map_option snd (find (\<lambda>x. keq (fst x) k) (recent c))"
    and get_recent: "recent (snd (lru_get K c k)) = promote (\<lambda>x. keq (fst x) k) (recent c)"
    and get_cap: "cap (snd (lru_get K c k)) = cap c"
    and pop_recent: "recent (lru_pop K c k) = filter (\<lambda>x. \<not> keq (fst x) k) (recent c)"
    and pop_cap: "cap (lru_pop K c k) = cap c"
    and put_recent: "recent (lru_put K c k v) =
      (case find (\<lambda>x. keq (fst x) k) (recent c) of
         Some (k', _) \<Rightarrow> (k', v) # filter (\<lambda>x. \<not> keq (fst x) k) (recent c)
       | None \<Rightarrow> take (cap c) ((k, v) # recent c))"
    and put_cap: "cap (lru_put K c k v) = cap c"
begin

lemma set_get: "set (recent (snd (lru_get K c k))) = set (recent c)"
  by (auto simp: get_recent)

lemma set_pop: "set (recent (lru_pop K c k)) \<subseteq> set (recent c)"
  by (auto simp: pop_recent)

lemma get_SomeD:
  assumes "lru_get K c k = (Some v, c')"
  shows "\<exists>k'. (k', v) \<in> set (recent c) \<and> keq k' k"
proof -
  have "map_option snd (find (\<lambda>x. keq (fst x) k) (recent c)) = Some v"
    using get_value [of c k] assms by simp
  then obtain k' where "find (\<lambda>x. keq (fst x) k) (recent c) = Some (k', v)"
    by (auto simp: map_option_case split: option.splits)
  then show ?thesis using find_SomeD by fastforce
qed

text \<open>What a \<open>put\<close> adds is the value, under a key equal to the given one.\<close>

lemma set_put:
  assumes "(k', v') \<in> set (recent (lru_put K c k v))" and "\<And>j. keq j j"
  shows "(k', v') \<in> set (recent c) \<or> (v' = v \<and> keq k' k)"
proof (cases "find (\<lambda>x. keq (fst x) k) (recent c)")
  case None
  then show ?thesis using assms by (auto simp: put_recent dest: in_set_takeD)
next
  case (Some x)
  then show ?thesis using assms(1) find_SomeD [OF Some] by (cases x) (auto simp: put_recent)
qed

lemma length_put:
  assumes "length (recent c) \<le> cap c" and "\<And>j. keq j j"
  shows "length (recent (lru_put K c k v)) \<le> cap c"
proof (cases "find (\<lambda>x. keq (fst x) k) (recent c)")
  case (Some x)
  then have "x \<in> set (recent c)" "keq (fst x) k"
    by (auto simp: find_Some_iff)
  then have "length (filter (\<lambda>x. \<not> keq (fst x) k) (recent c)) < length (recent c)"
    by (metis length_filter_less)
  with Some assms show ?thesis by (cases x) (simp add: put_recent)
qed (simp add: put_recent)

lemma length_get: "length (recent (snd (lru_get K c k))) = length (recent c)"
  by (simp add: get_recent sum_length_filter_compl)

lemma length_pop: "length (recent (lru_pop K c k)) \<le> length (recent c)"
  by (simp add: pop_recent)

text \<open>A value just put is found again, as long as the cache has room for one entry.\<close>

lemma get_put:
  assumes "0 < cap c" and "keq k k" and sym: "\<And>j l. keq j l \<Longrightarrow> keq l j"
    and "\<And>i j l. keq i j \<Longrightarrow> keq j l \<Longrightarrow> keq i l" and "keq k k'"
  shows "fst (lru_get K (lru_put K c k v) k') = Some v"
proof -
  obtain n where n: "cap c = Suc n" using assms(1) by (cases "cap c") auto
  have "\<exists>k0 xs. recent (lru_put K c k v) = (k0, v) # xs \<and> keq k0 k"
    using assms(2) by (auto simp: put_recent n split: option.splits dest: find_SomeD)
  then show ?thesis using assms(4,5) by (auto simp: get_value)
qed

end

section \<open>Entries and lifetimes\<close>

lemma foldl_min_Min: "foldl min x xs = Min (insert x (set xs))" for x :: "'a::linorder"
proof (induction xs arbitrary: x)
  case (Cons y ys)
  then show ?case
    by (cases "ys = []") (auto simp: Min_insert min.assoc)
qed simp

lemma list_min_Some: "list_min xs = Some m \<longleftrightarrow> xs \<noteq> [] \<and> m = Min (set xs)"
  by (cases xs) (auto simp: foldl_min_Min)

lemma response_ttl_None_iff: "response_ttl c resp = None \<longleftrightarrow> cacheable_records resp = []"
  by (cases "cacheable_records resp") (auto simp: response_ttl_def Let_def)

lemma response_ttl_Some:
  "response_ttl c resp = Some t \<longleftrightarrow>
   cacheable_records resp \<noteq> [] \<and>
   (let m = max (from_secs (unat (Min (rr_ttl ` set (cacheable_records resp))))) (min_ttl c)
    in t = (case max_ttl c of None \<Rightarrow> m | Some x \<Rightarrow> min m x))"
proof (cases "list_min (map rr_ttl (cacheable_records resp))")
  case None
  then have "cacheable_records resp = []" by (cases "cacheable_records resp") auto
  then show ?thesis by (simp add: response_ttl_def)
next
  case (Some m)
  then have "cacheable_records resp \<noteq> []" "m = Min (rr_ttl ` set (cacheable_records resp))"
    by (auto simp: list_min_Some)
  with Some show ?thesis
    by (auto simp: response_ttl_def Let_def max_def min_def split: option.splits)
qed

lemma cacheable_set_all_ttls:
  "cacheable_records (set_all_ttls t m) = map (\<lambda>r. r\<lparr>rr_ttl := t\<rparr>) (cacheable_records m)"
proof -
  have "filter (\<lambda>r. record_type r \<noteq> RT_OPT) (map (set_ttl t) rs) =
        map (\<lambda>r. r\<lparr>rr_ttl := t\<rparr>) (filter (\<lambda>r. record_type r \<noteq> RT_OPT) rs)" for rs
    by (induction rs) (auto simp: set_ttl_def)
  then show ?thesis by (simp add: cacheable_records_def set_all_ttls_def)
qed

lemma serve_entry_id [simp]: "msg_id (serve_entry e i d) = i"
  by (simp add: serve_entry_def set_all_ttls_def Let_def)

lemma serve_entry_queries [simp]: "queries (serve_entry e i d) = queries (response e)"
  by (simp add: serve_entry_def set_all_ttls_def Let_def)

lemma serve_entry_ttls:
  "r \<in> set (cacheable_records (serve_entry e i d)) \<Longrightarrow> rr_ttl r = of_nat (as_secs (entry_ttl e - d))"
  by (auto simp: serve_entry_def Let_def cacheable_set_all_ttls)

lemma cache_key_Some:
  "cache_key req = Some k \<longleftrightarrow>
   (\<exists>q. queries req = [q] \<and> k = \<lparr>key_name = q_name q, query_type = q_type q, query_class = q_class q,
      key_dnssec_ok = (case edns req of Some e \<Rightarrow> dnssec_ok e | None \<Rightarrow> False),
      key_checking_disabled = checking_disabled req\<rparr>)"
  by (auto simp: cache_key_def Let_def length_Suc_conv)

context dns_names
begin

lemma key_eq_refl: "key_eq L k k"
  by (simp add: key_eq_def eq_refl)

lemma key_eq_sym: "key_eq L j k \<Longrightarrow> key_eq L k j"
  by (simp add: key_eq_def eq_sym)

lemma key_eq_trans: "key_eq L i j \<Longrightarrow> key_eq L j k \<Longrightarrow> key_eq L i k"
  by (auto simp: key_eq_def intro: eq_trans)

text \<open>Requests with equal keys ask the same question.\<close>

lemma same_key_question:
  assumes "cache_key req = Some k" "cache_key req' = Some k'" "key_eq L k' k"
    and "same_question L req' resp"
  shows "same_question L req resp"
proof -
  obtain q q' where q: "queries req = [q]" "queries req' = [q']" "q_type q' = q_type q"
      "name_eq L (q_name q') (q_name q)"
    using assms(1-3) by (auto simp: cache_key_Some key_eq_def)
  moreover have "eq_ignore_root L (q_name q) n" if "eq_ignore_root L (q_name q') n" for n
    using that eq_root [OF eq_sym [OF q(4)]] by (rule root_trans [rotated])
  ultimately show ?thesis using assms(4) by (auto simp: same_question_def split: list.splits)
qed

end

end
