(* ===== verification/Reference.thy ===== *)
theory Reference
  imports Cache
begin

text \<open>
  Concrete implementations of the contracts that stand for third-party code: the unpadded
  URL-safe base64 of RFC 4648, a bounded least-recently-used list, and the RFC 1035 wire format
  of messages that consist of a header and one question. They show that the laws the development
  assumes can hold together, and the witnesses run on them. They are no models of the crates.
\<close>

section \<open>Base64\<close>

definition b64_char :: "nat \<Rightarrow> char" where
  "b64_char i = (if i < 26 then char_of (65 + i) else if i < 52 then char_of (71 + i)
     else if i < 62 then char_of (i - 4) else if i = 62 then CHR ''-'' else CHR ''_'')"

definition b64_val :: "char \<Rightarrow> nat option" where
  "b64_val c = (let n = (of_char c :: nat) in
     if 65 \<le> n \<and> n \<le> 90 then Some (n - 65) else if 97 \<le> n \<and> n \<le> 122 then Some (n - 71)
     else if 48 \<le> n \<and> n \<le> 57 then Some (n + 4) else if c = CHR ''-'' then Some 62
     else if c = CHR ''_'' then Some 63 else None)"

fun b64_sextets :: "bytes \<Rightarrow> nat list" where
  "b64_sextets [] = []"
| "b64_sextets [a] = [unat a div 4, unat a mod 4 * 16]"
| "b64_sextets [a, b] = [unat a div 4, unat a mod 4 * 16 + unat b div 16, unat b mod 16 * 4]"
| "b64_sextets (a # b # c # r) =
     unat a div 4 # (unat a mod 4 * 16 + unat b div 16) # (unat b mod 16 * 4 + unat c div 64) #
     unat c mod 64 # b64_sextets r"

fun b64_octets :: "nat list \<Rightarrow> bytes option" where
  "b64_octets [] = Some []"
| "b64_octets [w] = None"
| "b64_octets [w, x] = (if x mod 16 = 0 then Some [of_nat (w * 4 + x div 16)] else None)"
| "b64_octets [w, x, y] =
     (if y mod 4 = 0 then Some [of_nat (w * 4 + x div 16), of_nat (x mod 16 * 16 + y div 4)] else None)"
| "b64_octets (w # x # y # z # r) = map_option
     (\<lambda>t. of_nat (w * 4 + x div 16) # of_nat (x mod 16 * 16 + y div 4) # of_nat (y mod 4 * 64 + z) # t)
     (b64_octets r)"

definition ref_base64 :: base64 where
  "ref_base64 = \<lparr>
     b64_encode = (\<lambda>bs. map b64_char (b64_sextets bs)),
     b64_decode = (\<lambda>s. case Option.bind (those (map b64_val s)) b64_octets of
        Some bs \<Rightarrow> Inr bs | None \<Rightarrow> Inl ''Invalid symbol'')\<rparr>"

lemma b64_val_char: "i < 64 \<Longrightarrow> b64_val (b64_char i) = Some i"
proof -
  assume "i < 64"
  then consider "i < 26" | "26 \<le> i" "i < 52" | "52 \<le> i" "i < 62" | "i = 62" | "i = 63" by linarith
  then show ?thesis by cases (auto simp: b64_val_def b64_char_def Let_def)
qed

lemma url_safe_b64_char: "url_safe (b64_char i)"
  by (auto simp: url_safe_def b64_char_def Let_def)

lemma unat_byte: "unat (b :: u8) < 256"
  using unsigned_less [where 'a = nat, of b] by simp

lemma b64_sextets_bound: "v \<in> set (b64_sextets bs) \<Longrightarrow> v < 64"
proof (induction bs rule: b64_sextets.induct)
  case (2 a)
  then show ?case using unat_byte [of a] by (auto simp: less_mult_imp_div_less)
next
  case (3 a b)
  then show ?case using unat_byte [of a] unat_byte [of b] by auto
next
  case (4 a b c r)
  then show ?case using unat_byte [of a] unat_byte [of b] unat_byte [of c] by auto
qed simp

lemma sextet_octet:
  fixes a b :: u8
  shows "of_nat (unat a div 4 * 4 + (unat a mod 4 * 16 + unat b div 16) div 16) = a"
    and "of_nat ((unat a mod 4 * 16 + unat b div 16) mod 16 * 16 + (unat b mod 16 * 4 + k div 64) div 4) =
      (of_nat (unat b + k div 64 div 4) :: u8)"
    and "of_nat ((unat a mod 16 * 4 + unat b div 64) mod 4 * 64 + unat b mod 64) = b"
proof -
  have b: "unat b div 16 < 16" "unat b div 64 < 4" using unat_byte [of b] by auto
  have "(unat a mod 4 * 16 + unat b div 16) div 16 = unat a mod 4"
    using b by simp
  then have "unat a div 4 * 4 + (unat a mod 4 * 16 + unat b div 16) div 16 = unat a"
    by simp
  then show "of_nat (unat a div 4 * 4 + (unat a mod 4 * 16 + unat b div 16) div 16) = a"
    by (simp only: of_nat_unat ucast_id)
  have "(unat a mod 4 * 16 + unat b div 16) mod 16 = unat b div 16"
    using b by simp
  moreover have "(unat b mod 16 * 4 + k div 64) div 4 = unat b mod 16 + k div 64 div 4" by simp
  ultimately have "(unat a mod 4 * 16 + unat b div 16) mod 16 * 16 + (unat b mod 16 * 4 + k div 64) div 4
      = unat b + k div 64 div 4"
    by simp
  then show "of_nat ((unat a mod 4 * 16 + unat b div 16) mod 16 * 16 + (unat b mod 16 * 4 + k div 64) div 4) =
      (of_nat (unat b + k div 64 div 4) :: u8)" by simp
  have "(unat a mod 16 * 4 + unat b div 64) mod 4 = unat b div 64" using b by simp
  then have "(unat a mod 16 * 4 + unat b div 64) mod 4 * 64 + unat b mod 64 = unat b" by simp
  then show "of_nat ((unat a mod 16 * 4 + unat b div 64) mod 4 * 64 + unat b mod 64) = b"
    by (simp only: of_nat_unat ucast_id)
qed

lemma b64_octets_sextets: "b64_octets (b64_sextets bs) = Some bs"
proof (induction bs rule: b64_sextets.induct)
  case (2 a)
  then show ?case using sextet_octet(1) [of a 0] by simp
next
  case (3 a b)
  then show ?case using sextet_octet(1) [of a b] sextet_octet(2) [of a b 0] by simp
next
  case (4 a b c r)
  have "unat c div 64 div 4 = 0" using unat_byte [of c] by auto
  then show ?case
    using 4 sextet_octet(1) [of a b] sextet_octet(2) [of a b "unat c"] sextet_octet(3) [of b c] by simp
qed simp

lemma those_map_Some: "(\<And>x. x \<in> set xs \<Longrightarrow> f x = Some (g x)) \<Longrightarrow> those (map f xs) = Some (map g xs)"
  by (induction xs) auto

interpretation ref_b64: base64_engine ref_base64
proof
  fix bs :: bytes
  have "those (map b64_val (map b64_char (b64_sextets bs))) = Some (b64_sextets bs)"
    using those_map_Some [of "b64_sextets bs" "b64_val \<circ> b64_char" "\<lambda>x. x"]
    by (simp add: b64_val_char b64_sextets_bound)
  then show "b64_decode ref_base64 (b64_encode ref_base64 bs) = Inr bs"
    by (simp add: ref_base64_def b64_octets_sextets)
next
  fix c bs
  assume "c \<in> set (b64_encode ref_base64 bs)"
  then show "url_safe c" by (auto simp: ref_base64_def url_safe_b64_char)
qed

section \<open>A bounded list, most recently used first\<close>

definition ref_lru :: "('k \<Rightarrow> 'k \<Rightarrow> bool) \<Rightarrow> (nat \<times> ('k \<times> 'v) list, 'k, 'v) lru" where
  "ref_lru keq = \<lparr>
     lru_new = (\<lambda>n. (n, [])),
     lru_get = (\<lambda>(n, xs) k. (map_option snd (find (\<lambda>x. keq (fst x) k) xs),
                              (n, promote (\<lambda>x. keq (fst x) k) xs))),
     lru_pop = (\<lambda>(n, xs) k. (n, filter (\<lambda>x. \<not> keq (fst x) k) xs)),
     lru_put = (\<lambda>(n, xs) k v. (n, case find (\<lambda>x. keq (fst x) k) xs of
         Some (k', _) \<Rightarrow> (k', v) # filter (\<lambda>x. \<not> keq (fst x) k) xs
       | None \<Rightarrow> take n ((k, v) # xs)))\<rparr>"

interpretation ref_lru: lru_cache "ref_lru keq" keq snd fst for keq :: "'k \<Rightarrow> 'k \<Rightarrow> bool"
  by unfold_locales (auto simp: ref_lru_def split: prod.splits option.splits)

section \<open>Messages of one question\<close>

definition flag :: "bool \<Rightarrow> u16 \<Rightarrow> u16" where
  "flag b w = (if b then w else 0)"

definition pack_flags :: "message \<Rightarrow> u16" where
  "pack_flags m = header_rest m OR flag (message_type m = Response) 0x8000 OR
     flag (truncation m) 0x0200 OR flag (recursion_desired m) 0x0100 OR flag (checking_disabled m) 0x0010"

fun pack_labels :: "bytes list \<Rightarrow> bytes" where
  "pack_labels [] = [0]"
| "pack_labels (l # ls) = of_nat (length l) # l @ pack_labels ls"

fun unpack_labels :: "bytes \<Rightarrow> (bytes list \<times> bytes) option" where
  "unpack_labels [] = None"
| "unpack_labels (n # r) =
     (if n = 0 then Some ([], r)
      else if 63 < unat n \<or> length r < unat n then None
      else map_option (\<lambda>(ls, r'). (take (unat n) r # ls, r')) (unpack_labels (drop (unat n) r)))"

definition ref_to_bytes :: "message \<Rightarrow> proto_error + bytes" where
  "ref_to_bytes m =
     (case queries m of
        [q] \<Rightarrow> Inr (u16_to_be_bytes (msg_id m) @ u16_to_be_bytes (pack_flags m) @
                   [0, 1, 0, 0, 0, 0, 0, 0] @ pack_labels (labels (q_name q)) @
                   u16_to_be_bytes (q_type q) @ u16_to_be_bytes (q_class q))
      | _ \<Rightarrow> Inl ''unsupported'')"

definition unpack_header :: "u16 \<Rightarrow> u16 \<Rightarrow> query \<Rightarrow> message" where
  "unpack_header i w q = \<lparr>msg_id = i, message_type = (if bit w 15 then Response else Query),
     truncation = bit w 9, checking_disabled = bit w 4, recursion_desired = bit w 8,
     header_rest = w AND 0x7CEF, queries = [q], answers = [], authorities = [], additionals = [],
     edns = None\<rparr>"

definition ref_from_bytes :: "bytes \<Rightarrow> proto_error + message" where
  "ref_from_bytes b =
     (case b of
        i1 # i2 # f1 # f2 # q1 # q2 # a1 # a2 # n1 # n2 # r1 # r2 # body \<Rightarrow>
          if [q1, q2, a1, a2, n1, n2, r1, r2] \<noteq> [0, 1, 0, 0, 0, 0, 0, 0] then Inl ''unsupported''
          else (case unpack_labels body of
              Some (ls, [t1, t2, c1, c2]) \<Rightarrow>
                Inr (unpack_header (u16_from_be_bytes i1 i2) (u16_from_be_bytes f1 f2)
                  \<lparr>q_name = Name ls True, q_type = u16_from_be_bytes t1 t2,
                   q_class = u16_from_be_bytes c1 c2\<rparr>)
            | _ \<Rightarrow> Inl ''unexpected end of input'')
      | _ \<Rightarrow> Inl ''unexpected end of input'')"

definition lower_byte :: "u8 \<Rightarrow> u8" where
  "lower_byte b = (if 65 \<le> b \<and> b \<le> 90 then b + 32 else b)"

definition lower_labels :: "name \<Rightarrow> bytes list" where
  "lower_labels n = map (map lower_byte) (labels n)"

definition ref_name_from_ascii :: "string \<Rightarrow> proto_error + name" where
  "ref_name_from_ascii s =
     (let parts = split_on CHR ''.'' s;
          rooted = (1 < length parts \<and> last parts = []);
          parts = (if rooted then butlast parts else parts)
      in if s = ''.'' then Inr (Name [] True)
         else if [] \<in> set parts then Inl ''Malformed label''
         else Inr (Name (map bytes_of_string parts) rooted))"

definition ref_dns :: dnslib where
  "ref_dns = \<lparr>
     to_bytes = ref_to_bytes, from_bytes = ref_from_bytes,
     truncate_msg = (\<lambda>m. m\<lparr>truncation := True, answers := [], authorities := [], additionals := []\<rparr>),
     name_eq = (\<lambda>n m. lower_labels n = lower_labels m \<and> fqdn n = fqdn m),
     eq_ignore_root = (\<lambda>n m. lower_labels n = lower_labels m),
     name_to_ascii = (\<lambda>n. join_with ''.'' (map string_of_bytes (labels n)) @ (if fqdn n then ''.'' else [])),
     name_from_ascii = ref_name_from_ascii,
     message_new = (\<lambda>i t. \<lparr>msg_id = i, message_type = t, truncation = False, checking_disabled = False,
       recursion_desired = False, header_rest = 0, queries = [], answers = [], authorities = [],
       additionals = [], edns = None\<rparr>),
     query_new = (\<lambda>n t. \<lparr>q_name = n, q_type = t, q_class = 1\<rparr>),
     record_from_rdata = (\<lambda>n t d. \<lparr>rr_name = n, rr_ttl = t, rr_class = 1, rr_data = d\<rparr>)\<rparr>"

definition good_label :: "bytes \<Rightarrow> bool" where
  "good_label l \<longleftrightarrow> 0 < length l \<and> length l \<le> 63"

definition ref_good :: "message \<Rightarrow> bool" where
  "ref_good m \<longleftrightarrow>
     (\<exists>q. queries m = [q] \<and> fqdn (q_name q) \<and> (\<forall>l \<in> set (labels (q_name q)). good_label l)) \<and>
     answers m = [] \<and> authorities m = [] \<and> additionals m = [] \<and> edns m = None \<and>
     header_rest m AND 0x7CEF = header_rest m"

lemma unpack_pack_labels:
  "\<forall>l \<in> set ls. good_label l \<Longrightarrow> unpack_labels (pack_labels ls @ r) = Some (ls, r)"
proof (induction ls)
  case (Cons l ls)
  then have l: "0 < length l" "length l \<le> 63" by (auto simp: good_label_def)
  then have "unat (of_nat (length l) :: u8) = length l"
    by (simp add: unat_of_nat take_bit_nat_eq_self)
  moreover from this l have "(of_nat (length l) :: u8) \<noteq> 0" by (metis less_numeral_extra(3) unat_0)
  ultimately show ?case using Cons l by simp
qed simp

lemma unpack_labels_good: "unpack_labels b = Some (ls, r) \<Longrightarrow> l \<in> set ls \<Longrightarrow> good_label l"
proof (induction b arbitrary: ls r rule: unpack_labels.induct)
  case (2 n b)
  then show ?case
    by (auto simp: good_label_def unat_eq_zero split: if_splits)
qed simp

lemma bit_flag_masks:
  "w AND 0x7CEF = w \<Longrightarrow> \<not> bit w 15 \<and> \<not> bit w 9 \<and> \<not> bit w 8 \<and> \<not> bit w 4" for w :: u16
proof -
  assume w: "w AND 0x7CEF = w"
  have "bit w n \<longleftrightarrow> bit w n \<and> bit (0x7CEF :: u16) n" for n
    by (metis w bit_and_iff)
  from this [of 15] this [of 9] this [of 8] this [of 4] show ?thesis by simp
qed

lemma unpack_pack_flags:
  assumes "header_rest m AND 0x7CEF = header_rest m" "queries m = [q]" "answers m = []"
    "authorities m = []" "additionals m = []" "edns m = None"
  shows "unpack_header (msg_id m) (pack_flags m) q = m"
proof -
  have "pack_flags m AND 0x7CEF = header_rest m"
    using assms(1) by (simp add: pack_flags_def flag_def bit.conj_disj_distrib2)
  moreover have "bit (pack_flags m) 15 = (message_type m = Response)" "bit (pack_flags m) 9 = truncation m"
    "bit (pack_flags m) 8 = recursion_desired m" "bit (pack_flags m) 4 = checking_disabled m"
    using bit_flag_masks [OF assms(1)] by (simp_all add: pack_flags_def flag_def bit_or_iff)
  ultimately show ?thesis using assms(2-)
    by (cases "message_type m") (simp_all add: unpack_header_def)
qed

interpretation ref_dns: dns_codec ref_dns ref_good
proof
  fix m assume m: "ref_good m"
  then obtain q where q: "queries m = [q]" "fqdn (q_name q)" "\<forall>l \<in> set (labels (q_name q)). good_label l"
    by (auto simp: ref_good_def)
  have [simp]: "Name (labels (q_name q)) True = q_name q" using q(2) by (cases "q_name q") simp
  have [simp]: "\<lparr>q_name = q_name q, q_type = q_type q, q_class = q_class q\<rparr> = q" by simp
  have "unpack_header (msg_id m) (pack_flags m) q = m"
    using m q(1) by (intro unpack_pack_flags) (auto simp: ref_good_def)
  then show "\<exists>b. to_bytes ref_dns m = Inr b \<and> from_bytes ref_dns b = Inr m"
    using q unpack_pack_labels [OF q(3)]
    by (simp add: ref_dns_def ref_to_bytes_def ref_from_bytes_def u16_to_be_bytes_def
        u16_from_to_be_bytes [unfolded u16_to_be_bytes_def])
qed (auto simp: ref_dns_def ref_from_bytes_def ref_good_def unpack_header_def unpack_labels_good
    split: list.splits if_splits option.splits)

interpretation ref_dns: dns_builder ref_dns
  by unfold_locales (simp_all add: ref_dns_def)

interpretation ref_dns: dns_names ref_dns
  by unfold_locales (auto simp: ref_dns_def)

text \<open>
  The same library with one more message it can carry, of any contents and with any id, as three
  bytes that no other message is coded as.
\<close>

definition ref_dns_with :: "message \<Rightarrow> dnslib" where
  "ref_dns_with a = ref_dns\<lparr>
     to_bytes := (\<lambda>m. if m\<lparr>msg_id := 0\<rparr> = a\<lparr>msg_id := 0\<rparr> then Inr (1 # u16_to_be_bytes (msg_id m)) else ref_to_bytes m),
     from_bytes := (\<lambda>b. case b of [_, x, y] \<Rightarrow> Inr (a\<lparr>msg_id := u16_from_be_bytes x y\<rparr>) | _ \<Rightarrow> ref_from_bytes b)\<rparr>"

definition ref_good_with :: "message \<Rightarrow> message \<Rightarrow> bool" where
  "ref_good_with a m \<longleftrightarrow> ref_good m \<or> m\<lparr>msg_id := 0\<rparr> = a\<lparr>msg_id := 0\<rparr>"

lemma ref_to_bytes_long: "ref_to_bytes m = Inr b \<Longrightarrow> 12 \<le> length b"
  by (auto simp: ref_to_bytes_def split: list.splits if_splits)

lemma same_but_id: "m\<lparr>msg_id := 0\<rparr> = a\<lparr>msg_id := 0\<rparr> \<Longrightarrow> a\<lparr>msg_id := msg_id m\<rparr> = m" for m a :: message
  by (cases m; cases a) simp

interpretation ref_dns_with: dns_codec "ref_dns_with a" "ref_good_with a" for a
proof
  fix m assume m: "ref_good_with a m"
  show "\<exists>b. to_bytes (ref_dns_with a) m = Inr b \<and> from_bytes (ref_dns_with a) b = Inr m"
  proof (cases "m\<lparr>msg_id := 0\<rparr> = a\<lparr>msg_id := 0\<rparr>")
    case True
    then show ?thesis
      using same_but_id [OF True] u16_from_to_be_bytes [of "msg_id m"]
      by (simp add: ref_dns_with_def u16_to_be_bytes_def)
  next
    case False
    then obtain b where b: "ref_to_bytes m = Inr b" "ref_from_bytes b = Inr m"
      using m ref_dns.wire_roundtrip [of m] by (auto simp: ref_good_with_def ref_dns_def)
    then show ?thesis
      using False ref_to_bytes_long [OF b(1)] by (auto simp: ref_dns_with_def split: list.splits)
  qed
next
  fix b m assume "from_bytes (ref_dns_with a) b = Inr m"
  then show "ref_good_with a m"
    using ref_dns.decoded_good [of b m]
    by (auto simp: ref_dns_with_def ref_good_with_def ref_dns_def split: list.splits)
next
  fix m i assume "ref_good_with a m"
  then show "ref_good_with a (m\<lparr>msg_id := i\<rparr>)"
    using ref_dns.good_id [of m i] by (auto simp: ref_good_with_def)
qed

interpretation ref_dns_with: dns_builder "ref_dns_with a" for a
  by unfold_locales (simp_all add: ref_dns_with_def ref_dns_def)

interpretation ref_dns_with: dns_names "ref_dns_with a" for a
  by unfold_locales (auto simp: ref_dns_with_def ref_dns_def)

section \<open>Example messages\<close>

definition ex_name :: name where
  "ex_name = Name [bytes_of_string ''www'', bytes_of_string ''test''] True"

definition ex_query :: message where
  "ex_query = \<lparr>msg_id = 7, message_type = Query, truncation = False, checking_disabled = False,
     recursion_desired = True, header_rest = 0,
     queries = [\<lparr>q_name = ex_name, q_type = RT_A, q_class = 1\<rparr>],
     answers = [], authorities = [], additionals = [], edns = None\<rparr>"

text \<open>A reply without records, which the wire format above carries.\<close>

definition ex_reply :: message where
  "ex_reply = ex_query\<lparr>message_type := Response\<rparr>"

end
