(* ===== verification/Cache_Tasks.thy ===== *)
theory Cache_Tasks
  imports Cache Reference
begin

text \<open>
  The cache under concurrent requests. Each call of the handler that \<open>Cache::into_handler\<close>
  returns is a task; it gives up control at the three awaits of its body (the lock inside
  \<open>get\<close>, the wrapped handler, the lock inside \<open>insert\<close>), so the parts between them are the
  atomic steps. A state holds the clock, the cache, the tasks, and the list of the wrapped
  handler's answers, which no step reads.
\<close>

section \<open>Tasks and their steps\<close>

datatype phase =
  Started
| Forwarding "ckey option"
| Storing ckey cache_entry message
| Finished "message dres"

record 'c server =
  clock :: nat
  srv_cache :: "'c cache"
  tasks :: "(message \<times> phase) list"
  answered :: "(message \<times> message \<times> nat) list"

text \<open>From the start to the wrapped handler, or to a hit.\<close>

definition look_up :: "'c entry_lru \<Rightarrow> 'c cache \<Rightarrow> nat \<Rightarrow> message \<Rightarrow> phase \<times> 'c cache" where
  "look_up K c now' req =
     (case cache_key req of
        None \<Rightarrow> (Forwarding None, c)
      | Some key \<Rightarrow>
          (case cache_get K c key (msg_id req) now' of
             (Some resp, c') \<Rightarrow> (Finished (Ok resp), c')
           | (None, c') \<Rightarrow> (Forwarding (Some key), c')))"

text \<open>From the handler's answer to the lock of \<open>insert\<close>, or to the end.\<close>

definition take_answer :: "'c cache \<Rightarrow> nat \<Rightarrow> ckey option \<Rightarrow> message dres \<Rightarrow> phase" where
  "take_answer c now' key r =
     (case (key, r) of
        (Some k, Ok resp) \<Rightarrow>
          (case new_entry c resp now' of
             None \<Rightarrow> Finished (Ok resp)
           | Some e \<Rightarrow> Storing k e resp)
      | _ \<Rightarrow> Finished r)"

definition log_answer :: "message \<Rightarrow> message dres \<Rightarrow> nat \<Rightarrow> (message \<times> message \<times> nat) list" where
  "log_answer req r now' = (case r of Ok resp \<Rightarrow> [(req, resp, now')] | _ \<Rightarrow> [])"

inductive srv_step :: "'c entry_lru \<Rightarrow> 'c server \<Rightarrow> 'c server \<Rightarrow> bool" for K where
  tick: "srv_step K s (s\<lparr>clock := clock s + d\<rparr>)"
| arrive: "srv_step K s (s\<lparr>tasks := tasks s @ [(req, Started)]\<rparr>)"
| look: "\<lbrakk>i < length (tasks s); tasks s ! i = (req, Started);
    look_up K (srv_cache s) (clock s) req = (ph, c)\<rbrakk> \<Longrightarrow>
    srv_step K s (s\<lparr>srv_cache := c, tasks := (tasks s)[i := (req, ph)]\<rparr>)"
| answer: "\<lbrakk>i < length (tasks s); tasks s ! i = (req, Forwarding key)\<rbrakk> \<Longrightarrow>
    srv_step K s (s\<lparr>tasks := (tasks s)[i := (req, take_answer (srv_cache s) (clock s) key r)],
      answered := log_answer req r (clock s) @ answered s\<rparr>)"
| store: "\<lbrakk>i < length (tasks s); tasks s ! i = (req, Storing key e resp)\<rbrakk> \<Longrightarrow>
    srv_step K s (s\<lparr>srv_cache := put_entry K (srv_cache s) key e,
      tasks := (tasks s)[i := (req, Finished (Ok resp))]\<rparr>)"

definition srv_init :: "'c entry_lru \<Rightarrow> cache_options \<Rightarrow> nat \<Rightarrow> 'c server" where
  "srv_init K opts t = \<lparr>clock = t, srv_cache = cache_new K opts, tasks = [], answered = []\<rparr>"

definition srv_reachable :: "'c entry_lru \<Rightarrow> cache_options \<Rightarrow> 'c server \<Rightarrow> bool" where
  "srv_reachable K opts s \<longleftrightarrow> (\<exists>t. (srv_step K)\<^sup>*\<^sup>* (srv_init K opts t) s)"

inductive_cases srv_stepE: "srv_step K s s'"

section \<open>The sequential handler is the phases run without a break\<close>

definition finish_store :: "'c entry_lru \<Rightarrow> 'c cache \<Rightarrow> phase \<Rightarrow> message dres \<times> 'c cache" where
  "finish_store K c ph =
     (case ph of
        Storing k e resp \<Rightarrow> (Ok resp, put_entry K c k e)
      | Finished r \<Rightarrow> (r, c)
      | _ \<Rightarrow> (Panic, c))"

lemma cache_into_handler_phases:
  "cache_into_handler K handler c t req =
   (case look_up K c t req of
      (Forwarding key, c') \<Rightarrow>
        (case handler req of
           Never \<Rightarrow> Never
         | Ready d r \<Rightarrow> Ready d (finish_store K c' (take_answer c' (t + d) key r)))
    | (ph, c') \<Rightarrow> now (finish_store K c' ph))"
  by (auto simp: cache_into_handler_def look_up_def take_answer_def finish_store_def cache_insert_def
      split: option.splits prod.splits fut.splits res.splits)

section \<open>What a stored entry and a served answer are\<close>

text \<open>
  An entry under key \<open>k\<close> is an answer the wrapped handler gave, at the entry's time, to a request
  with an equal key, kept for the lifetime \<open>response_ttl\<close> gives it.
\<close>

definition entry_ok ::
  "dnslib \<Rightarrow> 'c cache \<Rightarrow> (message \<times> message \<times> nat) list \<Rightarrow> ckey \<Rightarrow> cache_entry \<Rightarrow> bool" where
  "entry_ok L c log k e \<longleftrightarrow>
     (\<exists>req k'. (req, response e, stored_at e) \<in> set log \<and> cache_key req = Some k' \<and> key_eq L k' k) \<and>
     response_ttl c (response e) = Some (entry_ttl e)"

text \<open>
  A served answer is the handler's own answer to the request, or an unexpired entry of an equal
  key with the request's id and the remaining lifetime as every TTL.
\<close>

definition served_ok ::
  "dnslib \<Rightarrow> 'c cache \<Rightarrow> (message \<times> message \<times> nat) list \<Rightarrow> nat \<Rightarrow> message \<Rightarrow> message \<Rightarrow> bool" where
  "served_ok L c log t req resp \<longleftrightarrow>
     (\<exists>t'. (req, resp, t') \<in> set log) \<or>
     (\<exists>k e t'. cache_key req = Some k \<and> entry_ok L c log k e \<and> t' \<le> t \<and>
        t' - stored_at e < entry_ttl e \<and> resp = serve_entry e (msg_id req) (t' - stored_at e))"

fun phase_ok ::
  "dnslib \<Rightarrow> 'c cache \<Rightarrow> (message \<times> message \<times> nat) list \<Rightarrow> nat \<Rightarrow> message \<Rightarrow> phase \<Rightarrow> bool" where
  "phase_ok L c log t req Started = True"
| "phase_ok L c log t req (Forwarding key) = (cache_key req = key)"
| "phase_ok L c log t req (Storing key e resp) =
     (cache_key req = Some key \<and> entry_ok L c log key e \<and> (\<exists>t'. (req, resp, t') \<in> set log))"
| "phase_ok L c log t req (Finished r) = (\<forall>resp. r = Ok resp \<longrightarrow> served_ok L c log t req resp)"

text \<open>The invariant, over the entries \<open>recent\<close> and the capacity \<open>cap\<close> of the bounded map.\<close>

definition srv_inv ::
  "dnslib \<Rightarrow> ('c \<Rightarrow> (ckey \<times> cache_entry) list) \<Rightarrow> ('c \<Rightarrow> nat) \<Rightarrow> cache_options \<Rightarrow> 'c server \<Rightarrow> bool" where
  "srv_inv L recent cap opts s \<longleftrightarrow>
     min_ttl (srv_cache s) = opt_min_ttl opts \<and> max_ttl (srv_cache s) = opt_max_ttl opts \<and>
     cap (entries (srv_cache s)) = opt_size opts \<and>
     length (recent (entries (srv_cache s))) \<le> opt_size opts \<and>
     (\<forall>(k, e) \<in> set (recent (entries (srv_cache s))). entry_ok L (srv_cache s) (answered s) k e) \<and>
     (\<forall>(req, ph) \<in> set (tasks s). phase_ok L (srv_cache s) (answered s) (clock s) req ph)"

locale dns_cache = dns_names L + lru_cache K "key_eq L" recent cap
  for L :: dnslib and K :: "'c entry_lru" and recent :: "'c \<Rightarrow> (ckey \<times> cache_entry) list"
    and cap :: "'c \<Rightarrow> nat"
begin

lemma entry_ok_key: "entry_ok L c log k e \<Longrightarrow> key_eq L k k' \<Longrightarrow> entry_ok L c log k' e"
  unfolding entry_ok_def by (meson key_eq_trans)

lemma response_ttl_cong:
  "min_ttl c = min_ttl c' \<Longrightarrow> max_ttl c = max_ttl c' \<Longrightarrow> response_ttl c m = response_ttl c' m"
  by (simp add: response_ttl_def Let_def split: option.split)

text \<open>Growing the log, advancing the clock and replacing the entries keep what is established.\<close>

lemma entry_ok_mono:
  assumes "entry_ok L c log k e" "set log \<subseteq> set log'" "min_ttl c = min_ttl c'" "max_ttl c = max_ttl c'"
  shows "entry_ok L c' log' k e"
  using assms response_ttl_cong [of c c'] unfolding entry_ok_def by auto

lemma served_ok_mono:
  assumes "served_ok L c log t req resp" "set log \<subseteq> set log'" "t \<le> t'"
    "min_ttl c = min_ttl c'" "max_ttl c = max_ttl c'"
  shows "served_ok L c' log' t' req resp"
  using assms(1) unfolding served_ok_def
proof (elim disjE exE conjE)
  fix k e u
  assume "cache_key req = Some k" "entry_ok L c log k e" "u \<le> t" "u - stored_at e < entry_ttl e"
    "resp = serve_entry e (msg_id req) (u - stored_at e)"
  then show "(\<exists>t'. (req, resp, t') \<in> set log') \<or> (\<exists>k e u. cache_key req = Some k \<and> entry_ok L c' log' k e \<and>
      u \<le> t' \<and> u - stored_at e < entry_ttl e \<and> resp = serve_entry e (msg_id req) (u - stored_at e))"
    using assms(3) entry_ok_mono [OF _ assms(2,4,5)]
    by (intro disjI2 exI [of _ k] exI [of _ e] exI [of _ u]) auto
qed (use assms(2) in blast)

lemma phase_ok_mono:
  assumes "phase_ok L c log t req ph" "set log \<subseteq> set log'" "t \<le> t'"
    "min_ttl c = min_ttl c'" "max_ttl c = max_ttl c'"
  shows "phase_ok L c' log' t' req ph"
  using assms entry_ok_mono [OF _ assms(2,4,5)] served_ok_mono [OF _ assms(2-)]
  by (cases ph) auto

lemma phases_mono:
  assumes "\<forall>(req, ph) \<in> set ts. phase_ok L c log t req ph" "set log \<subseteq> set log'" "t \<le> t'"
    "min_ttl c = min_ttl c'" "max_ttl c = max_ttl c'" "phase_ok L c' log' t' req ph"
  shows "\<forall>(req, ph) \<in> set (ts[i := (req, ph)]). phase_ok L c' log' t' req ph"
  using assms(1,6) phase_ok_mono [OF _ assms(2-5)] set_update_subset_insert [of ts i "(req, ph)"]
  by fastforce

lemma cache_get_entries:
  assumes "cache_get K c key i t = (r, c')"
  shows "min_ttl c' = min_ttl c" "max_ttl c' = max_ttl c" "cap (entries c') = cap (entries c)"
    "set (recent (entries c')) \<subseteq> set (recent (entries c))"
    "length (recent (entries c')) \<le> length (recent (entries c))"
  using assms set_get [of "entries c" key] set_pop [of "snd (lru_get K (entries c) key)" key]
    length_get [of "entries c" key] length_pop [of "snd (lru_get K (entries c) key)" key]
    get_cap [of "entries c" key] pop_cap [of "snd (lru_get K (entries c) key)" key]
  by (auto simp: cache_get_def Let_def split: prod.splits option.splits if_splits)

lemma cache_get_hit:
  assumes "cache_get K c key i t = (Some resp, c')"
  shows "\<exists>k e. (k, e) \<in> set (recent (entries c)) \<and> key_eq L k key \<and> t - stored_at e < entry_ttl e \<and>
    resp = serve_entry e i (t - stored_at e)"
proof -
  obtain e es where "lru_get K (entries c) key = (Some e, es)" "t - stored_at e < entry_ttl e"
      "resp = serve_entry e i (t - stored_at e)"
    using assms by (auto simp: cache_get_def Let_def split: prod.splits option.splits if_splits)
  then show ?thesis using get_SomeD by blast
qed

lemma cache_get_hit_answer:
  assumes "cache_get K c key i t = (Some resp, c')"
  shows "\<exists>k e. (k, e) \<in> set (recent (entries c)) \<and> key_eq L k key \<and> t - stored_at e < entry_ttl e \<and>
    msg_id resp = i \<and> queries resp = queries (response e) \<and>
    (\<forall>r \<in> set (cacheable_records resp). rr_ttl r = of_nat (as_secs (entry_ttl e - (t - stored_at e))))"
proof -
  from cache_get_hit [OF assms] obtain k e where e: "(k, e) \<in> set (recent (entries c))" "key_eq L k key"
      "t - stored_at e < entry_ttl e" and resp: "resp = serve_entry e i (t - stored_at e)"
    by blast
  then show ?thesis
    by (intro exI [of _ k] exI [of _ e]) (simp add: serve_entry_ttls)
qed

text \<open>After a miss, absent or expired, no entry of an equal key is left.\<close>

lemma cache_get_miss:
  assumes "cache_get K c key i t = (None, c')"
  shows "\<forall>(k, e) \<in> set (recent (entries c')). \<not> key_eq L k key"
proof (cases "lru_get K (entries c) key")
  case (Pair r es)
  show ?thesis
  proof (cases r)
    case None
    then have "find (\<lambda>x. key_eq L (fst x) key) (recent (entries c)) = None"
      using Pair get_value [of "entries c" key] by simp
    moreover have "c' = c\<lparr>entries := es\<rparr>" "set (recent es) = set (recent (entries c))"
      using None Pair assms set_get [of "entries c" key] by (auto simp: cache_get_def)
    ultimately show ?thesis by (auto simp: find_None_iff)
  next
    case (Some e)
    then have "c' = c\<lparr>entries := lru_pop K es key\<rparr>"
      using Pair assms by (auto simp: cache_get_def Let_def split: if_splits)
    then show ?thesis by (auto simp: pop_recent)
  qed
qed

lemma cache_get_served:
  assumes "\<forall>(k, e) \<in> set (recent (entries c)). entry_ok L c log k e"
    and "cache_key req = Some key" "cache_get K c key (msg_id req) t = (Some resp, c')"
  shows "served_ok L c log t req resp"
  using cache_get_hit [OF assms(3)] assms(1,2) entry_ok_key unfolding served_ok_def
  by (metis (no_types, lifting) case_prodD order_refl)

lemma look_up_ok:
  assumes "\<forall>(k, e) \<in> set (recent (entries c)). entry_ok L c log k e"
    and "look_up K c t req = (ph, c')"
  shows "phase_ok L c log t req ph"
  using assms cache_get_served [OF assms(1)]
  by (auto simp: look_up_def split: option.splits prod.splits)

lemma look_up_entries:
  assumes "look_up K c t req = (ph, c')"
  shows "min_ttl c' = min_ttl c" "max_ttl c' = max_ttl c" "cap (entries c') = cap (entries c)"
    "set (recent (entries c')) \<subseteq> set (recent (entries c))"
    "length (recent (entries c')) \<le> length (recent (entries c))"
  using assms cache_get_entries [of c]
  by (auto simp: look_up_def split: option.splits prod.splits)

lemma take_answer_ok:
  assumes "cache_key req = key"
  shows "phase_ok L c (log_answer req r t @ log) t req (take_answer c t key r)"
  using assms key_eq_refl
  by (auto simp: take_answer_def log_answer_def new_entry_def served_ok_def entry_ok_def
      split: option.splits res.splits)

lemma put_entry_entries:
  assumes "\<forall>(k, e) \<in> set (recent (entries c)). entry_ok L c log k e" "entry_ok L c log key e"
    and "(k', e') \<in> set (recent (entries (put_entry K c key e)))"
  shows "entry_ok L (put_entry K c key e) log k' e'"
proof -
  have "entry_ok L c log k' e'"
    using set_put [of k' e' "entries c" key e] assms key_eq_refl entry_ok_key key_eq_sym
    by (fastforce simp: put_entry_def)
  then show ?thesis by (rule entry_ok_mono) (simp_all add: put_entry_def)
qed

lemma srv_inv_init: "srv_inv L recent cap opts (srv_init K opts t)"
  by (simp add: srv_inv_def srv_init_def cache_new_def new_cap new_recent)

lemma srv_inv_look:
  assumes inv: "srv_inv L recent cap opts s" and i: "tasks s ! i = (req, Started)"
    and look: "look_up K (srv_cache s) (clock s) req = (ph, c)"
  shows "srv_inv L recent cap opts (s\<lparr>srv_cache := c, tasks := (tasks s)[i := (req, ph)]\<rparr>)"
proof -
  note c = look_up_entries [OF look]
  have es: "\<forall>(k, e) \<in> set (recent (entries (srv_cache s))). entry_ok L (srv_cache s) (answered s) k e"
    and ts: "\<forall>(req, ph) \<in> set (tasks s). phase_ok L (srv_cache s) (answered s) (clock s) req ph"
    using inv by (auto simp: srv_inv_def)
  have "phase_ok L c (answered s) (clock s) req ph"
    using look_up_ok [OF es look] by (rule phase_ok_mono) (use c in auto)
  then have "\<forall>(req, ph) \<in> set ((tasks s)[i := (req, ph)]). phase_ok L c (answered s) (clock s) req ph"
    by (intro phases_mono [OF ts]) (use c in auto)
  moreover have "\<forall>(k, e) \<in> set (recent (entries c)). entry_ok L c (answered s) k e"
    using es c entry_ok_mono [where c = "srv_cache s" and c' = c] by fastforce
  ultimately show ?thesis using inv c by (auto simp: srv_inv_def)
qed

lemma srv_inv_answer:
  assumes inv: "srv_inv L recent cap opts s" and i: "i < length (tasks s)" "tasks s ! i = (req, Forwarding key)"
  shows "srv_inv L recent cap opts
    (s\<lparr>tasks := (tasks s)[i := (req, take_answer (srv_cache s) (clock s) key r)],
       answered := log_answer req r (clock s) @ answered s\<rparr>)"
proof -
  have ts: "\<forall>(req, ph) \<in> set (tasks s). phase_ok L (srv_cache s) (answered s) (clock s) req ph"
    using inv by (auto simp: srv_inv_def)
  have "(req, Forwarding key) \<in> set (tasks s)" using i by (metis nth_mem)
  then have "cache_key req = key" using ts by auto
  note take_answer_ok [OF this, of "srv_cache s" r "clock s" "answered s"]
  then have "\<forall>(q, ph) \<in> set ((tasks s)[i := (req, take_answer (srv_cache s) (clock s) key r)]).
      phase_ok L (srv_cache s) (log_answer req r (clock s) @ answered s) (clock s) q ph"
    by (intro phases_mono [OF ts]) auto
  moreover have "\<forall>(k, e) \<in> set (recent (entries (srv_cache s))).
      entry_ok L (srv_cache s) (log_answer req r (clock s) @ answered s) k e"
    using inv by (auto simp: srv_inv_def intro: entry_ok_mono [where c = "srv_cache s" and log = "answered s"])
  ultimately show ?thesis using inv by (auto simp: srv_inv_def)
qed

lemma srv_inv_store:
  assumes inv: "srv_inv L recent cap opts s"
    and i: "i < length (tasks s)" "tasks s ! i = (req, Storing key e resp)"
  shows "srv_inv L recent cap opts (s\<lparr>srv_cache := put_entry K (srv_cache s) key e,
    tasks := (tasks s)[i := (req, Finished (Ok resp))]\<rparr>)"
proof -
  let ?c = "put_entry K (srv_cache s) key e"
  have ts: "\<forall>(req, ph) \<in> set (tasks s). phase_ok L (srv_cache s) (answered s) (clock s) req ph"
    and es: "\<forall>(k, e) \<in> set (recent (entries (srv_cache s))). entry_ok L (srv_cache s) (answered s) k e"
    using inv by (auto simp: srv_inv_def)
  have "(req, Storing key e resp) \<in> set (tasks s)" using i by (metis nth_mem)
  with ts have e: "entry_ok L (srv_cache s) (answered s) key e" and a: "\<exists>t. (req, resp, t) \<in> set (answered s)"
    by auto
  have "phase_ok L ?c (answered s) (clock s) req (Finished (Ok resp))"
    using a by (auto simp: served_ok_def)
  then have "\<forall>(req, ph) \<in> set ((tasks s)[i := (req, Finished (Ok resp))]).
      phase_ok L ?c (answered s) (clock s) req ph"
    by (intro phases_mono [OF ts]) (auto simp: put_entry_def)
  moreover have "\<forall>(k, e) \<in> set (recent (entries ?c)). entry_ok L ?c (answered s) k e"
    using put_entry_entries [OF es e] by auto
  moreover have "length (recent (entries ?c)) \<le> opt_size opts"
    using inv length_put [of "entries (srv_cache s)" key e] key_eq_refl
    by (auto simp: srv_inv_def put_entry_def)
  ultimately show ?thesis using inv
    by (simp add: srv_inv_def put_entry_def put_cap)
qed

lemma srv_inv_step:
  assumes "srv_inv L recent cap opts s" "srv_step K s s'"
  shows "srv_inv L recent cap opts s'"
  using assms(2)
proof cases
  case (tick d)
  have "phase_ok L (srv_cache s) (answered s) (clock s + d) req ph"
    if "(req, ph) \<in> set (tasks s)" for req ph
    by (rule phase_ok_mono [where c = "srv_cache s" and log = "answered s" and t = "clock s"])
      (use assms(1) that in \<open>auto simp: srv_inv_def\<close>)
  then show ?thesis using assms(1) tick by (auto simp: srv_inv_def)
next
  case (arrive req)
  then show ?thesis using assms(1) by (auto simp: srv_inv_def)
next
  case look
  then show ?thesis using srv_inv_look [OF assms(1)] by blast
next
  case answer
  then show ?thesis using srv_inv_answer [OF assms(1)] by blast
next
  case store
  then show ?thesis using srv_inv_store [OF assms(1)] by blast
qed

lemma srv_inv_reachable: "srv_reachable K opts s \<Longrightarrow> srv_inv L recent cap opts s"
  unfolding srv_reachable_def
  by (auto elim!: rtranclp_induct intro: srv_inv_init srv_inv_step)

text \<open>Every served answer is the handler's own or a fresh entry of an equal question.\<close>

lemma finished_served:
  assumes "srv_reachable K opts s" "(req, Finished (Ok resp)) \<in> set (tasks s)"
  shows "served_ok L (srv_cache s) (answered s) (clock s) req resp"
  using srv_inv_reachable [OF assms(1)] assms(2) by (fastforce simp: srv_inv_def)

lemma finished_same_question:
  assumes "srv_reachable K opts s" "(req, Finished (Ok resp)) \<in> set (tasks s)"
    and handler: "\<And>req resp t. (req, resp, t) \<in> set (answered s) \<Longrightarrow> same_question L req resp"
  shows "same_question L req resp"
  using finished_served [OF assms(1,2)] unfolding served_ok_def
proof (elim disjE exE conjE)
  fix k e t'
  assume k: "cache_key req = Some k" and e: "entry_ok L (srv_cache s) (answered s) k e"
    and resp: "resp = serve_entry e (msg_id req) (t' - stored_at e)"
  then obtain req' k' where "(req', response e, stored_at e) \<in> set (answered s)"
      "cache_key req' = Some k'" "key_eq L k' k"
    by (auto simp: entry_ok_def)
  then have "same_question L req (response e)"
    using same_key_question k handler by blast
  then show ?thesis using resp by (simp add: same_question_def)
qed (use handler in blast)

lemma capacity: "srv_reachable K opts s \<Longrightarrow> length (recent (entries (srv_cache s))) \<le> opt_size opts"
  using srv_inv_reachable by (auto simp: srv_inv_def)

text \<open>An entry just inserted is the one a later request with an equal key gets.\<close>

lemma get_insert:
  assumes "0 < cap (entries c)" "key_eq L key key'" "response_ttl c resp = Some ttl"
    and "t \<le> t'" "t' - t < ttl"
  shows "fst (cache_get K (cache_insert K c key resp t) key' i t') =
    Some (serve_entry \<lparr>response = resp, stored_at = t, entry_ttl = ttl\<rparr> i (t' - t))"
proof -
  let ?e = "\<lparr>response = resp, stored_at = t, entry_ttl = ttl\<rparr>"
  have "fst (lru_get K (lru_put K (entries c) key ?e) key') = Some ?e"
    by (rule get_put [OF assms(1) key_eq_refl key_eq_sym key_eq_trans assms(2)])
  then show ?thesis using assms(3-)
    by (auto simp: cache_get_def cache_insert_def new_entry_def put_entry_def Let_def
        split: prod.splits option.splits)
qed

text \<open>The handler is asked once: a repeated question is answered at once from the entry.\<close>

lemma handler_repeat:
  assumes first: "cache_into_handler K h c t req = Ready d (Ok resp, c')"
    and keys: "cache_key req = Some key" "cache_key req' = Some key'" "key_eq L key key'"
    and miss: "fst (cache_get K c key (msg_id req) t) = None"
    and ttl: "response_ttl c resp = Some ttl" "t + d \<le> t'" "t' - (t + d) < ttl" "0 < cap (entries c)"
  shows "map_fut fst (cache_into_handler K h' c' t' req') =
    now (Ok (serve_entry \<lparr>response = resp, stored_at = t + d, entry_ttl = ttl\<rparr> (msg_id req') (t' - (t + d))))"
proof -
  obtain c0 where get: "cache_get K c key (msg_id req) t = (None, c0)"
    using miss by (cases "cache_get K c key (msg_id req) t") auto
  note c0 = cache_get_entries [OF get]
  have c': "c' = cache_insert K c0 key resp (t + d)"
    using first keys(1) get by (auto simp: cache_into_handler_def split: fut.splits res.splits)
  have "response_ttl c0 resp = Some ttl"
    using ttl(1) response_ttl_cong [of c0 c] c0 by simp
  then have "fst (cache_get K c' key' (msg_id req') t') = Some (serve_entry
      \<lparr>response = resp, stored_at = t + d, entry_ttl = ttl\<rparr> (msg_id req') (t' - (t + d)))"
    unfolding c' using ttl keys c0 by (intro get_insert) auto
  then show ?thesis using keys(2)
    by (auto simp: cache_into_handler_def split: prod.splits option.splits)
qed

end

interpretation ref_cache: dns_cache ref_dns "ref_lru (key_eq ref_dns)" snd fst
  by unfold_locales

end
