(* ===== verification/Dnscrypt_Config.thy ===== *)
theory Dnscrypt_Config
  imports Dnscrypt_Stamp Reference
begin

text \<open>
  \<open>client/dnscrypt/config.rs\<close>: the key file of a DNSCrypt resolver. The file system is a parameter:
  \<open>write\<close> gives the error of writing a text to a path, \<open>read\<close> the text or the error of reading
  one. \<open>B\<close> is the base64 engine \<open>STANDARD\<close>, with padding. A \<open>SigningKey\<close> and a \<open>SecretKey\<close> are
  their 32 bytes.
\<close>

section \<open>Operations\<close>

definition KEY_PROVIDER_NAME :: string where
  "KEY_PROVIDER_NAME = ''provider_name''"

definition KEY_PROVIDER_SIGNING_KEY :: string where
  "KEY_PROVIDER_SIGNING_KEY = ''provider_signing_key''"

definition KEY_RESOLVER_SECRET_KEY :: string where
  "KEY_RESOLVER_SECRET_KEY = ''resolver_secret_key''"

abbreviation line_feed :: char where
  "line_feed \<equiv> char_of (10 :: nat)"

definition config_line :: "string \<Rightarrow> string \<Rightarrow> string" where
  "config_line key value = key @ '' = '' @ value @ [line_feed]"

definition config_text :: "base64 \<Rightarrow> resolver_config \<Rightarrow> string" where
  "config_text B config =
     config_line KEY_PROVIDER_NAME (rc_provider_name config) @
     config_line KEY_PROVIDER_SIGNING_KEY (b64_encode B (provider_signing_key config)) @
     config_line KEY_RESOLVER_SECRET_KEY (b64_encode B (resolver_secret_key config))"

definition config_save ::
  "base64 \<Rightarrow> (string \<Rightarrow> string \<Rightarrow> string option) \<Rightarrow> string \<Rightarrow> resolver_config \<Rightarrow> unit sres" where
  "config_save B write path config =
     (case write path (config_text B config) of
        None \<Rightarrow> Ok ()
      | Some e \<Rightarrow> Err [Lit ''writing '', Disp path, Lit '': '', Disp e])"

text \<open>\<open>decode_signing_key\<close> and \<open>decode_secret_key\<close>, which differ in the type they wrap the bytes in.\<close>

definition decode_key :: "base64 \<Rightarrow> string \<Rightarrow> bytes sres" where
  "decode_key B value =
     res_bind (lift_sum (\<lambda>e. [Lit ''invalid base64: '', Disp e]) (b64_decode B value)) (\<lambda>bytes.
     if length bytes \<noteq> 32 then Err [Lit ''expected 32 bytes, got '', Num (length bytes)] else Ok bytes)"

text \<open>The three local variables of \<open>load\<close>.\<close>

record load_state =
  ls_provider_name :: "string option"
  ls_signing_key :: "bytes option"
  ls_secret_key :: "bytes option"

definition load_init :: load_state where
  "load_init = \<lparr>ls_provider_name = None, ls_signing_key = None, ls_secret_key = None\<rparr>"

abbreviation at_line :: "string \<Rightarrow> nat \<Rightarrow> msg" where
  "at_line path idx \<equiv> [Disp path, Lit '':'', Num (idx + 1)]"

definition load_line :: "base64 \<Rightarrow> string \<Rightarrow> nat \<Rightarrow> string \<Rightarrow> load_state \<Rightarrow> load_state sres" where
  "load_line B path idx raw st =
     (let line = trim raw in
      if line = [] \<or> starts_with ''#'' line then Ok st
      else
        res_bind (ok_or (at_line path idx @ [Lit '': expected \"key = value\"'']) (split_once ''='' line))
          (\<lambda>(k, v).
          let key = trim k; value = trim v in
          if key = KEY_PROVIDER_NAME then Ok (st\<lparr>ls_provider_name := Some value\<rparr>)
          else if key = KEY_PROVIDER_SIGNING_KEY then
            res_bind (map_err (\<lambda>e. at_line path idx @ [Lit '': '', Lit KEY_PROVIDER_SIGNING_KEY, Lit '': ''] @ e)
                (decode_key B value)) (\<lambda>b. Ok (st\<lparr>ls_signing_key := Some b\<rparr>))
          else if key = KEY_RESOLVER_SECRET_KEY then
            res_bind (map_err (\<lambda>e. at_line path idx @ [Lit '': '', Lit KEY_RESOLVER_SECRET_KEY, Lit '': ''] @ e)
                (decode_key B value)) (\<lambda>b. Ok (st\<lparr>ls_secret_key := Some b\<rparr>))
          else Err (at_line path idx @ [Lit '': unknown key '', Dbg key])))"

fun load_lines :: "base64 \<Rightarrow> string \<Rightarrow> nat \<Rightarrow> string list \<Rightarrow> load_state \<Rightarrow> load_state sres" where
  "load_lines B path idx [] st = Ok st"
| "load_lines B path idx (l # ls) st =
     res_bind (load_line B path idx l st) (load_lines B path (Suc idx) ls)"

definition config_load :: "base64 \<Rightarrow> (string \<Rightarrow> string + string) \<Rightarrow> string \<Rightarrow> resolver_config sres" where
  "config_load B read path =
     res_bind (lift_sum (\<lambda>e. [Lit ''reading '', Disp path, Lit '': '', Disp e]) (read path)) (\<lambda>content.
     res_bind (load_lines B path 0 (lines content) load_init) (\<lambda>st.
     res_bind (ok_or [Disp path, Lit '': missing '', Lit KEY_PROVIDER_NAME] (ls_provider_name st)) (\<lambda>nm.
     res_bind (ok_or [Disp path, Lit '': missing '', Lit KEY_PROVIDER_SIGNING_KEY] (ls_signing_key st)) (\<lambda>sgk.
     res_bind (ok_or [Disp path, Lit '': missing '', Lit KEY_RESOLVER_SECRET_KEY] (ls_secret_key st)) (\<lambda>sk.
     Ok \<lparr>rc_provider_name = nm, provider_signing_key = sgk, resolver_secret_key = sk\<rparr>)))))"

section \<open>The padded base64 engine\<close>

text \<open>Characters that are printed: no white space, no control character, ASCII.\<close>

definition visible :: "char \<Rightarrow> bool" where
  "visible c \<longleftrightarrow> 33 \<le> (of_char c :: nat) \<and> (of_char c :: nat) \<le> 126"

lemma line_feed_eq [simp]: "line_feed = c \<longleftrightarrow> of_char c = (10 :: nat)" "c = line_feed \<longleftrightarrow> of_char c = (10 :: nat)"
  by (simp_all add: char_of_eq_iff eq_commute [of c])

lemma line_feed_not_visible: "(\<And>c. c \<in> set s \<Longrightarrow> visible c) \<Longrightarrow> line_feed \<notin> set s"
  by (force simp: visible_def)

locale std_base64 =
  fixes B :: base64
  assumes std_roundtrip: "b64_decode B (b64_encode B bs) = Inr bs"
    and std_alphabet: "c \<in> set (b64_encode B bs) \<Longrightarrow> visible c"
    and std_length: "length (b64_encode B bs) = 4 * ((length bs + 2) div 3)"
begin

lemma decode_key_encoded: "length k = 32 \<Longrightarrow> decode_key B (b64_encode B k) = Ok k"
  by (simp add: decode_key_def std_roundtrip)

lemma encoded_nonempty: "bs \<noteq> [] \<Longrightarrow> b64_encode B bs \<noteq> []"
  using std_length [of bs] by (cases bs) auto

end

section \<open>Trimming\<close>

lemma ws_prefix_other: "(\<forall>(b, bs) \<in> set ws. b \<noteq> c) \<Longrightarrow> ws_prefix ws (c # s) = None"
  by (induction ws) auto

lemma white_space_not_visible:
  "visible c \<Longrightarrow> \<forall>(b, bs) \<in> set white_space. b \<noteq> c"
  "visible c \<Longrightarrow> \<forall>(b, bs) \<in> set white_space_rev. b \<noteq> c"
  by (auto simp: visible_def white_space_rev_def white_space_def)

lemma trim_front_visible:
  "s \<noteq> [] \<Longrightarrow> visible (hd s) \<Longrightarrow> trim_front white_space s = s"
  "s \<noteq> [] \<Longrightarrow> visible (last s) \<Longrightarrow> trim_front white_space_rev (rev s) = rev s"
proof -
  show "trim_front white_space s = s" if "s \<noteq> []" "visible (hd s)"
  proof (cases s)
    case (Cons c r)
    then show ?thesis
      using that ws_prefix_other [OF white_space_not_visible(1), of c r]
      by (subst trim_front.simps) simp
  qed (use that in simp)
  show "trim_front white_space_rev (rev s) = rev s" if "s \<noteq> []" "visible (last s)"
  proof (cases s rule: rev_cases)
    case (snoc r c)
    then show ?thesis
      using that ws_prefix_other [OF white_space_not_visible(2), of c "rev r"]
      by (subst trim_front.simps) simp
  qed (use that in simp)
qed

text \<open>A text whose first and last characters are visible is kept, and a space beside it goes.\<close>

lemma trim_front_space:
  "trim_front white_space (CHR '' '' # s) = trim_front white_space s"
  "trim_front white_space_rev (CHR '' '' # s) = trim_front white_space_rev s"
proof -
  have "white_space = (CHR '' '', []) # tl white_space" "white_space_rev = (CHR '' '', []) # tl white_space_rev"
    by (simp_all add: white_space_rev_def white_space_def char_of_eq_iff)
  then have "ws_prefix white_space (CHR '' '' # s) = Some s" "ws_prefix white_space_rev (CHR '' '' # s) = Some s"
    by (metis (no_types, lifting) option.case(2) strip_prefix.simps(1,3) ws_prefix.simps(2))+
  then show "trim_front white_space (CHR '' '' # s) = trim_front white_space s"
    "trim_front white_space_rev (CHR '' '' # s) = trim_front white_space_rev s"
    using trim_front.simps [of white_space "CHR '' '' # s"]
      trim_front.simps [of white_space_rev "CHR '' '' # s"] by simp_all
qed

lemma trim_visible:
  assumes "s \<noteq> []" "visible (hd s)" "visible (last s)"
  shows "trim s = s" "trim (CHR '' '' # s) = s" "trim (s @ '' '') = s"
  using trim_front_visible(1) [OF assms(1,2)] trim_front_visible(2) [OF assms(1,3)]
    trim_front_visible(1) [of "s @ '' ''"] assms
  by (simp_all add: trim_def trim_front_space)

section \<open>The round trip\<close>

lemma lines_config:
  assumes "line_feed \<notin> set a" "line_feed \<notin> set b" "line_feed \<notin> set c"
    and "a \<noteq> []" "visible (last a)" "b \<noteq> []" "visible (last b)" "c \<noteq> []" "visible (last c)"
  shows "lines (a @ [line_feed] @ b @ [line_feed] @ c @ [line_feed]) = [a, b, c]"
proof -
  have cr: "strip_cr s = s" if "s \<noteq> []" "visible (last s)" for s
    using that by (cases s rule: rev_cases) (auto simp: strip_cr_def visible_def)
  show ?thesis
    using assms by (simp add: lines_def Let_def split_on_append cr)
qed

lemma key_visible:
  assumes "key \<in> {KEY_PROVIDER_NAME, KEY_PROVIDER_SIGNING_KEY, KEY_RESOLVER_SECRET_KEY}"
  shows "key \<noteq> []" "visible (hd key)" "visible (last key)" "CHR ''='' \<notin> set key" "hd key \<noteq> CHR ''#''"
    "line_feed \<notin> set key"
  using assms
  by (auto simp: KEY_PROVIDER_NAME_def KEY_PROVIDER_SIGNING_KEY_def KEY_RESOLVER_SECRET_KEY_def visible_def)

text \<open>How one saved line is read back: its key and its value, as they were written.\<close>

lemma load_saved_line:
  assumes key: "key \<in> {KEY_PROVIDER_NAME, KEY_PROVIDER_SIGNING_KEY, KEY_RESOLVER_SECRET_KEY}"
    and v: "v \<noteq> []" "visible (hd v)" "visible (last v)"
  shows "trim (key @ '' = '' @ v) = key @ '' = '' @ v"
    "split_once ''='' (key @ '' = '' @ v) = Some (key @ '' '', CHR '' '' # v)"
    "trim (key @ '' '') = key" "trim (CHR '' '' # v) = v"
    "\<not> starts_with ''#'' (key @ '' = '' @ v)"
proof -
  note k = key_visible [OF key]
  show "trim (key @ '' = '' @ v) = key @ '' = '' @ v"
    by (rule trim_visible) (use k v in auto)
  show "split_once ''='' (key @ '' = '' @ v) = Some (key @ '' '', CHR '' '' # v)"
    using split_once_single [of "CHR ''=''" "key @ '' ''" "CHR '' '' # v"] k by simp
  show "trim (key @ '' '') = key" "trim (CHR '' '' # v) = v"
    using trim_visible [OF k(1-3)] trim_visible [OF v] by simp_all
  show "\<not> starts_with ''#'' (key @ '' = '' @ v)"
    using k by (cases key) (auto simp: starts_with_iff)
qed

context std_base64
begin

lemma encoded_visible:
  assumes "bs \<noteq> []"
  shows "b64_encode B bs \<noteq> []" "visible (hd (b64_encode B bs))" "visible (last (b64_encode B bs))"
    "line_feed \<notin> set (b64_encode B bs)"
  using encoded_nonempty [OF assms] std_alphabet [of _ bs] line_feed_not_visible [of "b64_encode B bs"]
  by simp_all

lemma config_load_saved:
  assumes nm: "rc_provider_name config \<noteq> []" "visible (hd (rc_provider_name config))"
      "visible (last (rc_provider_name config))" "line_feed \<notin> set (rc_provider_name config)"
    and keys: "length (provider_signing_key config) = 32" "length (resolver_secret_key config) = 32"
    and read: "read path = Inr (config_text B config)"
  shows "config_load B read path = Ok config"
proof -
  let ?sgk = "b64_encode B (provider_signing_key config)" and ?sk = "b64_encode B (resolver_secret_key config)"
  have e: "provider_signing_key config \<noteq> []" "resolver_secret_key config \<noteq> []"
    using keys by auto
  note v = encoded_visible [OF e(1)] encoded_visible [OF e(2)]
  have lf: "line_feed \<notin> set '' = ''" by simp
  have ls: "lines (config_text B config) =
      [KEY_PROVIDER_NAME @ '' = '' @ rc_provider_name config, KEY_PROVIDER_SIGNING_KEY @ '' = '' @ ?sgk,
       KEY_RESOLVER_SECRET_KEY @ '' = '' @ ?sk]"
    using lines_config [of "KEY_PROVIDER_NAME @ '' = '' @ rc_provider_name config"
        "KEY_PROVIDER_SIGNING_KEY @ '' = '' @ ?sgk" "KEY_RESOLVER_SECRET_KEY @ '' = '' @ ?sk"]
      nm v key_visible lf by (simp add: config_text_def config_line_def)
  have ne: "KEY_PROVIDER_SIGNING_KEY \<noteq> KEY_PROVIDER_NAME" "KEY_RESOLVER_SECRET_KEY \<noteq> KEY_PROVIDER_NAME"
    "KEY_RESOLVER_SECRET_KEY \<noteq> KEY_PROVIDER_SIGNING_KEY"
    by (simp_all add: KEY_PROVIDER_NAME_def KEY_PROVIDER_SIGNING_KEY_def KEY_RESOLVER_SECRET_KEY_def)
  have l1: "load_line B path i (KEY_PROVIDER_NAME @ '' = '' @ rc_provider_name config) st =
      Ok (st\<lparr>ls_provider_name := Some (rc_provider_name config)\<rparr>)" for i st
    unfolding load_line_def using load_saved_line [of KEY_PROVIDER_NAME, OF _ nm(1-3)] by simp
  have l2: "load_line B path i (KEY_PROVIDER_SIGNING_KEY @ '' = '' @ ?sgk) st =
      Ok (st\<lparr>ls_signing_key := Some (provider_signing_key config)\<rparr>)" for i st
    unfolding load_line_def
    using load_saved_line [of KEY_PROVIDER_SIGNING_KEY, OF _ v(1-3)] decode_key_encoded [OF keys(1)] ne
    by simp
  have l3: "load_line B path i (KEY_RESOLVER_SECRET_KEY @ '' = '' @ ?sk) st =
      Ok (st\<lparr>ls_secret_key := Some (resolver_secret_key config)\<rparr>)" for i st
    unfolding load_line_def
    using load_saved_line [of KEY_RESOLVER_SECRET_KEY, OF _ v(5-7)] decode_key_encoded [OF keys(2)] ne
    by simp
  show ?thesis
    by (simp add: config_load_def read ls l1 l2 l3 load_init_def del: append.simps append_Cons)
qed

end

section \<open>A reference engine\<close>

text \<open>RFC 4648 base64: the alphabet with \<open>+\<close> and \<open>/\<close>, padded to a multiple of four characters.\<close>

definition std_char :: "char \<Rightarrow> char" where
  "std_char c = (if c = CHR ''-'' then CHR ''+'' else if c = CHR ''_'' then CHR ''/'' else c)"

definition url_char :: "char \<Rightarrow> char" where
  "url_char c = (if c = CHR ''+'' then CHR ''-'' else if c = CHR ''/'' then CHR ''_''
     else if c = CHR ''-'' \<or> c = CHR ''_'' then CHR ''*'' else c)"

definition pad_base64 :: "string \<Rightarrow> string" where
  "pad_base64 s = s @ replicate ((4 - length s mod 4) mod 4) (CHR ''='')"

definition ref_std_base64 :: base64 where
  "ref_std_base64 = \<lparr>
     b64_encode = (\<lambda>bs. pad_base64 (map std_char (b64_encode ref_base64 bs))),
     b64_decode = (\<lambda>s. let t = takeWhile (\<lambda>c. c \<noteq> CHR ''='') s in
        if pad_base64 t = s then b64_decode ref_base64 (map url_char t) else Inl ''Invalid padding'')\<rparr>"

lemma ref_b64_char: "c \<in> set (b64_encode ref_base64 bs) \<Longrightarrow> \<exists>i < 64. c = b64_char i"
  by (auto simp: ref_base64_def dest: b64_sextets_bound)

lemma std_char_visible: "url_safe c \<Longrightarrow> visible (std_char c) \<and> std_char c \<noteq> CHR ''='' \<and> url_char (std_char c) = c"
  by (auto simp: url_safe_def visible_def std_char_def url_char_def Let_def)

lemma padded_length: "(4 * n + 2) div 3 + (4 - (4 * n + 2) div 3 mod 4) mod 4 = 4 * ((n + 2) div 3)" for n :: nat
proof -
  obtain q r where n: "n = 3 * q + r" "r < 3"
    using mod_less_divisor [of 3 n] mult_div_mod_eq [of 3 n] by (metis zero_less_numeral)
  have d: "(4 * n + 2) div 3 = 4 * q + (4 * r + 2) div 3" "(n + 2) div 3 = q + (r + 2) div 3"
    using div_mult_self1 [of 3 "4 * r + 2" "4 * q"] div_mult_self1 [of 3 "r + 2" q]
    by (simp_all add: n(1) algebra_simps)
  have m: "(4 * q + k) mod 4 = k mod 4" for k by simp
  consider "r = 0" | "r = 1" | "r = 2" using n(2) by linarith
  then show ?thesis unfolding d m by cases simp_all
qed

lemma length_b64_sextets: "length (b64_sextets bs) = (4 * length bs + 2) div 3"
  by (induction bs rule: b64_sextets.induct) auto

interpretation ref_std: std_base64 ref_std_base64
proof
  fix bs :: bytes and c :: char
  let ?t = "map std_char (b64_encode ref_base64 bs)"
  have u: "\<And>c. c \<in> set (b64_encode ref_base64 bs) \<Longrightarrow> url_safe c"
    by (rule ref_b64.b64_alphabet)
  have "takeWhile (\<lambda>c. c \<noteq> CHR ''='') (pad_base64 ?t) = ?t"
    using u by (auto simp: pad_base64_def takeWhile_append std_char_visible)
  moreover have "map url_char ?t = b64_encode ref_base64 bs"
    using u by (simp add: map_idI std_char_visible)
  ultimately show "b64_decode ref_std_base64 (b64_encode ref_std_base64 bs) = Inr bs"
    by (simp add: ref_std_base64_def ref_b64.b64_roundtrip)
  show "visible c" if "c \<in> set (b64_encode ref_std_base64 bs)"
    using that u std_char_visible by (auto simp: ref_std_base64_def pad_base64_def) (simp add: visible_def)
  have "length (b64_encode ref_base64 bs) = (4 * length bs + 2) div 3"
    by (simp add: ref_base64_def length_b64_sextets)
  then show "length (b64_encode ref_std_base64 bs) = 4 * ((length bs + 2) div 3)"
    using padded_length by (simp add: ref_std_base64_def pad_base64_def)
qed

end
