(* ===== verification/Main_Program.thy ===== *)
theory Main_Program
  imports Main_Args Cache_Tasks Dnscrypt_Config
begin

text \<open>
  \<open>main.rs\<close>, built with every feature and one of the two crypto providers: the zones of the private
  ranges, the bootstrap resolvers, the generation of a DNSCrypt configuration, and the start of the
  program.
\<close>

section \<open>Private zones\<close>

definition PRIVATE_REVERSE_ZONES :: "string list" where
  "PRIVATE_REVERSE_ZONES =
     [''10.in-addr.arpa'', ''16.172.in-addr.arpa'', ''17.172.in-addr.arpa'', ''18.172.in-addr.arpa'',
      ''19.172.in-addr.arpa'', ''20.172.in-addr.arpa'', ''21.172.in-addr.arpa'', ''22.172.in-addr.arpa'',
      ''23.172.in-addr.arpa'', ''24.172.in-addr.arpa'', ''25.172.in-addr.arpa'', ''26.172.in-addr.arpa'',
      ''27.172.in-addr.arpa'', ''28.172.in-addr.arpa'', ''29.172.in-addr.arpa'', ''30.172.in-addr.arpa'',
      ''31.172.in-addr.arpa'', ''168.192.in-addr.arpa'', ''127.in-addr.arpa'', ''254.169.in-addr.arpa'',
      ''c.f.ip6.arpa'', ''d.f.ip6.arpa'', ''8.e.f.ip6.arpa'', ''9.e.f.ip6.arpa'', ''a.e.f.ip6.arpa'',
      ''b.e.f.ip6.arpa'',
      ''0.0.0.0.0.0.0.0.0.0.0.0.0.0.0.0.0.0.0.0.0.0.0.0.0.0.0.0.0.0.0.ip6.arpa'']"

definition private_upstream_line :: "string \<Rightarrow> string" where
  "private_upstream_line upstream = ''[/'' @ join_with ''/'' PRIVATE_REVERSE_ZONES @ ''/]'' @ upstream"

section \<open>Bootstrap resolvers\<close>

datatype bootstrap_resolver = DohBootstrap doh_upstream | PlainBootstrap plain_resolver

definition parse_bootstrap :: "'h world \<Rightarrow> string \<Rightarrow> resolver options \<Rightarrow> bootstrap_resolver sres" where
  "parse_bootstrap W s doh_opts =
     (if contains ''://'' s then
        res_bind (parse_upstream W s doh_opts) (\<lambda>upstream.
        if parse_ip_addr (doh_host upstream) = None
        then Err [Lit ''bootstrap '', Dbg s, Lit '' must use a literal IP host, not a hostname'']
        else Ok (DohBootstrap upstream))
      else (case parse_socket_addr s of
          Some addr \<Rightarrow> Ok (PlainBootstrap \<lparr>pr_addr = addr, pr_timeout = timeout doh_opts\<rparr>)
        | None \<Rightarrow>
            (case parse_ip_addr s of
               Some ip \<Rightarrow> Ok (PlainBootstrap \<lparr>pr_addr = socket_addr_new ip 53, pr_timeout = timeout doh_opts\<rparr>)
             | None \<Rightarrow> Err [Lit ''invalid bootstrap address: '', Disp s])))"

text \<open>
  The lookup of a resolver, as one exchange meets it: the random ids, and the connection that the
  DoH client has cached by then.
\<close>

fun bootstrap_lookup :: "'h world \<Rightarrow> u16 \<Rightarrow> u16 \<Rightarrow> 'h doh_state \<Rightarrow> bootstrap_resolver \<Rightarrow> resolver" where
  "bootstrap_lookup W rid1 rid2 st (DohBootstrap u) =
     doh_lookup (w_dns W) (doh_answer (w_dns W) (w_b64 W) (w_net W) (w_http W) (w_fuel W) (w_quic_first W) (u, st))
       rid1 rid2"
| "bootstrap_lookup W rid1 rid2 st (PlainBootstrap r) = plain_lookup (w_dns W) (w_net W) r rid1 rid2"

section \<open>Generating a DNSCrypt configuration\<close>

text \<open>The lines that are printed; \<open>rnd_sign\<close> and \<open>rnd_box\<close> are the random bytes of the two keys.\<close>

definition run_dnscrypt_generate_config ::
  "crypto \<Rightarrow> base64 \<Rightarrow> base64 \<Rightarrow> host \<Rightarrow> bytes \<Rightarrow> bytes \<Rightarrow> string \<Rightarrow> string \<Rightarrow> msg list sres" where
  "run_dnscrypt_generate_config C B std H rnd_sign rnd_box path nm =
     (let config = resolver_generate rnd_sign rnd_box nm in
      res_bind (config_save std (fs_write H) path config) (\<lambda>_.
      Ok [[Lit ''Wrote DNSCrypt resolver config to '', Disp path],
          [Lit ''Stamp (replace the host:port with your public address before distributing to clients):''],
          [Disp (rc_stamp C B config (socket_addr_new v4_any 443))]]))"

section \<open>Putting the handler together\<close>

datatype main_error = Text msg | Dns doh_error

fun traverse :: "('a \<Rightarrow> ('e, 'b) res) \<Rightarrow> 'a list \<Rightarrow> ('e, 'b list) res" where
  "traverse f [] = Ok []"
| "traverse f (x # xs) = res_bind (f x) (\<lambda>y. res_bind (traverse f xs) (\<lambda>ys. Ok (y # ys)))"

definition main_options :: "args \<Rightarrow> resolver option \<Rightarrow> resolver options" where
  "main_options a boot =
     \<lparr>bootstrap = boot, http_versions = [Http11, Http2] @ (if arg_http3 a then [Http3] else []),
      timeout = Some (from_secs (arg_timeout a)), insecure_skip_verify = arg_insecure a,
      prefer_ipv6 = arg_prefer_ipv6 a, basic_auth = None\<rparr>"

definition main_bootstrap ::
  "'h world \<Rightarrow> (bootstrap_resolver \<Rightarrow> resolver) \<Rightarrow> args \<Rightarrow> resolver option sres" where
  "main_bootstrap W look a =
     (if arg_bootstrap a = [] then Ok None
      else res_bind (traverse (\<lambda>s. parse_bootstrap W s (main_options a None)) (arg_bootstrap a)) (\<lambda>rs.
        Ok (Some (parallel_lookup (map look rs)))))"

definition read_text :: "host \<Rightarrow> string \<Rightarrow> string sres" where
  "read_text H path = lift_sum (\<lambda>e. [Lit ''reading '', Disp path, Lit '': '', Disp e]) (fs_read_to_string H path)"

definition read_optional :: "host \<Rightarrow> string option \<Rightarrow> string option sres" where
  "read_optional H path = (case path of None \<Rightarrow> Ok None | Some f \<Rightarrow> res_bind (read_text H f) (\<lambda>s. Ok (Some s)))"

definition text_lines :: "string option \<Rightarrow> string list" where
  "text_lines s = (case s of None \<Rightarrow> [] | Some s \<Rightarrow> lines s)"

definition upstream_lines :: "host \<Rightarrow> args \<Rightarrow> string list sres" where
  "upstream_lines H a =
     (if arg_upstreams a = [] \<and> arg_upstream_file a = None
      then Err [Lit ''at least one of --upstream or --upstream-file is required'']
      else
        res_bind (read_optional H (arg_upstream_file a)) (\<lambda>file_text.
        res_bind (traverse (\<lambda>s. if fs_is_file H s then read_text H s else Ok s) (arg_upstreams a)) (\<lambda>arg_texts.
        Ok ((case arg_private_upstream a of None \<Rightarrow> [] | Some u \<Rightarrow> [private_upstream_line u]) @
            concat (map lines arg_texts) @ text_lines file_text))))"

definition parse_failure :: "(nat \<times> msg) list \<Rightarrow> msg" where
  "parse_failure errs =
     Lit ''parsing upstreams: '' #
     join_with [Lit ''; ''] (map (\<lambda>(idx, e). [Lit ''line '', Num (idx + 1), Lit '': ''] @ e) errs)"

definition main_config ::
  "'h world \<Rightarrow> (bootstrap_resolver \<Rightarrow> resolver) \<Rightarrow> host \<Rightarrow> args \<Rightarrow> 'h upstream_config sres" where
  "main_config W look H a =
     res_bind (main_bootstrap W look a) (\<lambda>boot.
     res_bind (upstream_lines H a) (\<lambda>ls.
     map_err parse_failure (parse_with_mode W ls (main_options a boot) (mode_of_arg (arg_upstream_mode a)))))"

definition main_credentials :: "'h world \<Rightarrow> host \<Rightarrow> args \<Rightarrow> credentials sres" where
  "main_credentials W H a =
     res_bind (read_optional H (doh_auth_file a)) (\<lambda>file_text.
     res_bind (traverse parse_pair (doh_auth a @
        filter (\<lambda>line. line \<noteq> [] \<and> \<not> starts_with ''#'' line) (map trim (text_lines file_text)))) (\<lambda>pairs.
     Ok (credentials_new (w_std_encode W) pairs)))"

definition main_cache :: "'c entry_lru \<Rightarrow> args \<Rightarrow> 'c cache option sres" where
  "main_cache K a =
     (if \<not> arg_cache a then Ok None
      else if arg_cache_size a = 0 then Err [Lit ''--cache-size must be nonzero'']
      else Ok (Some (cache_new K
        \<lparr>opt_size = arg_cache_size a, opt_min_ttl = from_secs (arg_cache_min_ttl a),
         opt_max_ttl = (if 0 < arg_cache_max_ttl a then Some (from_secs (arg_cache_max_ttl a)) else None)\<rparr>)))"

section \<open>Starting the listeners\<close>

type_synonym 'a main_step = "(main_error, 'a) startup"

definition dns_step :: "(doh_error, 'a) startup \<Rightarrow> 'a main_step" where
  "dns_step m p = (case m p of (r, p') \<Rightarrow> (map_err Dns r, p'))"

abbreviation text_step :: "'a sres \<Rightarrow> 'a main_step" where
  "text_step r \<equiv> start_lift (map_err Text r)"

abbreviation skip :: "unit main_step" where
  "skip \<equiv> start_lift (Ok ())"

abbreviation and_then :: "unit main_step \<Rightarrow> 'a main_step \<Rightarrow> 'a main_step" where
  "and_then m n \<equiv> start_bind m (\<lambda>_. n)"

definition DOQ_ALPN :: string where
  "DOQ_ALPN = ''doq''"

definition main_doq_listener :: "host \<Rightarrow> string \<Rightarrow> string \<Rightarrow> socket_addr list \<Rightarrow> unit main_step" where
  "main_doq_listener H cert key quic_addrs =
     (if quic_addrs = [] then skip
      else start_bind (dns_step (start_lift (load_server_tls_config H cert key [DOQ_ALPN]))) (\<lambda>tls.
        dns_step (doq_serve_all H quic_addrs tls)))"

definition main_dot_listener :: "host \<Rightarrow> string \<Rightarrow> string \<Rightarrow> socket_addr list \<Rightarrow> unit main_step" where
  "main_dot_listener H cert key tls_addrs =
     (if tls_addrs = [] then skip
      else start_bind (dns_step (start_lift (load_server_tls_config H cert key []))) (\<lambda>tls.
        dns_step (dot_serve_all H tls_addrs tls)))"

definition main_doh_listeners ::
  "host \<Rightarrow> string \<Rightarrow> string \<Rightarrow> socket_addr list \<Rightarrow> credentials \<Rightarrow> unit main_step" where
  "main_doh_listeners H cert key https_addrs creds =
     (if https_addrs = [] then skip
      else start_bind (dns_step (start_lift (load_server_tls_config H cert key (DOH_ALPN @ DOH3_ALPN)))) (\<lambda>tls.
        and_then (dns_step (doh_serve_all H https_addrs tls creds))
          (dns_step (doh3_serve_all H https_addrs tls creds))))"

definition main_tls_listeners :: "host \<Rightarrow> args \<Rightarrow> credentials \<Rightarrow> unit main_step" where
  "main_tls_listeners H a creds =
     (let quic_addrs = expand_listen (quic_listen a) (quic_port a);
          tls_addrs = expand_listen (tls_listen a) (tls_port a);
          https_addrs = expand_listen (https_listen a) (https_port a)
      in if quic_addrs = [] \<and> tls_addrs = [] \<and> https_addrs = [] then skip
         else
           start_bind (text_step (ok_or
             [Lit ''--tls-cert is required to enable any of --quic-listen/--tls-listen/--https-listen'']
             (listener_tls_cert a))) (\<lambda>cert.
           start_bind (text_step (ok_or [Lit ''--tls-key is required''] (listener_tls_key a))) (\<lambda>key.
           and_then (main_doq_listener H cert key quic_addrs)
           (and_then (main_dot_listener H cert key tls_addrs)
           (main_doh_listeners H cert key https_addrs creds)))))"

definition u32_saturating_add :: "u32 \<Rightarrow> u32 \<Rightarrow> u32" where
  "u32_saturating_add x y = (if unat x + unat y < 2 ^ 32 then x + y else - 1)"

definition DEFAULT_CERT_TTL_SECS :: u32 where
  "DEFAULT_CERT_TTL_SECS = 365 * 24 * 60 * 60"

definition main_magic :: bytes where
  "main_magic = bytes_of_string ''DNSC'' @ [0, 0, 0, 0]"

text \<open>\<open>unix\<close>: the seconds since the epoch, \<open>None\<close> when the clock is before it.\<close>

definition main_server_config :: "crypto \<Rightarrow> nat option \<Rightarrow> resolver_config \<Rightarrow> dnscrypt_server" where
  "main_server_config C unix rc =
     (let now' = (case unix of Some s \<Rightarrow> of_nat s | None \<Rightarrow> 0) in
      dnscrypt_server_new C (resolver_secret_key rc) (provider_signing_key rc) (rc_provider_name rc)
        main_magic 1 now' (u32_saturating_add now' DEFAULT_CERT_TTL_SECS))"

definition main_dnscrypt_listeners :: "crypto \<Rightarrow> base64 \<Rightarrow> nat option \<Rightarrow> host \<Rightarrow> args \<Rightarrow> unit main_step" where
  "main_dnscrypt_listeners C std unix H a =
     (let addrs = expand_listen (dnscrypt_listen a) (dnscrypt_port a)
      in if addrs = [] then skip
         else
           start_bind (text_step (ok_or
             [Lit ''--dnscrypt-config is required to enable --dnscrypt-listen/--dnscrypt-port'']
             (dnscrypt_config a))) (\<lambda>path.
           start_bind (text_step (config_load std (fs_read_to_string H) path)) (\<lambda>rc.
           dns_step (dc_serve_all H addrs addrs (main_server_config C unix rc)))))"

section \<open>The program\<close>

record ('h, 'c) proxy =
  px_config :: "'h upstream_config"
  px_cache :: "'c cache option"

text \<open>
  What has become of the program: the argument parser has ended it, it has printed a configuration and
  ended, or it serves.
\<close>

datatype ('h, 'c) outcome = Usage | Generated "msg list" | Serving "('h, 'c) proxy"

record ('h, 'c) environment =
  env_world :: "'h world"
  env_look :: "bootstrap_resolver \<Rightarrow> resolver"
  env_host :: host
  env_lru :: "'c entry_lru"
  env_std :: base64
  env_unix :: "nat option"
  env_rnd_sign :: bytes
  env_rnd_box :: bytes
  env_rust_log :: "string option"
  env_journal :: bool

definition main_serve :: "('h, 'c) environment \<Rightarrow> args \<Rightarrow> ('h, 'c) proxy main_step" where
  "main_serve E a =
     start_bind (text_step (main_config (env_world E) (env_look E) (env_host E) a)) (\<lambda>config.
     start_bind (text_step (main_credentials (env_world E) (env_host E) a)) (\<lambda>creds.
     start_bind (text_step (main_cache (env_lru E) a)) (\<lambda>cache'.
     and_then (dns_step (serve_all (env_host E) (listen_addrs a)))
     (and_then (main_tls_listeners (env_host E) a creds)
     (and_then (main_dnscrypt_listeners (w_crypto (env_world E)) (env_std E) (env_unix E) (env_host E) a)
     (start_lift (Ok \<lparr>px_config = config, px_cache = cache'\<rparr>)))))))"

definition main :: "('h, 'c) environment \<Rightarrow> args \<Rightarrow> ('h, 'c) outcome main_step" where
  "main E a =
     (if \<not> args_accepted a then start_lift (Ok Usage)
      else case dnscrypt_generate_config a of
        Some path \<Rightarrow>
          start_bind (text_step (ok_or
            [Lit ''--dnscrypt-provider-name is required with --dnscrypt-generate-config'']
            (dnscrypt_provider_name a))) (\<lambda>nm.
          start_bind (text_step (run_dnscrypt_generate_config (w_crypto (env_world E)) (w_b64 (env_world E))
             (env_std E) (env_host E) (env_rnd_sign E) (env_rnd_box E) path nm)) (\<lambda>printed.
          start_lift (Ok (Generated printed))))
      | None \<Rightarrow>
          and_then (init_log (env_rust_log E) (env_journal E) (arg_verbose a) (arg_log_level a) (arg_no_timestamp a))
          (and_then install_crypto_provider
          (start_bind (main_serve E a) (\<lambda>px. start_lift (Ok (Serving px))))))"

section \<open>What a started program has\<close>

lemma start_bind_ok: "start_bind m f p = (Ok y, p') \<longleftrightarrow> (\<exists>x q. m p = (Ok x, q) \<and> f x q = (Ok y, p'))"
  by (auto simp: start_bind_def split: prod.splits res.splits)

lemma start_lift_ok: "start_lift r p = (Ok y, p') \<longleftrightarrow> r = Ok y \<and> p' = p"
  by (auto simp: start_lift_def)

lemma dns_step_ok: "dns_step m p = (Ok y, p') \<longleftrightarrow> m p = (Ok y, p')"
  by (auto simp: dns_step_def res_simps split: prod.splits)

lemmas start_simps = start_bind_ok start_lift_ok dns_step_ok res_simps

abbreviation plain_tasks :: "socket_addr list \<Rightarrow> task list" where
  "plain_tasks addrs \<equiv> concat (map (\<lambda>a. [UdpTask (udp_sock a), TcpTask (tcp_sock a)]) addrs)"

lemma concat_singletons: "concat (map (\<lambda>a. [f a]) xs) = map f xs"
  by (induction xs) auto

lemma dc_serve_all_started:
  assumes "dc_serve_all H us ts config p = (Ok u, p')"
  shows "spawned p' = spawned p @ map (\<lambda>a. DcUdpTask (udp_sock a) config) us @
    map (\<lambda>a. DcTcpTask (tcp_sock a) config) ts"
proof -
  obtain q where q: "serve_each (dc_serve_udp H config) us p = (Ok (), q)"
      "serve_each (dc_serve_tcp H config) ts q = (Ok u, p')"
    using assms by (auto simp: dc_serve_all_def start_bind_ok)
  show ?thesis
    using dc_udp_l.serve_each_started [OF q(1)] dc_tcp_l.serve_each_started [OF q(2)]
    by (simp add: concat_singletons)
qed

text \<open>
  The tasks that the TLS and QUIC listeners add: each on every address asked for, with the
  certificate that was loaded and the protocols of its kind.
\<close>

definition loaded :: "host \<Rightarrow> args \<Rightarrow> string list \<Rightarrow> server_tls \<Rightarrow> bool" where
  "loaded H a alpn' tls \<longleftrightarrow>
     (\<exists>cert key. listener_tls_cert a = Some cert \<and> listener_tls_key a = Some key \<and>
        load_server_tls_config H cert key alpn' = Ok tls)"

lemma loaded_alpn: "loaded H a alpn' tls \<Longrightarrow> tls_alpn tls = alpn' \<and> tls_chain tls \<noteq> []"
  by (auto simp: loaded_def load_server_tls_config_def res_simps split: if_splits option.splits)

definition tls_tasks ::
  "args \<Rightarrow> credentials \<Rightarrow> server_tls \<Rightarrow> server_tls \<Rightarrow> server_tls \<Rightarrow> task list" where
  "tls_tasks a creds tq tt th =
     (let https_addrs = expand_listen (https_listen a) (https_port a) in
      map (\<lambda>x. DoqTask x tq) (expand_listen (quic_listen a) (quic_port a)) @
      map (\<lambda>x. DotTask (tcp_sock x) tt) (expand_listen (tls_listen a) (tls_port a)) @
      map (\<lambda>x. DohTask (tcp_sock x) th creds) https_addrs @ map (\<lambda>x. Doh3Task x th creds) https_addrs)"

text \<open>One of the three parts: nothing without an address, else the certificate and then the listener.\<close>

lemma tls_part_started:
  assumes "(if addrs = [] then skip
      else start_bind (dns_step (start_lift (load_server_tls_config H cert key al))) f) p = (Ok u, p')"
    and "listener_tls_cert a = Some cert" "listener_tls_key a = Some key"
    and "\<And>tls. f tls p = (Ok u, p') \<Longrightarrow> spawned p' = spawned p @ made tls"
    and "\<And>tls. addrs = [] \<Longrightarrow> made tls = []"
  shows "\<exists>tls. spawned p' = spawned p @ made tls \<and> (addrs \<noteq> [] \<longrightarrow> loaded H a al tls)"
proof (cases "addrs = []")
  case True
  then show ?thesis using assms(1,5) by (simp add: start_lift_ok)
next
  case False
  then obtain tls where "load_server_tls_config H cert key al = Ok tls" "f tls p = (Ok u, p')"
    using assms(1) by (auto simp: start_simps)
  then show ?thesis using assms(2-4) by (auto simp: loaded_def)
qed

lemma main_tls_listeners_started:
  assumes "main_tls_listeners H a creds p = (Ok u, p')"
  shows "\<exists>tq tt th. spawned p' = spawned p @ tls_tasks a creds tq tt th \<and>
    (expand_listen (quic_listen a) (quic_port a) \<noteq> [] \<longrightarrow> loaded H a [''doq''] tq) \<and>
    (expand_listen (tls_listen a) (tls_port a) \<noteq> [] \<longrightarrow> loaded H a [] tt) \<and>
    (expand_listen (https_listen a) (https_port a) \<noteq> [] \<longrightarrow> loaded H a [''h2'', ''http/1.1'', ''h3''] th)"
proof (cases "expand_listen (quic_listen a) (quic_port a) = [] \<and> expand_listen (tls_listen a) (tls_port a) = [] \<and>
    expand_listen (https_listen a) (https_port a) = []")
  case True
  then show ?thesis using assms by (simp add: main_tls_listeners_def start_lift_ok tls_tasks_def)
next
  case False
  define q t h where "q = expand_listen (quic_listen a) (quic_port a)" and
    "t = expand_listen (tls_listen a) (tls_port a)" and "h = expand_listen (https_listen a) (https_port a)"
  note addrs = q_def [symmetric] t_def [symmetric] h_def [symmetric]
  obtain cert key p1 p2 where ck: "listener_tls_cert a = Some cert" "listener_tls_key a = Some key"
    and 1: "main_doq_listener H cert key q p = (Ok (), p1)"
    and 2: "main_dot_listener H cert key t p1 = (Ok (), p2)"
    and 3: "main_doh_listeners H cert key h creds p2 = (Ok u, p')"
    using assms False unfolding main_tls_listeners_def Let_def addrs
    by (auto simp: start_bind_ok start_lift_ok res_simps)
  obtain tq where q: "spawned p1 = spawned p @ map (\<lambda>x. DoqTask x tq) q" "q \<noteq> [] \<longrightarrow> loaded H a [''doq''] tq"
    using tls_part_started [OF 1 [unfolded main_doq_listener_def] ck, where made = "\<lambda>tls. map (\<lambda>x. DoqTask x tls) q"]
      doq_l.serve_each_started
    by (auto simp: dns_step_ok doq_serve_all_def concat_singletons DOQ_ALPN_def)
  obtain tt where t: "spawned p2 = spawned p1 @ map (\<lambda>x. DotTask (tcp_sock x) tt) t" "t \<noteq> [] \<longrightarrow> loaded H a [] tt"
    using tls_part_started [OF 2 [unfolded main_dot_listener_def] ck, where made = "\<lambda>tls. map (\<lambda>x. DotTask (tcp_sock x) tls) t"]
      dot_l.serve_each_started
    by (auto simp: dns_step_ok dot_serve_all_def concat_singletons)
  have doh: "spawned p' = spawned p2 @ map (\<lambda>x. DohTask (tcp_sock x) tls creds) h @ map (\<lambda>x. Doh3Task x tls creds) h"
    if both: "and_then (dns_step (doh_serve_all H h tls creds)) (dns_step (doh3_serve_all H h tls creds)) p2 = (Ok u, p')" for tls
  proof -
    obtain r where r: "serve_each (doh_serve H tls creds) h p2 = (Ok (), r)" "serve_each (doh3_serve H tls creds) h r = (Ok u, p')"
      using both by (auto simp: start_bind_ok dns_step_ok doh_serve_all_def doh3_serve_all_def)
    show ?thesis using doh_l.serve_each_started [OF r(1)] doh3_l.serve_each_started [OF r(2)]
      by (simp add: concat_singletons)
  qed
  obtain th where h: "spawned p' = spawned p2 @ map (\<lambda>x. DohTask (tcp_sock x) th creds) h @ map (\<lambda>x. Doh3Task x th creds) h"
      "h \<noteq> [] \<longrightarrow> loaded H a [''h2'', ''http/1.1'', ''h3''] th"
    using tls_part_started [OF 3 [unfolded main_doh_listeners_def] ck,
        where made = "\<lambda>tls. map (\<lambda>x. DohTask (tcp_sock x) tls creds) h @ map (\<lambda>x. Doh3Task x tls creds) h", OF doh]
    by (auto simp: DOH_ALPN_def DOH3_ALPN_def)
  show ?thesis unfolding tls_tasks_def Let_def addrs using q t h by auto
qed

definition dnscrypt_tasks :: "args \<Rightarrow> dnscrypt_server \<Rightarrow> task list" where
  "dnscrypt_tasks a config =
     (let addrs = expand_listen (dnscrypt_listen a) (dnscrypt_port a) in
      map (\<lambda>x. DcUdpTask (udp_sock x) config) addrs @ map (\<lambda>x. DcTcpTask (tcp_sock x) config) addrs)"

lemma main_dnscrypt_listeners_started:
  assumes "main_dnscrypt_listeners C std unix H a p = (Ok u, p')"
  shows "\<exists>rc. spawned p' = spawned p @ dnscrypt_tasks a (main_server_config C unix rc) \<and>
    (expand_listen (dnscrypt_listen a) (dnscrypt_port a) \<noteq> [] \<longrightarrow>
      (\<exists>path. dnscrypt_config a = Some path \<and> config_load std (fs_read_to_string H) path = Ok rc))"
  using assms
  by (auto simp: main_dnscrypt_listeners_def Let_def start_simps dnscrypt_tasks_def dest!: dc_serve_all_started
      split: if_splits)

lemma traverse_ok:
  "traverse f xs = Ok ys \<Longrightarrow> length ys = length xs \<and> (\<forall>y \<in> set ys. \<exists>x \<in> set xs. f x = Ok y)"
proof (induction xs arbitrary: ys)
  case (Cons x xs)
  then obtain y zs where "f x = Ok y" "traverse f xs = Ok zs" "ys = y # zs" by (auto simp: res_simps)
  then show ?case using Cons.IH [of zs] by auto
qed simp

section \<open>What the start of listeners leaves alone\<close>

definition settings :: "process \<Rightarrow> bool \<times> logger option" where
  "settings p = (provider_installed p, log_installed p)"

definition keeps_settings :: "('e, 'a) startup \<Rightarrow> bool" where
  "keeps_settings m \<longleftrightarrow> (\<forall>p. settings (snd (m p)) = settings p)"

named_theorems keeps_intros

lemma keeps_lift [keeps_intros]: "keeps_settings (start_lift r)"
  by (simp add: keeps_settings_def start_lift_def)

lemma keeps_bind [keeps_intros]:
  assumes "keeps_settings m" "\<And>x. keeps_settings (f x)"
  shows "keeps_settings (start_bind m f)"
  unfolding keeps_settings_def
proof
  fix p
  obtain r q where "m p = (r, q)" by (cases "m p")
  moreover from this have "settings q = settings p" using assms(1) unfolding keeps_settings_def by (metis snd_conv)
  ultimately show "settings (snd (start_bind m f p)) = settings p"
    using assms(2) by (cases r) (simp_all add: start_bind_def keeps_settings_def)
qed

lemma keeps_dns_step [keeps_intros]: "keeps_settings m \<Longrightarrow> keeps_settings (dns_step m)"
  by (simp add: keeps_settings_def dns_step_def case_prod_beta)

lemma keeps_serve_each [keeps_intros]: "(\<And>x. keeps_settings (f x)) \<Longrightarrow> keeps_settings (serve_each f xs)"
  by (induction xs) (auto intro: keeps_intros)

lemma keeps_serve [keeps_intros]:
  "keeps_settings (serve H x)" "keeps_settings (serve_socket H bind1 task x)" "keeps_settings (serve_endpoint H tls t x)"
  by (auto simp: keeps_settings_def serve_def serve_socket_def serve_endpoint_def settings_def spawn_def hold_def
      split: res.splits option.splits sum.splits)

lemmas listener_defs = serve_all_def main_tls_listeners_def main_doq_listener_def main_dot_listener_def
  main_doh_listeners_def main_dnscrypt_listeners_def doq_serve_all_def dot_serve_all_def doh_serve_all_def
  doh3_serve_all_def dc_serve_all_def doq_serve_def dot_serve_def doh_serve_def doh3_serve_def dc_serve_udp_def
  dc_serve_tcp_def

lemma keeps_if [keeps_intros]: "keeps_settings m \<Longrightarrow> keeps_settings n \<Longrightarrow> keeps_settings (if c then m else n)"
  by simp

lemma main_serve_keeps: "keeps_settings (main_serve E a)"
  unfolding main_serve_def listener_defs Let_def by (intro keeps_intros)

definition started_log :: "('h, 'c) environment \<Rightarrow> args \<Rightarrow> logger" where
  "started_log E a =
     \<lparr>log_filter = (case env_rust_log E of Some f \<Rightarrow> f | None \<Rightarrow> arg_log_level a),
      log_directives = muted (arg_verbose a), log_time = (\<not> arg_no_timestamp a \<and> \<not> env_journal E)\<rparr>"

lemma main_serving:
  assumes "main E a p = (Ok (Serving px), p')"
  shows "\<exists>p0. main_serve E a p0 = (Ok px, p') \<and> spawned p0 = spawned p \<and> args_accepted a \<and>
    dnscrypt_generate_config a = None \<and> provider_installed p' \<and> log_installed p' = Some (started_log E a)"
proof -
  have a: "args_accepted a" "dnscrypt_generate_config a = None"
    using assms by (auto simp: main_def start_simps split: option.splits if_splits)
  define p0 where "p0 = p\<lparr>log_installed := Some (started_log E a), provider_installed := True\<rparr>"
  have s: "main_serve E a p0 = (Ok px, p')"
    using assms a by (auto simp: main_def start_simps init_log_ok install_crypto_provider_ok p0_def started_log_def)
  have "settings p' = settings p0" using main_serve_keeps [of E a] s unfolding keeps_settings_def by (metis snd_conv)
  then have "provider_installed p' \<and> log_installed p' = Some (started_log E a)" by (simp add: settings_def p0_def)
  moreover have "spawned p0 = spawned p" by (simp add: p0_def)
  ultimately show ?thesis using s a by blast
qed

lemma main_started:
  assumes "main E a p = (Ok (Serving px), p')"
  shows "main_config (env_world E) (env_look E) (env_host E) a = Ok (px_config px) \<and>
    main_cache (env_lru E) a = Ok (px_cache px) \<and>
    (\<exists>creds tq tt th rc. main_credentials (env_world E) (env_host E) a = Ok creds \<and>
      spawned p' = spawned p @ plain_tasks (listen_addrs a) @ tls_tasks a creds tq tt th @
        dnscrypt_tasks a (main_server_config (w_crypto (env_world E)) (env_unix E) rc) \<and>
      (expand_listen (quic_listen a) (quic_port a) \<noteq> [] \<longrightarrow> loaded (env_host E) a [''doq''] tq) \<and>
      (expand_listen (tls_listen a) (tls_port a) \<noteq> [] \<longrightarrow> loaded (env_host E) a [] tt) \<and>
      (expand_listen (https_listen a) (https_port a) \<noteq> [] \<longrightarrow> loaded (env_host E) a [''h2'', ''http/1.1'', ''h3''] th) \<and>
      (expand_listen (dnscrypt_listen a) (dnscrypt_port a) \<noteq> [] \<longrightarrow>
        (\<exists>path. dnscrypt_config a = Some path \<and>
          config_load (env_std E) (fs_read_to_string (env_host E)) path = Ok rc)))"
proof -
  obtain p0 where p0: "main_serve E a p0 = (Ok px, p')" "spawned p0 = spawned p"
    using main_serving [OF assms] by auto
  then obtain creds p1 p2 where m: "main_config (env_world E) (env_look E) (env_host E) a = Ok (px_config px)"
      "main_credentials (env_world E) (env_host E) a = Ok creds" "main_cache (env_lru E) a = Ok (px_cache px)"
    and p1: "serve_all (env_host E) (listen_addrs a) p0 = (Ok (), p1)"
    and p2: "main_tls_listeners (env_host E) a creds p1 = (Ok (), p2)"
    and p3: "main_dnscrypt_listeners (w_crypto (env_world E)) (env_std E) (env_unix E) (env_host E) a p2 = (Ok (), p')"
    by (auto simp: main_serve_def start_bind_ok start_lift_ok dns_step_ok map_err_eq_Ok)
  note s1 = plain.serve_each_started [OF p1 [unfolded serve_all_def]]
  obtain tq tt th where s2: "spawned p2 = spawned p1 @ tls_tasks a creds tq tt th"
      "expand_listen (quic_listen a) (quic_port a) \<noteq> [] \<longrightarrow> loaded (env_host E) a [''doq''] tq"
      "expand_listen (tls_listen a) (tls_port a) \<noteq> [] \<longrightarrow> loaded (env_host E) a [] tt"
      "expand_listen (https_listen a) (https_port a) \<noteq> [] \<longrightarrow> loaded (env_host E) a [''h2'', ''http/1.1'', ''h3''] th"
    using main_tls_listeners_started [OF p2] by blast
  obtain rc where s3: "spawned p' = spawned p2 @ dnscrypt_tasks a (main_server_config (w_crypto (env_world E)) (env_unix E) rc)"
      "expand_listen (dnscrypt_listen a) (dnscrypt_port a) \<noteq> [] \<longrightarrow>
        (\<exists>path. dnscrypt_config a = Some path \<and> config_load (env_std E) (fs_read_to_string (env_host E)) path = Ok rc)"
    using main_dnscrypt_listeners_started [OF p3] by blast
  have "spawned p' = spawned p @ plain_tasks (listen_addrs a) @ tls_tasks a creds tq tt th @
      dnscrypt_tasks a (main_server_config (w_crypto (env_world E)) (env_unix E) rc)"
    using s1 s2(1) s3(1) p0(2) by simp
  then show ?thesis using m s2(2-) s3(2) by (intro conjI exI [of _ creds] exI [of _ tq] exI [of _ tt] exI [of _ th] exI [of _ rc])
qed

lemma saturating_add_gt:
  assumes "0 < y"
  shows "x < u32_saturating_add x y \<longleftrightarrow> x \<noteq> - 1"
proof (cases "unat x + unat y < 2 ^ 32")
  case True
  then have "unat (x + y) = unat x + unat y" by (simp add: unat_word_ariths take_bit_nat_eq_self)
  moreover have "0 < unat y" using assms by (simp add: word_gt_0 unat_eq_0 [symmetric])
  moreover have "x \<noteq> - 1" using True \<open>0 < unat y\<close> by (auto simp: unsigned_minus_1_eq_mask mask_eq_exp_minus_1)
  ultimately show ?thesis using True by (simp add: u32_saturating_add_def word_less_nat_alt)
qed (simp add: u32_saturating_add_def word_order.not_eq_extremum)

end
