(* ===== verification/Private_Zones.thy ===== *)
theory Private_Zones
  imports Main_Program "HOL-Library.Sublist"
begin

text \<open>
  How the line that \<open>main.rs\<close> builds for \<open>--private-upstream\<close> goes through the parser of
  \<open>upstream_config.rs\<close>: every private zone has a rule, and the private upstream is the first of it
  whatever lines follow.
\<close>

section \<open>Reading the line\<close>

lemma split_once_closing:
  "CHR '']'' \<notin> set s \<Longrightarrow> split_once ''/]'' (s @ ''/]'' @ u) = Some (s, u)"
proof (induction s)
  case (Cons c s)
  then have "strip_prefix ''/]'' (c # s @ ''/]'' @ u) = None" by (cases s) auto
  then show ?case using Cons by simp
qed simp

lemma split_ws_visible:
  "(\<And>c. c \<in> set s \<Longrightarrow> visible c) \<Longrightarrow> split_ws s = [s]"
proof (induction s)
  case (Cons c s)
  then have "ws_prefix white_space (c # s) = None"
    by (intro ws_prefix_other white_space_not_visible) simp
  then show ?case using Cons by simp
qed simp

lemma zones_plain:
  assumes "z \<in> set PRIVATE_REVERSE_ZONES"
  shows "z \<noteq> []" "CHR ''/'' \<notin> set z" "CHR '']'' \<notin> set z" "to_ascii_lowercase z = z"
  using assms
  by (auto simp: PRIVATE_REVERSE_ZONES_def to_ascii_lowercase_def ascii_lower_char_def)

lemma set_join_with: "set (join_with sep ps) \<subseteq> set sep \<union> (\<Union>p \<in> set ps. set p)"
  by (induction sep ps rule: join_with.induct) auto

definition private_keys :: "string list" where
  "private_keys = map (\<lambda>z. z @ ''.'') PRIVATE_REVERSE_ZONES"

lemma private_line_split:
  assumes "u \<noteq> []" "\<And>c. c \<in> set u \<Longrightarrow> visible c"
  shows "trim (private_upstream_line u) = private_upstream_line u"
    and "split_config_line (private_upstream_line u) = Ok ([u], private_keys)"
proof -
  show "trim (private_upstream_line u) = private_upstream_line u"
    by (rule trim_visible(1)) (use assms in \<open>auto simp: private_upstream_line_def visible_def\<close>)
  let ?s = "join_with ''/'' PRIVATE_REVERSE_ZONES"
  have "CHR '']'' \<notin> set ?s"
    using set_join_with [of "''/''" PRIVATE_REVERSE_ZONES] zones_plain(3) by auto
  then have 1: "split_once ''/]'' (?s @ ''/]'' @ u) = Some (?s, u)" by (rule split_once_closing)
  have 2: "split_on CHR ''/'' ?s = PRIVATE_REVERSE_ZONES"
    by (rule split_on_join) (use zones_plain(2) in \<open>auto simp: PRIVATE_REVERSE_ZONES_def\<close>)
  have 3: "[] \<notin> set PRIVATE_REVERSE_ZONES" using zones_plain(1) by auto
  have 4: "split_whitespace u = [u]"
    using split_ws_visible [OF assms(2)] assms(1) by (simp add: split_whitespace_def)
  have 5: "map (\<lambda>host. to_ascii_lowercase host @ ''.'') PRIVATE_REVERSE_ZONES = private_keys"
    unfolding private_keys_def using zones_plain(4) by simp
  show "split_config_line (private_upstream_line u) = Ok ([u], private_keys)"
    using 1 2 3 4 5 assms(1) by (simp add: split_config_line_def private_upstream_line_def)
qed

section \<open>Later lines only add to a rule\<close>

definition extends :: "'h parse_state \<Rightarrow> 'h parse_state \<Rightarrow> bool" where
  "extends st st' \<longleftrightarrow>
     prefix (ps_store st) (ps_store st') \<and>
     (\<forall>d g. map_of (ps_domains st) d = Some g \<longrightarrow>
        (\<exists>g'. map_of (ps_domains st') d = Some g' \<and> prefix (upstreams g) (upstreams g')))"

lemma extends_refl [simp]: "extends st st"
  by (simp add: extends_def)

lemma extends_trans: "extends a b \<Longrightarrow> extends b c \<Longrightarrow> extends a c"
  unfolding extends_def by (meson prefix_order.trans)

lemma push_domain_extends:
  assumes "map_of ds d = Some g"
  shows "\<exists>g'. map_of (push_domain i dm ds) d = Some g' \<and> prefix (upstreams g) (upstreams g')"
  using assms by (auto simp: push_domain_def update_conv' group_push_def)

lemma fold_push_domain_extends:
  "map_of ds d = Some g \<Longrightarrow> \<exists>g'. map_of (fold (push_domain i) dms ds) d = Some g' \<and> prefix (upstreams g) (upstreams g')"
proof (induction dms arbitrary: ds g)
  case (Cons dm dms)
  obtain g' where "map_of (push_domain i dm ds) d = Some g'" "prefix (upstreams g) (upstreams g')"
    using push_domain_extends [OF Cons.prems] by blast
  then show ?case using Cons.IH by (fastforce intro: prefix_order.trans)
qed simp

lemma push_upstream_extends: "extends st (push_upstream dms i st)"
  using fold_push_domain_extends by (auto simp: extends_def push_upstream_def)

lemma parse_one_extends: "parse_one W opts idx dms u st = Ok st' \<Longrightarrow> extends st st'"
proof -
  assume st': "parse_one W opts idx dms u st = Ok st'"
  have "extends st (st\<lparr>ps_store := ps_store st @ [x], ps_index := y\<rparr>)" "extends st (st\<lparr>ps_errors := e\<rparr>)" for x y e
    by (auto simp: extends_def)
  then show ?thesis using st'
    by (auto simp: parse_one_def Let_def push_upstream_extends intro: extends_trans [OF _ push_upstream_extends]
        split: option.splits res.splits)
qed

lemma parse_list_extends: "parse_list W opts idx dms us st = Ok st' \<Longrightarrow> extends st st'"
proof (induction us arbitrary: st)
  case (Cons u us)
  then show ?case by (auto simp: res_simps intro: extends_trans dest: parse_one_extends)
qed simp

lemma parse_line_extends: "parse_line W opts idx l st = Ok st' \<Longrightarrow> extends st st'"
  by (auto simp: parse_line_def Let_def extends_def split: if_splits res.splits dest!: parse_list_extends)

lemma parse_lines_extends: "parse_lines W opts idx ls st = Ok st' \<Longrightarrow> extends st st'"
proof (induction ls arbitrary: idx st)
  case (Cons l ls)
  then show ?case by (auto simp: res_simps intro: extends_trans dest: parse_line_extends)
qed simp

section \<open>The rules of the private zones\<close>

lemma fold_push_domain_keys: "d \<in> set dms \<Longrightarrow> map_of (fold (push_domain i) dms ds) d \<noteq> None"
proof (induction dms arbitrary: ds)
  case (Cons dm dms)
  show ?case
  proof (cases "d = dm")
    case True
    have "map_of (push_domain i dm ds) d \<noteq> None" using True by (simp add: push_domain_def update_conv')
    then show ?thesis using fold_push_domain_extends by fastforce
  qed (use Cons in auto)
qed simp

lemma private_line_parsed:
  assumes "u \<noteq> []" "\<And>c. c \<in> set u \<Longrightarrow> visible c" "parse_any_upstream W u opts = Ok b"
  shows "\<exists>st. parse_line W opts 0 (private_upstream_line u) parse_init = Ok st \<and>
    ps_store st = [tracked_new b] \<and>
    (\<forall>k \<in> set private_keys. \<exists>g. map_of (ps_domains st) k = Some g \<and> upstreams g \<noteq> [] \<and> hd (upstreams g) = 0)"
proof -
  define ds where "ds = fold (push_domain 0) private_keys []"
  have line: "private_upstream_line u \<noteq> []" "\<not> starts_with ''#'' (private_upstream_line u)"
    by (auto simp: private_upstream_line_def starts_with_def)
  have pk: "private_keys \<noteq> []" by (simp add: private_keys_def PRIVATE_REVERSE_ZONES_def)
  have "\<exists>st. parse_line W opts 0 (private_upstream_line u) parse_init = Ok st \<and>
      ps_store st = [tracked_new b] \<and> ps_domains st = ds"
    using private_line_split [OF assms(1,2)] line pk assms(3)
    by (simp add: parse_line_def parse_one_def parse_init_def push_upstream_def Let_def ds_def)
  moreover have "rules_ok 1 ds" unfolding ds_def by (rule fold_push_domain_ok) (simp_all add: rules_ok_def)
  then have "upstreams g \<noteq> [] \<and> hd (upstreams g) = 0" if "map_of ds k = Some g" for k g
    using that by (cases "upstreams g") (auto simp: rules_ok_def group_in_def)
  moreover have "map_of ds k \<noteq> None" if "k \<in> set private_keys" for k
    using fold_push_domain_keys that unfolding ds_def by blast
  ultimately show ?thesis by fastforce
qed

lemma private_zones_first:
  assumes u: "u \<noteq> []" "\<And>c. c \<in> set u \<Longrightarrow> visible c" "parse_any_upstream W u opts = Ok b"
    and cfg: "parse_with_mode W (private_upstream_line u # ls) opts m = Ok cfg"
    and z: "z \<in> set PRIVATE_REVERSE_ZONES"
  shows "store cfg ! 0 = tracked_new b \<and>
    (\<exists>g. map_of (domain_upstreams cfg) (z @ ''.'') = Some g \<and> upstreams g \<noteq> [] \<and> hd (upstreams g) = 0)"
proof -
  obtain st st' where st: "parse_line W opts 0 (private_upstream_line u) parse_init = Ok st" "ps_store st = [tracked_new b]"
      "\<forall>k \<in> set private_keys. \<exists>g. map_of (ps_domains st) k = Some g \<and> upstreams g \<noteq> [] \<and> hd (upstreams g) = 0"
    and st': "parse_lines W opts 1 ls st = Ok st'" "store cfg = ps_store st'" "domain_upstreams cfg = ps_domains st'"
    using private_line_parsed [OF u] cfg by (auto simp: parse_with_mode_def split: res.splits if_splits)
  have "z @ ''.'' \<in> set private_keys" using z by (simp add: private_keys_def)
  then obtain g where g: "map_of (ps_domains st) (z @ ''.'') = Some g" "upstreams g \<noteq> []" "hd (upstreams g) = 0"
    using st(3) by blast
  obtain g' where "map_of (ps_domains st') (z @ ''.'') = Some g'" "prefix (upstreams g) (upstreams g')"
      "prefix [tracked_new b] (ps_store st')"
    using parse_lines_extends [OF st'(1)] g(1) st(2) by (auto simp: extends_def)
  then show ?thesis using g st'(2,3) by (auto simp: prefix_def)
qed

section \<open>The rule for a name\<close>

lemma label_suffix_unique: "label_suffix k s \<Longrightarrow> label_suffix k' s \<Longrightarrow> length k = length k' \<Longrightarrow> k = k'"
  by (auto simp: label_suffix_def)

text \<open>The rule of a name is the longest one that is a suffix of it.\<close>

lemma group_for_longest:
  assumes "map_of (domain_upstreams cfg) k = Some g" "label_suffix k (to_ascii_lowercase dname)"
    and "\<And>k'. map_of (domain_upstreams cfg) k' \<noteq> None \<Longrightarrow> label_suffix k' (to_ascii_lowercase dname) \<Longrightarrow>
      length k' \<le> length k"
  shows "group_for cfg dname = g"
proof -
  have ne: "domain_upstreams cfg \<noteq> []" using assms(1) by auto
  have "match_suffix (domain_upstreams cfg) (to_ascii_lowercase dname) \<noteq> None"
    using match_suffix_None assms(1,2) by fastforce
  then obtain k' where k': "match_suffix (domain_upstreams cfg) (to_ascii_lowercase dname) = Some k'" by auto
  note m = match_suffix_Some [OF k']
  have "length k' = length k" using m assms(1,2) assms(3) [of k'] by (simp add: order_antisym)
  then have "k' = k" using label_suffix_unique m assms(2) by blast
  then show ?thesis using k' ne assms(1) by (simp add: group_for_def group_key_def)
qed

end
