(* ===== verification/Locking.thy ===== *)
theory Locking
  imports Prelude
begin

text \<open>
  Asynchronous mutexes shared by requests. \<open>lk l\<close> is the number of the request that holds the lock
  \<open>l\<close>; a request is somewhere in its work, at a place that holds at most one lock. The locale
  states what the steps of a client promise, and shows from that that a lock is held by exactly the
  request whose place says so, and that requests waiting for locks never wait for each other.
\<close>

type_synonym 'l owners = "'l \<Rightarrow> nat option"

definition released :: "'l option \<Rightarrow> 'l owners \<Rightarrow> 'l owners" where
  "released h lk = (case h of Some l \<Rightarrow> lk(l := None) | None \<Rightarrow> lk)"

definition taken :: "nat \<Rightarrow> 'l option \<Rightarrow> 'l owners \<Rightarrow> 'l owners" where
  "taken me h lk = (case h of Some l \<Rightarrow> lk(l := Some me) | None \<Rightarrow> lk)"

text \<open>\<open>xs\<close> is where the requests of one client are.\<close>

definition locks_inv :: "('x \<Rightarrow> 'l option) \<Rightarrow> 'l owners \<Rightarrow> (nat \<rightharpoonup> 'x) \<Rightarrow> bool" where
  "locks_inv holds lk xs \<longleftrightarrow> (\<forall>l i. lk l = Some i \<longleftrightarrow> (\<exists>x. xs i = Some x \<and> holds x = Some l))"

lemma locks_inv_free: "locks_inv holds (\<lambda>_. None) Map.empty"
  by (simp add: locks_inv_def)

lemma locks_inv_enter:
  "locks_inv holds lk xs \<Longrightarrow> xs me = None \<Longrightarrow> holds x = None \<Longrightarrow> locks_inv holds lk (xs(me \<mapsto> x))"
  by (fastforce simp: locks_inv_def)

lemma locks_inv_leave:
  "locks_inv holds lk xs \<Longrightarrow> xs me = Some x \<Longrightarrow> holds x = None \<Longrightarrow> locks_inv holds lk (xs(me := None))"
  by (fastforce simp: locks_inv_def)

text \<open>Two requests never hold the same lock.\<close>

lemma locks_inv_exclusive:
  assumes "locks_inv holds lk xs" "xs i = Some x" "xs j = Some y" "holds x = Some l" "holds y = Some l"
  shows "i = j"
proof -
  have "lk l = Some i" "lk l = Some j" using assms by (auto simp: locks_inv_def)
  then show ?thesis by simp
qed

locale locking =
  fixes step :: "nat \<Rightarrow> 'q \<Rightarrow> 'u \<times> 'l owners \<times> 'x \<Rightarrow> 'u \<times> 'l owners \<times> 'x \<Rightarrow> bool"
    and holds wants :: "'x \<Rightarrow> 'l option"
    and fits :: "'u \<Rightarrow> 'x \<Rightarrow> bool"
    and ended :: "'x \<Rightarrow> bool"
    and rank :: "'x \<Rightarrow> nat"
  assumes step_locks: "step me q (u, lk, x) (u', lk', x') \<Longrightarrow> lk' = taken me (holds x') (released (holds x) lk)"
    and step_takes: "step me q (u, lk, x) (u', lk', x') \<Longrightarrow> holds x' = Some l \<Longrightarrow> holds x \<noteq> Some l \<Longrightarrow> lk l = None"
    and step_fits: "step me q (u, lk, x) (u', lk', x') \<Longrightarrow> fits u x \<Longrightarrow> fits u' x'"
    and step_fits_others: "step me q (u, lk, x) (u', lk', x') \<Longrightarrow> fits u y \<Longrightarrow> fits u' y"
    and step_rank: "step me q (u, lk, x) (u', lk', x') \<Longrightarrow> rank x' < rank x"
    and holders_want_nothing: "holds x = Some l \<Longrightarrow> wants x = None"
    and can_step: "fits u x \<Longrightarrow> \<not> ended x \<Longrightarrow> (\<And>l. wants x = Some l \<Longrightarrow> lk l = None) \<Longrightarrow>
      (\<And>l. holds x = Some l \<Longrightarrow> lk l = Some me) \<Longrightarrow> \<exists>y. step me q (u, lk, x) y"
    and ended_holds: "ended x \<Longrightarrow> holds x = None"
begin

lemma locks_inv_step:
  assumes "locks_inv holds lk xs" "xs me = Some x" "step me q (u, lk, x) (u', lk', x')"
  shows "locks_inv holds lk' (xs(me \<mapsto> x'))"
proof -
  have lk': "lk' = taken me (holds x') (released (holds x) lk)" by (rule step_locks [OF assms(3)])
  have inv: "lk l = Some i \<longleftrightarrow> (\<exists>x. xs i = Some x \<and> holds x = Some l)" for l i
    using assms(1) by (simp add: locks_inv_def)
  have mine: "lk l = Some me \<longleftrightarrow> holds x = Some l" for l using inv assms(2) by auto
  have here: "lk' l = Some me \<longleftrightarrow> holds x' = Some l" for l
    using mine [of l] by (auto simp: lk' taken_def released_def split: option.splits)
  have there: "lk' l = Some i \<longleftrightarrow> lk l = Some i" if "i \<noteq> me" for l i
    using that mine [of l] step_takes [OF assms(3), of l]
    by (auto simp: lk' taken_def released_def split: option.splits)
  show ?thesis
    unfolding locks_inv_def
  proof (intro allI)
    fix l i
    show "lk' l = Some i \<longleftrightarrow> (\<exists>y. (xs(me \<mapsto> x')) i = Some y \<and> holds y = Some l)"
      by (cases "i = me") (simp_all add: here there inv)
  qed
qed

text \<open>The request that holds a lock, and with it every request that has not ended, gets on.\<close>

lemma someone_steps:
  assumes "locks_inv holds lk xs" "xs i = Some x" "\<not> ended x" "\<And>i x. xs i = Some x \<Longrightarrow> fits u x"
  shows "\<exists>j y z. xs j = Some y \<and> \<not> ended y \<and> step j (q j) (u, lk, y) z"
proof (cases "\<exists>l j. wants x = Some l \<and> lk l = Some j")
  case True
  then obtain l j y where y: "xs j = Some y" "holds y = Some l"
    using assms(1) by (auto simp: locks_inv_def)
  have "\<exists>z. step j (q j) (u, lk, y) z"
    by (rule can_step [OF assms(4) [OF y(1)]])
      (use y holders_want_nothing assms(1) ended_holds in \<open>auto simp: locks_inv_def\<close>)
  then show ?thesis using y ended_holds by fastforce
next
  case False
  have "\<exists>z. step i (q i) (u, lk, x) z"
    by (rule can_step [OF assms(4) [OF assms(2)] assms(3)])
      (use False assms(1,2) in \<open>auto simp: locks_inv_def\<close>)
  then show ?thesis using assms by blast
qed

end

end
