(* ===== verification/Shared_Clients.thy ===== *)
theory Shared_Clients
  imports Upstream Locking
begin

text \<open>
  The clients that keep something between exchanges, used by several requests at once: \<open>client/doq.rs\<close>
  and \<open>client/doh.rs\<close> with a connection or client behind a mutex, \<open>client/doh3.rs\<close> with the transport
  and its sender behind two, \<open>client/dnscrypt.rs\<close> with a certificate behind a read-write lock. A
  step of a request ends where it waits for a lock or for the network; between two of its steps
  other requests take theirs. A lock is its owner, the number of the request that holds it.
\<close>

section \<open>A value behind a mutex\<close>

text \<open>
  \<open>exchange\<close> of \<open>doq.rs\<close> and \<open>doh.rs\<close> around a value \<open>'c\<close>: waiting for the lock in \<open>get_conn\<close>, dialling with
  the lock held (for the first time or for the second attempt), exchanging on \<open>c\<close> (which was cached or not,
  in the second attempt or the first), waiting for the lock in \<open>reset_conn\<close>, and waiting for it to
  drop the value after a failure.
\<close>

datatype 'c slot_phase =
  Asking
| Dialling bool
| Using 'c bool bool
| Resetting
| Clearing doh_error
| Done "message dres"

definition after_use :: "bool \<Rightarrow> bool \<Rightarrow> message dres \<Rightarrow> 'c slot_phase" where
  "after_use was_cached again r =
     (case r of
        Err e \<Rightarrow> if again then Done r else if was_cached \<and> should_retry e then Resetting else Clearing e
      | Ok resp \<Rightarrow> Done r
      | Panic \<Rightarrow> Done r)"

fun failure :: "'a dres \<Rightarrow> message dres" where
  "failure (Err e) = Err e"
| "failure _ = Panic"

text \<open>
  \<open>dial again\<close> and \<open>use c\<close> hold of the outcomes that a dial and an exchange may have; \<open>me\<close> is the number
  of the request.
\<close>

inductive slot_step ::
  "(bool \<Rightarrow> 'c dres \<Rightarrow> bool) \<Rightarrow> ('c \<Rightarrow> message dres \<Rightarrow> bool) \<Rightarrow> nat \<Rightarrow>
   'c option \<times> nat option \<times> 'c slot_phase \<Rightarrow> 'c option \<times> nat option \<times> 'c slot_phase \<Rightarrow> bool"
  for dial use me where
  cached: "slot_step dial use me (Some c, None, Asking) (Some c, None, Using c True False)"
| ask: "slot_step dial use me (None, None, Asking) (None, Some me, Dialling False)"
| dialled: "dial again (Ok c) \<Longrightarrow>
    slot_step dial use me (s, Some me, Dialling again) (Some c, None, Using c False again)"
| undialled: "dial again r \<Longrightarrow> \<not> is_ok r \<Longrightarrow>
    slot_step dial use me (s, Some me, Dialling again) (s, None, Done (failure r))"
| used: "use c r \<Longrightarrow> slot_step dial use me (s, own, Using c was_cached again) (s, own, after_use was_cached again r)"
| reset: "slot_step dial use me (s, None, Resetting) (s, Some me, Dialling True)"
| clear: "slot_step dial use me (s, None, Clearing e) (None, None, Done (Err e))"

inductive_cases slot_stepE: "slot_step dial use me x y"

section \<open>One request at one upstream\<close>

datatype lock = ConnLock | H3Lock | SenderLock nat

type_synonym locks = "lock owners"

datatype 'h attempt =
  Begin
| OnConn "'h slot_phase"
| Probing
| OnClient "'h https_connector slot_phase"
| H3Asking
| H3Resolving
| H3Using nat bool bool
| H3Connecting nat bool bool
| H3Sending nat 'h bool bool
| H3Resetting nat
| H3Reconnecting nat
| H3Clearing doh_error
| DcFetching bool
| DcUsing certificate bool
| Settled "message dres"

fun settled :: "'h attempt \<Rightarrow> message dres option" where
  "settled (Settled r) = Some r"
| "settled (OnConn (Done r)) = Some r"
| "settled (OnClient (Done r)) = Some r"
| "settled _ = None"

fun stateless :: "'h upstream \<Rightarrow> bool" where
  "stateless (Dot v) = True"
| "stateless (PlainUdp v) = True"
| "stateless (PlainTcp v) = True"
| "stateless _ = False"

text \<open>A resolver that answers this time as \<open>R\<close>.\<close>

fun resolving :: "resolver \<Rightarrow> 'h upstream \<Rightarrow> 'h upstream" where
  "resolving R (Dot v) = Dot (v\<lparr>up_resolver := R\<rparr>)"
| "resolving R (PlainTcp v) = PlainTcp (v\<lparr>up_resolver := R\<rparr>)"
| "resolving R u = u"

text \<open>The outcomes of the calls between two locks, for any network and any state of the resolvers.\<close>

definition doq_dials :: "doq_upstream \<Rightarrow> bool \<Rightarrow> 'h dres \<Rightarrow> bool" where
  "doq_dials v again r \<longleftrightarrow> (\<exists>N R. fut_value (doq_dial N (v\<lparr>up_resolver := R\<rparr>)) = Some r)"

definition doq_uses :: "dnslib \<Rightarrow> doq_upstream \<Rightarrow> message \<Rightarrow> 'h \<Rightarrow> message dres \<Rightarrow> bool" where
  "doq_uses L v req c r \<longleftrightarrow> (\<exists>N. fut_value (doq_exchange_on L N v c req) = Some r)"

definition doh_dials :: "doh_upstream \<Rightarrow> bool \<Rightarrow> 'h https_connector dres \<Rightarrow> bool" where
  "doh_dials v again r \<longleftrightarrow>
     (\<exists>N R. fut_value ((if again then create_client else timely_client) N (v\<lparr>doh_resolver := R\<rparr>)) = Some r)"

definition doh_uses :: "dnslib \<Rightarrow> doh_upstream \<Rightarrow> message \<Rightarrow> 'h https_connector \<Rightarrow> message dres \<Rightarrow> bool" where
  "doh_uses L v req c r \<longleftrightarrow> (\<exists>B N H. fut_value (exchange_https L B N H v c req) = Some r)"

definition doh_resolves :: "doh_upstream \<Rightarrow> socket_addr dres \<Rightarrow> bool" where
  "doh_resolves v r \<longleftrightarrow> (\<exists>R. fut_value (resolve_first (v\<lparr>doh_resolver := R\<rparr>)) = Some r)"

definition doh_probes :: "'h itself \<Rightarrow> doh_upstream \<Rightarrow> bool dres \<Rightarrow> bool" where
  "doh_probes h v r \<longleftrightarrow>
     (\<exists>(N :: 'h net) quic_first R. fut_value (probe_preference N quic_first (v\<lparr>doh_resolver := R\<rparr>)) = Some r)"

definition h3_connects :: "h3_transport \<Rightarrow> 'h dres \<Rightarrow> bool" where
  "h3_connects tr r \<longleftrightarrow> (\<exists>N H. fut_value (h3_connect N H tr) = Some r)"

definition h3_sends :: "dnslib \<Rightarrow> h3_transport \<Rightarrow> 'h \<Rightarrow> message \<Rightarrow> message dres \<Rightarrow> bool" where
  "h3_sends L tr s req r \<longleftrightarrow> (\<exists>B H fuel. fut_value (h3_send L B H fuel tr s req) = Some r)"

definition dc_fetches ::
  "'h itself \<Rightarrow> dnslib \<Rightarrow> dnscrypt_upstream \<Rightarrow> certificate option \<Rightarrow> certificate dres \<Rightarrow> certificate option \<Rightarrow> bool" where
  "dc_fetches h L v c r c' \<longleftrightarrow> (\<exists>C (N :: 'h net) su. fut_value (refresh_cert L C N v su c) = Some (r, c'))"

definition dc_uses :: "'h itself \<Rightarrow> dnslib \<Rightarrow> dnscrypt_upstream \<Rightarrow> certificate \<Rightarrow> message \<Rightarrow> message dres \<Rightarrow> bool" where
  "dc_uses h L v cert req r \<longleftrightarrow> (\<exists>C (N :: 'h net) su. fut_value (exchange_with_cert L C N v su cert req) = Some r)"

definition plain_uses :: "dnslib \<Rightarrow> 'h upstream \<Rightarrow> message \<Rightarrow> message dres \<Rightarrow> bool" where
  "plain_uses L u req r \<longleftrightarrow>
     (\<exists>W R u'. w_dns W = L \<and> fut_value (upstream_exchange W (resolving R u) req) = Some (r, u'))"

text \<open>The path that the choice of the HTTP version leads to.\<close>

definition chosen :: "bool dres \<Rightarrow> 'h attempt" where
  "chosen r = (case r of Ok p \<Rightarrow> if p then H3Asking else OnClient Asking | Err e \<Rightarrow> Settled (Err e) | Panic \<Rightarrow> Settled Panic)"

definition keep_preference :: "bool dres \<Rightarrow> 'h doh_state \<Rightarrow> 'h doh_state" where
  "keep_preference r st = (case r of Ok p \<Rightarrow> st\<lparr>st_prefer_h3 := Some p\<rparr> | _ \<Rightarrow> st)"

definition after_h3 :: "nat \<Rightarrow> bool \<Rightarrow> bool \<Rightarrow> message dres \<Rightarrow> 'h attempt" where
  "after_h3 t was_cached again r =
     (case r of
        Err e \<Rightarrow> if again then Settled r else if was_cached \<and> should_retry e then H3Resetting t else H3Clearing e
      | Ok resp \<Rightarrow> Settled r
      | Panic \<Rightarrow> Settled r)"

definition after_cert :: "bool \<Rightarrow> message dres \<Rightarrow> 'h attempt" where
  "after_cert again r =
     (case r of
        Err e \<Rightarrow> if \<not> again \<and> timeout_or_io e then DcFetching True else Settled r
      | Ok resp \<Rightarrow> Settled r
      | Panic \<Rightarrow> Settled r)"

definition fetched :: "bool \<Rightarrow> certificate dres \<Rightarrow> 'h attempt" where
  "fetched again r = (case r of Ok cert \<Rightarrow> DcUsing cert again | Err e \<Rightarrow> Settled (Err e) | Panic \<Rightarrow> Settled Panic)"

fun in_dnscrypt :: "'h attempt \<Rightarrow> bool" where
  "in_dnscrypt Begin = True"
| "in_dnscrypt (DcFetching again) = True"
| "in_dnscrypt (DcUsing cert again) = True"
| "in_dnscrypt _ = False"

text \<open>
  The steps over the upstream's state, its locks and where the request is. A DNSCrypt exchange may be
  cut off by its deadline wherever it waits; the locks of the certificate and of the HTTP version are
  never held while waiting.
\<close>

inductive client_step ::
  "dnslib \<Rightarrow> nat \<Rightarrow> message \<Rightarrow> 'h upstream \<times> locks \<times> 'h attempt \<Rightarrow> 'h upstream \<times> locks \<times> 'h attempt \<Rightarrow> bool"
  for L me req where
  plain: "\<lbrakk>stateless u; plain_uses L u req r\<rbrakk> \<Longrightarrow>
    client_step L me req (u, ow, Begin) (u, ow, Settled r)"
| doq_begin: "client_step L me req (Doq v c, ow, Begin) (Doq v c, ow, OnConn Asking)"
| doq: "slot_step (doq_dials v) (doq_uses L v req) me (c, ow ConnLock, ph) (c', own, ph') \<Longrightarrow>
    client_step L me req (Doq v c, ow, OnConn ph) (Doq v c', ow(ConnLock := own), OnConn ph')"
| doh_known: "known_preference v st = Some p \<Longrightarrow>
    client_step L me req (Doh v st, ow, Begin) (Doh v st, ow, chosen (Ok p))"
| doh_probe: "known_preference v st = None \<Longrightarrow>
    client_step L me req (Doh v st, ow, Begin) (Doh v st, ow, Probing)"
| doh_probed: "doh_probes TYPE('h) v r \<Longrightarrow>
    client_step L me req (Doh v st, ow, Probing) (Doh v (keep_preference r st), ow, chosen r)"
| doh: "slot_step (doh_dials v) (doh_uses L v req) me (st_client st, ow ConnLock, ph) (c', own, ph') \<Longrightarrow>
    client_step L me req (Doh v st, ow, OnClient ph) (Doh v (st\<lparr>st_client := c'\<rparr>), ow(ConnLock := own), OnClient ph')"
| h3_cached: "\<lbrakk>ow H3Lock = None; st_h3 st = Some t\<rbrakk> \<Longrightarrow>
    client_step L me req (Doh v st, ow, H3Asking) (Doh v st, ow, H3Using t True False)"
| h3_ask: "\<lbrakk>ow H3Lock = None; st_h3 st = None\<rbrakk> \<Longrightarrow>
    client_step L me req (Doh v st, ow, H3Asking) (Doh v st, ow(H3Lock := Some me), H3Resolving)"
| h3_resolved: "\<lbrakk>ow H3Lock = Some me; doh_resolves v (Ok addr)\<rbrakk> \<Longrightarrow>
    client_step L me req (Doh v st, ow, H3Resolving)
      (Doh v (add_transport (new_transport v addr) st), ow(H3Lock := None), H3Using (length (st_transports st)) False False)"
| h3_unresolved: "\<lbrakk>ow H3Lock = Some me; doh_resolves v r; \<not> is_ok r\<rbrakk> \<Longrightarrow>
    client_step L me req (Doh v st, ow, H3Resolving) (Doh v st, ow(H3Lock := None), Settled (failure r))"
| h3_sender: "\<lbrakk>ow (SenderLock t) = None; sender_at st t = Some s\<rbrakk> \<Longrightarrow>
    client_step L me req (Doh v st, ow, H3Using t was_cached again) (Doh v st, ow, H3Sending t s was_cached again)"
| h3_connect: "\<lbrakk>ow (SenderLock t) = None; sender_at st t = None\<rbrakk> \<Longrightarrow>
    client_step L me req (Doh v st, ow, H3Using t was_cached again)
      (Doh v st, ow(SenderLock t := Some me), H3Connecting t was_cached again)"
| h3_connected: "\<lbrakk>ow (SenderLock t) = Some me; h3_connects (transport_at st t) (Ok s)\<rbrakk> \<Longrightarrow>
    client_step L me req (Doh v st, ow, H3Connecting t was_cached again)
      (Doh v (set_sender t (Some s) st), ow(SenderLock t := None), H3Sending t s was_cached again)"
| h3_unconnected: "\<lbrakk>ow (SenderLock t) = Some me; h3_connects (transport_at st t) (r :: 'h dres); \<not> is_ok r\<rbrakk> \<Longrightarrow>
    client_step L me req (Doh v st, ow, H3Connecting t was_cached again)
      (Doh v st, ow(SenderLock t := None), after_h3 t was_cached again (failure r))"
| h3_sent: "h3_sends L (transport_at st t) s req r \<Longrightarrow>
    client_step L me req (Doh v st, ow, H3Sending t s was_cached again) (Doh v st, ow, after_h3 t was_cached again r)"
| h3_reset: "ow (SenderLock t) = None \<Longrightarrow>
    client_step L me req (Doh v st, ow, H3Resetting t) (Doh v st, ow(SenderLock t := Some me), H3Reconnecting t)"
| h3_reconnected: "\<lbrakk>ow (SenderLock t) = Some me; h3_connects (transport_at st t) (Ok s)\<rbrakk> \<Longrightarrow>
    client_step L me req (Doh v st, ow, H3Reconnecting t)
      (Doh v (set_sender t (Some s) st), ow(SenderLock t := None), H3Using t True True)"
| h3_unreconnected: "\<lbrakk>ow (SenderLock t) = Some me; h3_connects (transport_at st t) (r :: 'h dres); \<not> is_ok r\<rbrakk> \<Longrightarrow>
    client_step L me req (Doh v st, ow, H3Reconnecting t) (Doh v st, ow(SenderLock t := None), Settled (failure r))"
| h3_clear: "ow H3Lock = None \<Longrightarrow>
    client_step L me req (Doh v st, ow, H3Clearing e) (Doh v (st\<lparr>st_h3 := None\<rparr>), ow, Settled (Err e))"
| dc_valid: "is_valid_at cert now' \<Longrightarrow>
    client_step L me req (DnsCryptUp v (Some cert), ow, Begin) (DnsCryptUp v (Some cert), ow, DcUsing cert False)"
| dc_invalid: "(case c of Some cert \<Rightarrow> \<not> is_valid_at cert now' | None \<Rightarrow> True) \<Longrightarrow>
    client_step L me req (DnsCryptUp v c, ow, Begin) (DnsCryptUp v c, ow, DcFetching False)"
| dc_fetched: "dc_fetches TYPE('h) L v c r c' \<Longrightarrow>
    client_step L me req (DnsCryptUp v c, ow, DcFetching again) (DnsCryptUp v c', ow, fetched again r)"
| dc_used: "dc_uses TYPE('h) L v cert req r \<Longrightarrow>
    client_step L me req (DnsCryptUp v c, ow, DcUsing cert again) (DnsCryptUp v c, ow, after_cert again r)"
| dc_timeout: "\<lbrakk>dc_timeout v = Some d; in_dnscrypt x\<rbrakk> \<Longrightarrow>
    client_step L me req (DnsCryptUp v c, ow, x) (DnsCryptUp v c, ow, Settled (Err (Timeout d)))"

inductive_cases client_stepE: "client_step L me req x y"

end
