(* ===== verification/Client_Locks.thy ===== *)
theory Client_Locks
  imports Shared_Clients
begin

text \<open>
  What the steps of \<open>Shared_Clients\<close> promise: a request holds at most one lock at a time, and none
  while it waits for one, so requests never wait for each other in a circle; it ends after a bounded
  number of its own steps; an answer is an answer to the question asked. A sequential exchange of
  \<open>Upstream\<close> is the steps run without a break.
\<close>

section \<open>The locks of a request\<close>

fun slot_rank :: "'c slot_phase \<Rightarrow> nat" where
  "slot_rank Asking = 6"
| "slot_rank (Dialling again) = (if again then 2 else 5)"
| "slot_rank (Using c w again) = (if again then 1 else 4)"
| "slot_rank Resetting = 3"
| "slot_rank (Clearing e) = 1"
| "slot_rank (Done r) = 0"

fun slot_holds :: "'c slot_phase \<Rightarrow> lock option" where
  "slot_holds (Dialling again) = Some ConnLock"
| "slot_holds ph = None"

fun slot_wants :: "'c slot_phase \<Rightarrow> lock option" where
  "slot_wants Asking = Some ConnLock"
| "slot_wants Resetting = Some ConnLock"
| "slot_wants (Clearing e) = Some ConnLock"
| "slot_wants ph = None"

fun holds :: "'h attempt \<Rightarrow> lock option" where
  "holds (OnConn ph) = slot_holds ph"
| "holds (OnClient ph) = slot_holds ph"
| "holds H3Resolving = Some H3Lock"
| "holds (H3Connecting t w again) = Some (SenderLock t)"
| "holds (H3Reconnecting t) = Some (SenderLock t)"
| "holds x = None"

fun wants :: "'h attempt \<Rightarrow> lock option" where
  "wants (OnConn ph) = slot_wants ph"
| "wants (OnClient ph) = slot_wants ph"
| "wants H3Asking = Some H3Lock"
| "wants (H3Clearing e) = Some H3Lock"
| "wants (H3Using t w again) = Some (SenderLock t)"
| "wants (H3Resetting t) = Some (SenderLock t)"
| "wants x = None"

fun attempt_rank :: "'h attempt \<Rightarrow> nat" where
  "attempt_rank Begin = 12"
| "attempt_rank Probing = 11"
| "attempt_rank (OnConn ph) = slot_rank ph"
| "attempt_rank (OnClient ph) = slot_rank ph"
| "attempt_rank H3Asking = 10"
| "attempt_rank H3Resolving = 9"
| "attempt_rank (H3Using t w again) = (if again then 3 else 8)"
| "attempt_rank (H3Connecting t w again) = (if again then 2 else 7)"
| "attempt_rank (H3Sending t s w again) = (if again then 1 else 6)"
| "attempt_rank (H3Resetting t) = 5"
| "attempt_rank (H3Reconnecting t) = 4"
| "attempt_rank (H3Clearing e) = 1"
| "attempt_rank (DcFetching again) = (if again then 2 else 4)"
| "attempt_rank (DcUsing cert again) = (if again then 1 else 3)"
| "attempt_rank (Settled r) = 0"

text \<open>The places that an exchange with an upstream of each kind goes through; transports exist.\<close>

fun h3_index :: "'h attempt \<Rightarrow> nat option" where
  "h3_index (H3Using t w again) = Some t"
| "h3_index (H3Connecting t w again) = Some t"
| "h3_index (H3Sending t s w again) = Some t"
| "h3_index (H3Resetting t) = Some t"
| "h3_index (H3Reconnecting t) = Some t"
| "h3_index x = None"

fun in_doh :: "'h attempt \<Rightarrow> bool" where
  "in_doh Probing = True"
| "in_doh (OnClient ph) = True"
| "in_doh H3Asking = True"
| "in_doh H3Resolving = True"
| "in_doh (H3Clearing e) = True"
| "in_doh x = (h3_index x \<noteq> None)"

definition upstream_ok :: "'h upstream \<Rightarrow> bool" where
  "upstream_ok u = (case u of Doh v st \<Rightarrow> (\<forall>t. st_h3 st = Some t \<longrightarrow> t < length (st_transports st)) | _ \<Rightarrow> True)"

definition placed :: "'h upstream \<Rightarrow> 'h attempt \<Rightarrow> bool" where
  "placed u x =
     (case u of
        Doq v c \<Rightarrow> (\<exists>ph. x = OnConn ph)
      | Doh v st \<Rightarrow> in_doh x \<and> (\<forall>t. h3_index x = Some t \<longrightarrow> t < length (st_transports st))
      | DnsCryptUp v c \<Rightarrow> in_dnscrypt x
      | _ \<Rightarrow> False)"

definition fits :: "'h upstream \<Rightarrow> 'h attempt \<Rightarrow> bool" where
  "fits u x \<longleftrightarrow> upstream_ok u \<and> (x = Begin \<or> (\<exists>r. x = Settled r) \<or> placed u x)"

text \<open>Every step of a request takes it nearer to its end.\<close>

lemma after_use_rank [simp]: "slot_rank (after_use w True r) = 0" "slot_rank (after_use w False r) < 4"
  by (cases r, simp_all add: after_use_def)+

lemma slot_step_rank: "slot_step dial use me (s, own, ph) (s', own', ph') \<Longrightarrow> slot_rank ph' < slot_rank ph"
  by (erule slot_stepE) auto

lemma after_h3_rank [simp]:
  "attempt_rank (after_h3 t w True r) = 0" "attempt_rank (after_h3 t w False r) < 6"
  "attempt_rank (after_h3 t w False r) < 7"
  by (cases r, simp_all add: after_h3_def)+

lemma after_cert_rank [simp]: "attempt_rank (after_cert True r) = 0" "attempt_rank (after_cert False r) < 3"
  by (cases r, simp_all add: after_cert_def)+

lemma fetched_rank [simp]: "attempt_rank (fetched True r) < 2" "attempt_rank (fetched False r) < 4"
  by (cases r, simp_all add: fetched_def)+

lemma chosen_rank [simp]: "attempt_rank (chosen r) < 11" "attempt_rank (chosen r) < 12"
  by (cases r, simp_all add: chosen_def)+

lemma in_dnscrypt_rank: "in_dnscrypt x \<Longrightarrow> 0 < attempt_rank x"
  by (cases x) auto

lemma client_step_rank:
  assumes "client_step L me req (u, ow, x) (u', ow', x')"
  shows "attempt_rank x' < attempt_rank x"
  using assms by cases (auto dest: slot_step_rank in_dnscrypt_rank)

text \<open>What a request does to the locks.\<close>

lemma after_none [simp]:
  "slot_holds (after_use w again r) = None" "holds (after_h3 t w again r) = None"
  "holds (after_cert again r) = None" "holds (fetched again c) = None" "holds (chosen p) = None"
  by (simp_all add: after_use_def after_h3_def after_cert_def fetched_def chosen_def split: res.split)

lemma in_dnscrypt_holds: "in_dnscrypt x \<Longrightarrow> holds x = None"
  by (cases x) auto

lemma slot_holds_conn: "slot_holds ph = None \<or> slot_holds ph = Some ConnLock"
  by (cases ph) auto

lemma slot_step_locks:
  assumes "slot_step dial use me (c, ow ConnLock, ph) (c', own, ph')"
  shows "ow(ConnLock := own) = taken me (slot_holds ph') (released (slot_holds ph) ow)"
  using assms by (cases rule: slot_step.cases) (auto simp: taken_def released_def)

lemma slot_step_takes:
  "slot_step dial use me (c, own, ph) (c', own', ph') \<Longrightarrow> slot_holds ph' = Some l \<Longrightarrow> slot_holds ph = None \<Longrightarrow>
   l = ConnLock \<and> own = None"
  by (erule slot_stepE) auto

lemma client_step_locks:
  assumes "client_step L me req (u, ow, x) (u', ow', x')"
  shows "ow' = taken me (holds x') (released (holds x) ow)"
  using assms
  by cases (auto simp: taken_def released_def in_dnscrypt_holds dest!: slot_step_locks)

lemma client_step_takes:
  assumes "client_step L me req (u, ow, x) (u', ow', x')" "holds x' = Some l" "holds x \<noteq> Some l"
  shows "ow l = None"
  using assms
proof cases
  case (doq v c ph c' own ph')
  then show ?thesis using slot_holds_conn [of ph] slot_holds_conn [of ph'] assms(2,3) slot_step_takes by fastforce
next
  case (doh v st ph c' own ph')
  then show ?thesis using slot_holds_conn [of ph] slot_holds_conn [of ph'] assms(2,3) slot_step_takes by fastforce
qed (use assms(2,3) in auto)

text \<open>Requests stay on the path of their upstream's kind.\<close>

lemma set_sender_sel [simp]:
  "length (st_transports (set_sender t s st)) = length (st_transports st)" "st_h3 (set_sender t s st) = st_h3 st"
  by (simp_all add: set_sender_def)

lemma add_transport_sel [simp]:
  "length (st_transports (add_transport tr st)) = Suc (length (st_transports st))"
  "st_h3 (add_transport tr st) = Some (length (st_transports st))"
  by (simp_all add: add_transport_def)

lemma keep_preference_sel [simp]:
  "st_transports (keep_preference r st) = st_transports st" "st_h3 (keep_preference r st) = st_h3 st"
  by (cases r; simp add: keep_preference_def)+

lemma client_step_upstream_ok:
  assumes "client_step L me req (u, ow, x) (u', ow', x')" "upstream_ok u"
  shows "upstream_ok u'"
  using assms by cases (auto simp: upstream_ok_def less_Suc_eq)

lemma client_step_placed_others:
  assumes "client_step L me req (u, ow, x) (u', ow', x')" "placed u y"
  shows "placed u' y"
  using assms by cases (auto simp: placed_def less_SucI)

lemma fits_chosen: "fits (Doh v st) Begin \<Longrightarrow> fits (Doh v st) (chosen r)"
  by (cases r) (auto simp: fits_def placed_def chosen_def)

lemma fits_after_h3: "fits (Doh v st) (H3Using t w again) \<Longrightarrow> fits (Doh v st) (after_h3 t w again r)"
  by (cases r) (auto simp: fits_def placed_def after_h3_def)

lemma fits_dnscrypt:
  "fits (DnsCryptUp v c) (after_cert again r)" "fits (DnsCryptUp v c) (fetched again r')"
  by (cases r; simp add: fits_def placed_def after_cert_def upstream_ok_def)
    (cases r'; simp add: fits_def placed_def fetched_def upstream_ok_def)

lemma client_step_fits:
  assumes "client_step L me req (u, ow, x) (u', ow', x')" "fits u x"
  shows "fits u' x'"
  using assms
proof cases
  case (doh_known v st p)
  then show ?thesis using fits_chosen assms(2) by simp
next
  case (doh_probed v r st)
  then have "fits u' Begin" using client_step_upstream_ok [OF assms(1)] assms(2) by (simp add: fits_def)
  then show ?thesis using fits_chosen doh_probed by simp
next
  case (h3_sent st t s r v w again)
  then show ?thesis using fits_after_h3 [of v st t w again] assms(2) by (simp add: fits_def placed_def)
next
  case (h3_unconnected t st r v w again)
  then show ?thesis using fits_after_h3 [of v st t w again] assms(2) by (simp add: fits_def placed_def)
qed (use assms(2) client_step_upstream_ok [OF assms(1)] in
    \<open>auto simp: fits_dnscrypt, auto simp: fits_def placed_def upstream_ok_def\<close>)

lemma client_step_fits_others:
  assumes "client_step L me req (u, ow, x) (u', ow', x')" "fits u y"
  shows "fits u' y"
  using client_step_upstream_ok [OF assms(1)] client_step_placed_others [OF assms(1)] assms(2)
  by (auto simp: fits_def)

section \<open>Answers\<close>

text \<open>An answer that a request has settled with is an answer to its question.\<close>

definition attempt_ok :: "dnslib \<Rightarrow> message \<Rightarrow> 'h attempt \<Rightarrow> bool" where
  "attempt_ok L req x \<longleftrightarrow> (\<forall>resp. settled x = Some (Ok resp) \<longrightarrow> same_question L req resp)"

definition slot_ok :: "dnslib \<Rightarrow> message \<Rightarrow> 'c slot_phase \<Rightarrow> bool" where
  "slot_ok L req ph \<longleftrightarrow> (\<forall>resp. ph = Done (Ok resp) \<longrightarrow> same_question L req resp)"

lemma attempt_ok_slot [simp]:
  "attempt_ok L req (OnConn ph) = slot_ok L req ph" "attempt_ok L req (OnClient ph') = slot_ok L req ph'"
  by (cases ph; simp add: attempt_ok_def slot_ok_def) (cases ph'; simp add: attempt_ok_def slot_ok_def)

lemma failure_not_ok [simp]: "\<not> is_ok r \<Longrightarrow> failure r \<noteq> Ok resp"
  by (cases r) auto

lemma slot_step_ok:
  assumes "slot_step dial use me (s, own, ph) (s', own', ph')"
    and "\<And>c resp. use c (Ok resp) \<Longrightarrow> same_question L req resp"
  shows "slot_ok L req ph'"
  using assms(1)
  by (cases rule: slot_step.cases)
    (use assms(2) in \<open>auto simp: slot_ok_def after_use_def split: res.splits if_splits\<close>)

lemma doq_uses_ok: "doq_uses L v req c (Ok resp) \<Longrightarrow> same_question L req resp"
  unfolding doq_uses_def by (elim exE) (simp add: doq_exchange_on_ok)

lemma doh_uses_ok: "doh_uses L v req c (Ok resp) \<Longrightarrow> same_question L req resp"
  unfolding doh_uses_def using exchange_https_ok by blast

lemma h3_sends_ok: "h3_sends L tr s req (Ok resp) \<Longrightarrow> same_question L req resp"
  unfolding h3_sends_def by (elim exE) (simp add: h3_send_ok)

lemma dc_uses_ok: "dc_uses h L v cert req (Ok resp) \<Longrightarrow> same_question L req resp"
  unfolding dc_uses_def by (elim exE) (rule exchange_with_cert_ok)

lemma plain_uses_ok: "plain_uses L u req (Ok resp) \<Longrightarrow> same_question L req resp"
  unfolding plain_uses_def
proof (elim exE conjE)
  fix W R u'
  assume "w_dns W = L" "fut_value (upstream_exchange W (resolving R u) req) = Some (Ok resp, u')"
  then show ?thesis using any_upstream.exchange_validated [of W "resolving R u" req resp]
    by (simp add: upstream_answer_def)
qed

lemma client_step_ok:
  assumes "client_step L me req (u, ow, x) (u', ow', x')"
  shows "attempt_ok L req x'"
  using assms
proof cases
  case (doq v c ph c' own ph')
  then show ?thesis using slot_step_ok [OF doq(6) doq_uses_ok] by simp
next
  case (doh v st ph c' own ph')
  then show ?thesis using slot_step_ok [OF doh(6) doh_uses_ok] by simp
qed (auto simp: attempt_ok_def slot_ok_def chosen_def fetched_def after_h3_def after_cert_def h3_sends_ok dc_uses_ok plain_uses_ok
    split: res.splits if_splits)

section \<open>Requests get on\<close>

text \<open>A network that refuses every operation, and a resolver that finds nothing.\<close>

definition dead_io :: "'a io" where
  "dead_io = now (Err ''refused'')"

definition dead_net :: "'h net" where
  "dead_net = \<lparr>udp_bind = \<lambda>_. dead_io, udp_connect = \<lambda>_ _. dead_io, udp_send = \<lambda>_ _. dead_io,
     udp_recv = \<lambda>_ _. dead_io, tcp_connect = \<lambda>_. dead_io, write_all = \<lambda>_ _. dead_io,
     read_exact = \<lambda>_ _. dead_io, read_exact2 = \<lambda>_. dead_io, server_name_try_from = Inl,
     tls_connect = \<lambda>_ _ _. dead_io, quic_endpoint = Inl, quic_client_config = \<lambda>_. Inl ''refused'',
     quic_connect = \<lambda>_ _ _ _. dead_io, quic_open_bi = \<lambda>_. dead_io, quic_finish = \<lambda>_. dead_io,
     getaddrinfo = \<lambda>_. dead_io\<rparr>"

definition dead_lookup :: resolver where
  "dead_lookup host = now (Ok [])"

definition dead_http :: "'h http" where
  "dead_http = \<lparr>uri_parse = Inl, request_build = \<lambda>_. Inl ''refused'', hyper_request = \<lambda>_ _. now (Err []),
     body_collect = \<lambda>_. dead_io, h3_client_new = \<lambda>_. dead_io, h3_send_request = \<lambda>_ _. dead_io,
     h3_finish = \<lambda>_. dead_io, h3_recv_response = \<lambda>_. dead_io, h3_recv_data = \<lambda>_. dead_io\<rparr>"

lemmas dead_defs = dead_net_def dead_http_def dead_io_def

definition ends :: "'a fut \<Rightarrow> bool" where
  "ends f \<longleftrightarrow> (\<exists>x. fut_value f = Some x)"

lemma ends_simps [simp]:
  "ends (Ready t r)" "\<not> ends Never" "ends (map_fut g f) = ends f" "ends (with_st s f') = ends f'"
  "ends (delay t f) = ends f"
  by (auto simp: ends_def with_st_def)

lemma ends_timeout: "ends f \<Longrightarrow> ends (with_timeout tmo e f)" "ends f' \<Longrightarrow> ends (or_timeout tmo f')"
  by (cases tmo; cases f; simp) (cases tmo; cases f'; simp add: or_timeout_def)

lemma ends_await:
  "ends f \<Longrightarrow> (\<And>x. ends (g x)) \<Longrightarrow> ends (await_ok f g)"
  "ends f' \<Longrightarrow> (\<And>x s. ends (h x s)) \<Longrightarrow> ends (await_st f' h)"
  by (cases "(f, g)" rule: await_ok.cases; auto simp: ends_def)
    (cases "(f', h)" rule: await_st.cases; auto simp: ends_def)

lemmas ends_intros = ends_await ends_timeout

lemma dead_dials:
  "ends (dial_quic dead_net addr nm config)" "ends (dc_udp dead_net addr b)"
  "ends (dc_tcp dead_net addr b)" "ends (dial_one dead_net addr nw tmo)" "ends (probe_tls dead_net addr nm)"
  by (auto simp: dead_defs dial_quic_def dc_udp_def dc_tcp_def dial_one_def probe_tls_def
      intro!: ends_intros split: network.splits)

lemma dead_resolve: "ends (resolve_addrs host port tmo dead_lookup p6)"
  by (auto simp: resolve_addrs_def dead_lookup_def intro!: ends_intros split: option.split)

lemma ends_Ready: "ends f \<Longrightarrow> (\<And>t r. f = Ready t r \<Longrightarrow> P) \<Longrightarrow> P"
  by (cases f) auto

lemma ends_dial_loop: "(\<And>a. ends (dial a)) \<Longrightarrow> ends (dial_loop dial addrs e)"
proof (induction addrs arbitrary: e)
  case (Cons a addrs)
  obtain t r where "dial a = Ready t r" using ends_Ready [OF Cons.prems [of a]] by blast
  then show ?case using Cons by (cases r) (auto simp: ends_def)
qed simp

lemma ends_race: "ends f \<Longrightarrow> ends g \<Longrightarrow> ends (race qf f g)"
  by (cases f; cases g) (auto simp: race_def)

lemma ends_timely_client: "ends (create_client N v) \<Longrightarrow> ends (timely_client N v)"
  by (erule ends_Ready) (auto simp: timely_client_def split: res.splits)

text \<open>Each of the calls has some outcome.\<close>

lemma doq_outcomes: "\<exists>r. doq_dials v again r" "\<exists>r. doq_uses L v req c r"
proof -
  have "ends (doq_dial dead_net (v\<lparr>up_resolver := dead_lookup\<rparr>))"
    by (auto simp: doq_dial_def intro!: ends_intros dead_resolve dead_dials)
  then show "\<exists>r. doq_dials v again r" unfolding doq_dials_def ends_def by blast
  have "ends (doq_exchange_on L dead_net v c req)"
    by (auto simp: doq_exchange_on_def Let_def dead_defs intro!: ends_intros)
  then show "\<exists>r. doq_uses L v req c r" unfolding doq_uses_def ends_def by blast
qed

lemma dead_create_client: "ends (create_client N (v\<lparr>doh_resolver := dead_lookup\<rparr>))"
  by (auto simp: create_client_def resolve_dial_context_def Let_def intro!: ends_intros dead_resolve)

lemma dead_resolve_first: "ends (resolve_first (v\<lparr>doh_resolver := dead_lookup\<rparr>))"
  by (auto simp: resolve_first_def intro!: ends_intros dead_resolve)

lemma dead_probe_h3: "ends (probe_h3 dead_net qf addr nm config tmo True)"
  using ends_race [OF dead_dials(1) [of addr nm config] dead_dials(5) [of addr nm], of qf]
  by (auto simp: probe_h3_def Let_def split: option.split fut.split)

lemma dead_probe_preference: "ends (probe_preference dead_net qf (v\<lparr>doh_resolver := dead_lookup\<rparr>))"
  by (auto simp: probe_preference_def intro!: ends_intros dead_resolve_first dead_probe_h3)

lemma doh_outcomes:
  fixes h :: "'h itself" and c :: "'h https_connector"
  shows "\<exists>r. doh_dials v again (r :: 'h https_connector dres)" "\<exists>r. doh_uses L v req c r" "\<exists>r. doh_resolves v r"
    "\<exists>r. doh_probes h v r"
proof -
  have "ends ((if again then create_client else timely_client) (dead_net :: 'h net) (v\<lparr>doh_resolver := dead_lookup\<rparr>))"
    by (simp add: ends_timely_client dead_create_client)
  then show "\<exists>r. doh_dials v again (r :: 'h https_connector dres)" unfolding doh_dials_def ends_def by blast
  have "ends (exchange_https L undefined dead_net dead_http v c req)"
    by (auto simp: exchange_https_def doh_request_def dead_defs intro!: ends_intros)
  then show "\<exists>r. doh_uses L v req c r" unfolding doh_uses_def ends_def by blast
  show "\<exists>r. doh_resolves v r" using dead_resolve_first unfolding doh_resolves_def ends_def by blast
  show "\<exists>r. doh_probes h v r" using dead_probe_preference unfolding doh_probes_def ends_def by blast
qed

lemma h3_outcomes: "\<exists>r. h3_connects tr r" "\<exists>r. h3_sends L tr s req r"
proof -
  have "ends (h3_connect dead_net dead_http tr)" 
    by (auto simp: h3_connect_def dial_quic_def dead_defs intro!: ends_intros)
  then show "\<exists>r. h3_connects tr r" unfolding h3_connects_def ends_def by blast
  have "ends (h3_send L undefined dead_http 0 tr s req)"
    by (auto simp: h3_send_def doh_request_def dead_defs intro!: ends_intros)
  then show "\<exists>r. h3_sends L tr s req r" unfolding h3_sends_def ends_def by blast
qed

lemma dead_refresh: "ends (refresh_cert L C dead_net v su c)"
  by (auto simp: refresh_cert_def fetch_provider_txt_def Let_def intro!: ends_intros dead_dials)

lemma dead_exchange: "ends (exchange_with_cert L C dead_net v su cert req)"
  by (auto simp: exchange_with_cert_def Let_def intro!: ends_intros dead_dials)

lemma dc_outcomes: "\<exists>r c'. dc_fetches h L v c r c'" "\<exists>r. dc_uses h' L v cert req r"
  using dead_refresh dead_exchange unfolding dc_fetches_def dc_uses_def ends_def by fast+

lemma dead_new_dial_context: "ends (new_dial_context dead_net tmo addrs nw)"
  by (auto simp: new_dial_context_def intro!: ends_dial_loop dead_dials)

lemma dead_dial_tcp: "ends (dial_tcp dead_net (v\<lparr>up_resolver := dead_lookup\<rparr>))"
proof (rule ends_Ready [OF dead_resolve [of "up_host v" "up_port v" "up_timeout v" "up_prefer_ipv6 v"]])
  fix t r
  assume "resolve_addrs (up_host v) (up_port v) (up_timeout v) dead_lookup (up_prefer_ipv6 v) = Ready t r"
  then show ?thesis
    by (cases r) (auto simp: dial_tcp_def resolve_dial_context_def intro!: ends_await dead_new_dial_context)
qed

lemma dead_plain:
  "stateless u \<Longrightarrow> w_net W = dead_net \<Longrightarrow> ends (upstream_exchange W (resolving dead_lookup u) req)"
  by (cases u)
    (auto simp: dot_exchange_def tcp_exchange_def udp_exchange_def framed_exchange_def write_framed_def
      read_framed_def tls_handshake_def dead_defs intro!: ends_intros dead_dial_tcp [unfolded dead_defs])

lemma plain_outcome:
  assumes "stateless u"
  shows "\<exists>r. plain_uses L u req r"
proof -
  obtain t r u' where "upstream_exchange (undefined\<lparr>w_dns := L, w_net := dead_net\<rparr>) (resolving dead_lookup u) req = Ready t (r, u')"
    using ends_Ready [OF dead_plain [OF assms, of "undefined\<lparr>w_dns := L, w_net := dead_net\<rparr>" req]] by fastforce
  then have "plain_uses L u req r"
    unfolding plain_uses_def
    by (intro exI [of _ "undefined\<lparr>w_dns := L, w_net := dead_net\<rparr>"] exI [of _ dead_lookup] exI [of _ u']) simp
  then show ?thesis by blast
qed

lemma slot_can_step:
  assumes "\<And>again. \<exists>r. dial again r" "\<And>c. \<exists>r. use c r" "\<And>r. ph \<noteq> Done r"
    and "slot_wants ph \<noteq> None \<Longrightarrow> own = None" "slot_holds ph \<noteq> None \<Longrightarrow> own = Some me"
  shows "\<exists>s' own' ph'. slot_step dial use me (s, own, ph) (s', own', ph')"
proof (cases ph)
  case Asking
  then show ?thesis using assms(4) by (cases s) (auto intro: slot_step.intros)
next
  case (Dialling again)
  obtain r where r: "dial again r" using assms(1) by blast
  have own: "own = Some me" using assms(5) Dialling by simp
  show ?thesis
  proof (cases "is_ok r")
    case True
    then show ?thesis using r own Dialling by (cases r) (auto intro: slot_step.dialled)
  qed (use own Dialling slot_step.undialled [of dial again r use me s] r in auto)
next
  case (Using c w again)
  then show ?thesis using assms(2) [of c] by (auto intro: slot_step.used)
qed (use assms(3-5) in \<open>auto intro: slot_step.intros\<close>)

abbreviation moves :: "dnslib \<Rightarrow> nat \<Rightarrow> message \<Rightarrow> 'h upstream \<Rightarrow> locks \<Rightarrow> 'h attempt \<Rightarrow> bool" where
  "moves L me req u ow x \<equiv> \<exists>y. client_step L me req (u, ow, x) y"

lemma slot_settled: "settled (OnConn ph) = None \<longleftrightarrow> (\<forall>r. ph \<noteq> Done r)" "settled (OnClient ph') = None \<longleftrightarrow> (\<forall>r. ph' \<noteq> Done r)"
  by (cases ph; simp) (cases ph'; simp)

lemma slot_wants_conn: "slot_wants ph = None \<or> slot_wants ph = Some ConnLock"
  by (cases ph) auto

lemma h3_connect_moves:
  assumes "ow (SenderLock t) = Some me"
  shows "moves L me req (Doh v st) ow (H3Connecting t w again)" "moves L me req (Doh v st) ow (H3Reconnecting t)"
proof -
  obtain r where r: "h3_connects (transport_at st t) (r :: 'a dres)" using h3_outcomes(1) by blast
  show "moves L me req (Doh v st) ow (H3Connecting t w again)" "moves L me req (Doh v st) ow (H3Reconnecting t)"
    using client_step.h3_connected client_step.h3_unconnected client_step.h3_reconnected
      client_step.h3_unreconnected r assms
    by (cases r; fastforce)+
qed

lemma h3_resolve_moves:
  assumes "ow H3Lock = Some me"
  shows "moves L me req (Doh v st) ow H3Resolving"
proof -
  obtain r where "doh_resolves v r" using doh_outcomes(3) by blast
  then show ?thesis
    using assms client_step.h3_resolved client_step.h3_unresolved by (cases r) fastforce+
qed

lemma doh_moves:
  assumes "in_doh x" "settled x = None"
    and "\<And>l. wants x = Some l \<Longrightarrow> ow l = None" "\<And>l. holds x = Some l \<Longrightarrow> ow l = Some me"
  shows "moves L me req (Doh v st) ow x"
proof (cases x)
  case Probing
  obtain r where "doh_probes TYPE('a) v r" using doh_outcomes(4) by blast
  from client_step.doh_probed [OF this] Probing show ?thesis by blast
next
  case (OnClient ph)
  have "\<exists>s' own' ph'. slot_step (doh_dials v) (doh_uses L v req) me (st_client st, ow ConnLock, ph) (s', own', ph')"
    by (rule slot_can_step [OF doh_outcomes(1,2)])
      (use assms(2-4) OnClient slot_settled(2) slot_wants_conn [of ph] slot_holds_conn [of ph] in auto)
  then show ?thesis using client_step.doh OnClient by blast
next
  case (H3Sending t s w again)
  obtain r where "h3_sends L (transport_at st t) s req r"
    using h3_outcomes(2) [of L "transport_at st t" s req] by blast
  from client_step.h3_sent [OF this] H3Sending show ?thesis by blast
next
  case H3Asking
  then have "ow H3Lock = None" using assms(3) by simp
  with H3Asking show ?thesis by (cases "st_h3 st") (blast intro: client_step.h3_cached client_step.h3_ask)+
next
  case (H3Using t w again)
  then have "ow (SenderLock t) = None" using assms(3) by simp
  with H3Using show ?thesis
    by (cases "sender_at st t") (blast intro: client_step.h3_sender client_step.h3_connect)+
next
  case (H3Resetting t)
  then have "ow (SenderLock t) = None" using assms(3) by simp
  with H3Resetting show ?thesis by (blast intro: client_step.h3_reset)
next
  case (H3Clearing e)
  then have "ow H3Lock = None" using assms(3) by simp
  with H3Clearing show ?thesis by (blast intro: client_step.h3_clear)
qed (use assms h3_connect_moves h3_resolve_moves in auto)

lemma plain_moves: "stateless u \<Longrightarrow> moves L me req u ow Begin"
  using plain_outcome [of u L req] client_step.plain by blast

lemma begin_moves: "moves L me req u ow Begin"
proof (cases u)
  case (Doh v st)
  then show ?thesis
    using client_step.doh_known client_step.doh_probe by (cases "known_preference v st") fast+
next
  case (Doq v c)
  then show ?thesis using client_step.doq_begin by fast
next
  case (DnsCryptUp v c)
  show ?thesis
  proof (cases "case c of Some cert \<Rightarrow> \<not> is_valid_at cert 0 | None \<Rightarrow> True")
    case True
    from client_step.dc_invalid [OF this] show ?thesis using DnsCryptUp by blast
  next
    case False
    then obtain cert where "c = Some cert" "is_valid_at cert 0" by (cases c) auto
    with client_step.dc_valid show ?thesis using DnsCryptUp by blast
  qed
qed (rule plain_moves, simp)+

lemma client_can_step:
  assumes "fits u x" "settled x = None"
    and "\<And>l. wants x = Some l \<Longrightarrow> ow l = None" "\<And>l. holds x = Some l \<Longrightarrow> ow l = Some me"
  shows "moves L me req u ow x"
proof (cases "x = Begin")
  case True
  then show ?thesis using begin_moves by simp
next
  case False
  then have x: "placed u x" using assms(1,2) by (auto simp: fits_def)
  show ?thesis
  proof (cases u)
    case (Doh v st)
    then have "in_doh x" using x by (simp add: placed_def)
    from doh_moves [OF this assms(2-4)] show ?thesis unfolding Doh .
  next
    case (Doq v c)
    then obtain ph where ph: "x = OnConn ph" using x by (auto simp: placed_def)
    have "\<exists>s' own' ph'. slot_step (doq_dials v) (doq_uses L v req) me (c, ow ConnLock, ph) (s', own', ph')"
      by (rule slot_can_step [OF doq_outcomes])
        (use assms(2-4) ph slot_settled(1) slot_wants_conn [of ph] slot_holds_conn [of ph] in auto)
    then show ?thesis using client_step.doq Doq ph by blast
  next
    case (DnsCryptUp v c)
    show ?thesis
    proof (cases x)
      case (DcFetching again)
      then show ?thesis using DnsCryptUp dc_outcomes(1) [of "TYPE('a)" L v c] client_step.dc_fetched by fast
    next
      case (DcUsing cert again)
      then show ?thesis using DnsCryptUp dc_outcomes(2) [of "TYPE('a)" L v cert req] client_step.dc_used by fast
    qed (use x DnsCryptUp False in \<open>auto simp: placed_def\<close>)
  qed (use x in \<open>simp_all add: placed_def\<close>)
qed

lemma holders_want_nothing: "holds x = Some l \<Longrightarrow> wants x = None"
proof (cases x)
  case (OnConn ph)
  then show "holds x = Some l \<Longrightarrow> wants x = None" by (cases ph) auto
next
  case (OnClient ph)
  then show "holds x = Some l \<Longrightarrow> wants x = None" by (cases ph) auto
qed auto

lemma settled_holds: "settled x \<noteq> None \<Longrightarrow> holds x = None"
  by (cases x rule: settled.cases) auto

interpretation clients: locking "client_step L" holds wants fits "\<lambda>x. settled x \<noteq> None" attempt_rank for L
proof (unfold_locales, goal_cases)
  case (7 u x lk me q)
  then show ?case using client_can_step [of u x lk me L q] by simp
qed (rule client_step_locks client_step_takes client_step_fits client_step_fits_others client_step_rank
    holders_want_nothing settled_holds; assumption)+

end
