(* ===== verification/Client_Runs.thy ===== *)
theory Client_Runs
  imports Client_Locks
begin

text \<open>
  The exchanges of \<open>Upstream\<close>, which run a client alone, are the steps of \<open>Shared_Clients\<close> taken one
  after the other while nobody else holds a lock.
\<close>

section \<open>Outcomes of awaited calls\<close>

lemma await_st_value:
  "fut_value (await_st f g) = Some (r, s') \<longleftrightarrow>
   (\<exists>r1 s1. fut_value f = Some (r1, s1) \<and>
      (case r1 of Ok x \<Rightarrow> fut_value (g x s1) = Some (r, s') | _ \<Rightarrow> r = failure r1 \<and> s' = s1))"
  by (cases "(f, g)" rule: await_st.cases) auto

lemma match_retry_value:
  "fut_value (match_retry first w st retry cleared) = Some (r, s') \<longleftrightarrow>
   (\<exists>r1. fut_value first = Some r1 \<and>
      (case r1 of
         Err e \<Rightarrow> if w \<and> should_retry e then fut_value retry = Some (r, s') else r = r1 \<and> s' = cleared
       | _ \<Rightarrow> r = r1 \<and> s' = st))"
proof (cases first)
  case (Ready t r1)
  then show ?thesis by (cases r1) (auto simp: match_retry_def)
qed (simp add: match_retry_def)

section \<open>A value behind a mutex\<close>

text \<open>The second attempt, the exchange on \<open>c\<close>, and the whole of it, with the value kept afterwards.\<close>

definition slot_again ::
  "(bool \<Rightarrow> 'c dres \<Rightarrow> bool) \<Rightarrow> ('c \<Rightarrow> message dres \<Rightarrow> bool) \<Rightarrow> 'c option \<Rightarrow> message dres \<Rightarrow> 'c option \<Rightarrow> bool" where
  "slot_again dial use s r s' \<longleftrightarrow>
     (\<exists>r2. dial True r2 \<and> (case r2 of Ok c \<Rightarrow> use c r \<and> s' = Some c | _ \<Rightarrow> r = failure r2 \<and> s' = s))"

definition slot_first ::
  "(bool \<Rightarrow> 'c dres \<Rightarrow> bool) \<Rightarrow> ('c \<Rightarrow> message dres \<Rightarrow> bool) \<Rightarrow> 'c option \<Rightarrow> 'c \<Rightarrow> bool \<Rightarrow> message dres \<Rightarrow> 'c option \<Rightarrow> bool" where
  "slot_first dial use s c w r s' \<longleftrightarrow>
     (\<exists>r1. use c r1 \<and>
       (case r1 of
          Err e \<Rightarrow> if w \<and> should_retry e then slot_again dial use s r s' else r = r1 \<and> s' = None
        | _ \<Rightarrow> r = r1 \<and> s' = s))"

definition slot_whole ::
  "(bool \<Rightarrow> 'c dres \<Rightarrow> bool) \<Rightarrow> ('c \<Rightarrow> message dres \<Rightarrow> bool) \<Rightarrow> 'c option \<Rightarrow> message dres \<Rightarrow> 'c option \<Rightarrow> bool" where
  "slot_whole dial use s r s' \<longleftrightarrow>
     (case s of
        Some c \<Rightarrow> slot_first dial use s c True r s'
      | None \<Rightarrow> (\<exists>r1. dial False r1 \<and>
          (case r1 of Ok c \<Rightarrow> slot_first dial use (Some c) c False r s' | _ \<Rightarrow> r = failure r1 \<and> s' = None)))"

abbreviation slot_runs where
  "slot_runs dial use me \<equiv> (slot_step dial use me)\<^sup>*\<^sup>*"

lemma dial_runs:
  assumes "dial again r"
  shows "case r of
      Ok c \<Rightarrow> slot_step dial use me (s, Some me, Dialling again) (Some c, None, Using c False again)
    | _ \<Rightarrow> slot_step dial use me (s, Some me, Dialling again) (s, None, Done (failure r))"
  using assms slot_step.dialled [of dial again] slot_step.undialled [of dial again r] by (cases r) auto

lemma slot_again_runs:
  assumes "slot_again dial use s r s'"
  shows "slot_runs dial use me (s, None, Resetting) (s', None, Done r)"
proof -
  obtain r2 where r2: "dial True r2" "case r2 of Ok c \<Rightarrow> use c r \<and> s' = Some c | _ \<Rightarrow> r = failure r2 \<and> s' = s"
    using assms by (auto simp: slot_again_def)
  have "slot_step dial use me (s, None, Resetting) (s, Some me, Dialling True)" by (rule slot_step.reset)
  moreover have "slot_runs dial use me (s, Some me, Dialling True) (s', None, Done r)"
  proof (cases r2)
    case (Ok c)
    then have "slot_step dial use me (Some c, None, Using c False True) (s', None, Done r)"
      using r2 slot_step.used [of use c r dial me "Some c" None False True]
      by (cases r) (auto simp: after_use_def)
    then show ?thesis
      using dial_runs [of dial True r2 use me s] r2(1) Ok by (auto intro: converse_rtranclp_into_rtranclp)
  qed (use r2 dial_runs [of dial True r2 use me s] in auto)
  ultimately show ?thesis by (rule converse_rtranclp_into_rtranclp)
qed

lemma slot_first_runs:
  assumes "slot_first dial use s c w r s'"
  shows "slot_runs dial use me (s, None, Using c w False) (s', None, Done r)"
proof -
  obtain r1 where r1: "use c r1" "case r1 of
          Err e \<Rightarrow> if w \<and> should_retry e then slot_again dial use s r s' else r = r1 \<and> s' = None
        | _ \<Rightarrow> r = r1 \<and> s' = s"
    using assms by (auto simp: slot_first_def)
  have step: "slot_step dial use me (s, None, Using c w False) (s, None, after_use w False r1)"
    by (rule slot_step.used) (rule r1)
  have "slot_runs dial use me (s, None, after_use w False r1) (s', None, Done r)"
    using r1(2) slot_again_runs [of dial use s r s' me] slot_step.clear [of dial use me s]
    by (cases r1) (auto simp: after_use_def split: if_splits)
  with step show ?thesis by (rule converse_rtranclp_into_rtranclp)
qed

lemma slot_whole_runs:
  assumes "slot_whole dial use s r s'"
  shows "slot_runs dial use me (s, None, Asking) (s', None, Done r)"
proof (cases s)
  case (Some c)
  then show ?thesis
    using assms slot_step.cached [of dial use me c] slot_first_runs [of dial use s c True r s' me]
    by (auto simp: slot_whole_def intro: converse_rtranclp_into_rtranclp)
next
  case None
  then obtain r1 where r1: "dial False r1" "case r1 of Ok c \<Rightarrow> slot_first dial use (Some c) c False r s'
      | _ \<Rightarrow> r = failure r1 \<and> s' = None"
    using assms by (auto simp: slot_whole_def)
  have "slot_runs dial use me (None, Some me, Dialling False) (s', None, Done r)"
  proof (cases r1)
    case (Ok c)
    then show ?thesis
      using r1 dial_runs [of dial False r1 use me None] slot_first_runs [of dial use "Some c" c False r s' me]
      by (auto intro: converse_rtranclp_into_rtranclp)
  qed (use r1 dial_runs [of dial False r1 use me None] in auto)
  then show ?thesis
    using None slot_step.ask [of dial use me] by (auto intro: converse_rtranclp_into_rtranclp)
qed

section \<open>The clients\<close>

abbreviation client_runs where
  "client_runs L me req \<equiv> (client_step L me req)\<^sup>*\<^sup>*"

abbreviation all_free :: locks where
  "all_free \<equiv> \<lambda>_. None"

text \<open>\<open>done_with L me req u r u'\<close>: an exchange alone with \<open>u\<close> may end with \<open>r\<close> and leave \<open>u'\<close>.\<close>

definition done_with :: "dnslib \<Rightarrow> nat \<Rightarrow> message \<Rightarrow> 'h upstream \<times> 'h attempt \<Rightarrow> message dres \<Rightarrow> 'h upstream \<Rightarrow> bool" where
  "done_with L me req ux r u' \<longleftrightarrow>
     (\<exists>x'. client_runs L me req (fst ux, all_free, snd ux) (u', all_free, x') \<and> settled x' = Some r)"

lemma done_withI: "client_runs L me req (u, all_free, x) (u', all_free, x') \<Longrightarrow> settled x' = Some r \<Longrightarrow> done_with L me req (u, x) r u'"
  by (auto simp: done_with_def)

lemma done_with_step:
  "client_step L me req (u, all_free, x) (v, all_free, y) \<Longrightarrow> done_with L me req (v, y) r u' \<Longrightarrow> done_with L me req (u, x) r u'"
  unfolding done_with_def by (auto intro: converse_rtranclp_into_rtranclp)

lemma done_with_steps:
  "client_runs L me req (u, all_free, x) (v, all_free, y) \<Longrightarrow> done_with L me req (v, y) r u' \<Longrightarrow> done_with L me req (u, x) r u'"
  unfolding done_with_def by (auto intro: rtranclp_trans)

lemma done_with_settled: "settled x = Some r \<Longrightarrow> done_with L me req (u, x) r u"
  by (auto simp: done_with_def)

lemma rtranclp_lift:
  assumes "r\<^sup>*\<^sup>* x y" "\<And>x y. r x y \<Longrightarrow> q (f x) (f y)"
  shows "q\<^sup>*\<^sup>* (f x) (f y)"
  using assms(1) by induction (auto intro: assms(2) rtranclp.rtrancl_into_rtrancl)

lemma doq_lift:
  assumes "slot_runs (doq_dials v) (doq_uses L v req) me (c, own, ph) (c', own', ph')"
  shows "client_runs L me req (Doq v c, ow(ConnLock := own), OnConn ph) (Doq v c', ow(ConnLock := own'), OnConn ph')"
proof -
  let ?f = "\<lambda>(c, own, ph). (Doq v c, ow(ConnLock := own), OnConn ph)"
  have "client_step L me req (?f x) (?f y)" if "slot_step (doq_dials v) (doq_uses L v req) me x y" for x y
  proof -
    obtain c own ph c' own' ph' where "x = (c, own, ph)" "y = (c', own', ph')" by (cases x, cases y)
    then show ?thesis using that client_step.doq [of v L req me c "ow(ConnLock := own)" ph c' own' ph'] by simp
  qed
  from rtranclp_lift [OF assms, of "client_step L me req" ?f, OF this] show ?thesis by simp
qed

lemma doh_lift:
  assumes "slot_runs (doh_dials v) (doh_uses L v req) me (c, own, ph) (c', own', ph')"
  shows "client_runs L me req (Doh v (st\<lparr>st_client := c\<rparr>), ow(ConnLock := own), OnClient ph)
    (Doh v (st\<lparr>st_client := c'\<rparr>), ow(ConnLock := own'), OnClient ph')"
proof -
  let ?f = "\<lambda>(c, own, ph). (Doh v (st\<lparr>st_client := c\<rparr>), ow(ConnLock := own), OnClient ph)"
  have "client_step L me req (?f x) (?f y)" if "slot_step (doh_dials v) (doh_uses L v req) me x y" for x y
  proof -
    obtain c own ph c' own' ph' where "x = (c, own, ph)" "y = (c', own', ph')" by (cases x, cases y)
    then show ?thesis
      using that client_step.doh [of v L req me "st\<lparr>st_client := c\<rparr>" "ow(ConnLock := own)" ph c' own' ph'] by simp
  qed
  from rtranclp_lift [OF assms, of "client_step L me req" ?f, OF this] show ?thesis by simp
qed

text \<open>The sequential code around the value, which \<open>get\<close> and \<open>put\<close> find in the client's state.\<close>

definition slot_exchange ::
  "('s \<Rightarrow> 'c option) \<Rightarrow> ('c option \<Rightarrow> 's \<Rightarrow> 's) \<Rightarrow> (bool \<Rightarrow> 'c dfut) \<Rightarrow> ('c \<Rightarrow> message dfut) \<Rightarrow> 's \<Rightarrow> (message dres \<times> 's) fut" where
  "slot_exchange get put dial use st =
     await_st (case get st of
        Some c \<Rightarrow> now (Ok (c, True), st)
      | None \<Rightarrow> await_st (with_st st (dial False)) (\<lambda>c st. now (Ok (c, False), put (Some c) st))) (\<lambda>(c, w) st.
     match_retry (use c) w st
       (await_st (await_st (with_st st (dial True)) (\<lambda>c st. now (Ok c, put (Some c) st))) (\<lambda>c st. with_st st (use c)))
       (put None st))"

abbreviation resolves_to :: "'a fut \<Rightarrow> 'a \<Rightarrow> bool" where
  "resolves_to f r \<equiv> fut_value f = Some r"

locale slot_state =
  fixes get :: "'s \<Rightarrow> 'c option" and put :: "'c option \<Rightarrow> 's \<Rightarrow> 's"
  assumes get_put [simp]: "get (put c st) = c" and put_put [simp]: "put c (put d st) = put c st"
    and put_get: "put (get st) st = st"
begin

lemma again_outcome:
  assumes "resolves_to (await_st (await_st (with_st st (dial True)) (\<lambda>c st. now (Ok c, put (Some c) st)))
    (\<lambda>c st. with_st st (use c))) (r, st')"
  shows "\<exists>c'. slot_again (\<lambda>again. resolves_to (dial again)) (\<lambda>c. resolves_to (use c)) (get st) r c' \<and> st' = put c' st"
proof -
  obtain t r2 where r2: "dial True = Ready t r2" using assms by (cases "dial True") auto
  show ?thesis
    using assms r2 put_get [of st]
    by (cases r2) (auto simp: slot_again_def fut_value_with_st intro: exI [of _ "get st"])
qed

lemma first_outcome:
  assumes "resolves_to (match_retry (use c) w st
       (await_st (await_st (with_st st (dial True)) (\<lambda>c st. now (Ok c, put (Some c) st))) (\<lambda>c st. with_st st (use c)))
       (put None st)) (r, st')"
  shows "\<exists>c'. slot_first (\<lambda>again. resolves_to (dial again)) (\<lambda>c. resolves_to (use c)) (get st) c w r c' \<and> st' = put c' st"
proof -
  obtain t r1 where r1: "use c = Ready t r1" using assms by (cases "use c") (auto simp: match_retry_def)
  show ?thesis
    using assms r1 again_outcome [of st dial use r st'] put_get [of st]
    by (cases r1) (auto simp: slot_first_def match_retry_def intro: exI [of _ "get st"] split: if_splits)
qed

lemma whole_outcome:
  assumes "resolves_to (slot_exchange get put dial use st) (r, st')"
  shows "\<exists>c'. slot_whole (\<lambda>again. resolves_to (dial again)) (\<lambda>c. resolves_to (use c)) (get st) r c' \<and> st' = put c' st"
proof (cases "get st")
  case (Some c)
  then show ?thesis
    using assms first_outcome [of use c True st dial r st'] by (auto simp: slot_whole_def slot_exchange_def)
next
  case None
  obtain t r1 where r1: "dial False = Ready t r1"
    using assms None by (cases "dial False") (auto simp: slot_exchange_def)
  show ?thesis
  proof (cases r1)
    case (Ok c)
    then show ?thesis
      using assms None r1 first_outcome [of use c False "put (Some c) st" dial r st']
      by (auto simp: slot_whole_def slot_exchange_def)
  qed (use assms None r1 put_get [of st] in \<open>auto simp: slot_whole_def slot_exchange_def intro: exI [of _ None]\<close>)
qed

end

interpretation doq_state: slot_state "\<lambda>c. c" "\<lambda>c _. c"
  by unfold_locales simp_all

interpretation doh_state: slot_state st_client "\<lambda>c. st_client_update (\<lambda>_. c)"
  by unfold_locales simp_all

lemma slot_whole_mono:
  assumes "slot_whole dial use s r s'" "\<And>again r. dial again r \<Longrightarrow> dial' again r" "\<And>c r. use c r \<Longrightarrow> use' c r"
  shows "slot_whole dial' use' s r s'"
proof -
  have again: "slot_again dial use s r s' \<Longrightarrow> slot_again dial' use' s r s'" for s
    unfolding slot_again_def
  proof (elim exE conjE)
    fix r2
    assume "dial True r2" "case r2 of Ok c \<Rightarrow> use c r \<and> s' = Some c | _ \<Rightarrow> r = failure r2 \<and> s' = s"
    then show "\<exists>r2. dial' True r2 \<and> (case r2 of Ok c \<Rightarrow> use' c r \<and> s' = Some c | _ \<Rightarrow> r = failure r2 \<and> s' = s)"
      using assms(2,3) by (intro exI [of _ r2]) (cases r2; simp)
  qed
  have first: "slot_first dial use s c w r s' \<Longrightarrow> slot_first dial' use' s c w r s'" for s c w
    unfolding slot_first_def by (fastforce intro: assms(3) again split: res.splits)
  show ?thesis
  proof (cases s)
    case (Some c)
    then show ?thesis using assms(1) first by (simp add: slot_whole_def)
  next
    case None
    then obtain r1 where r1: "dial False r1"
        "case r1 of Ok c \<Rightarrow> slot_first dial use (Some c) c False r s' | _ \<Rightarrow> r = failure r1 \<and> s' = None"
      using assms(1) by (auto simp: slot_whole_def)
    have "case r1 of Ok c \<Rightarrow> slot_first dial' use' (Some c) c False r s' | _ \<Rightarrow> r = failure r1 \<and> s' = None"
      using r1(2) first by (cases r1) simp_all
    then show ?thesis using None assms(2) [OF r1(1)] by (auto simp: slot_whole_def)
  qed
qed

lemma doq_dials_self: "resolves_to (doq_dial N v) r \<Longrightarrow> doq_dials v again r"
  unfolding doq_dials_def by (rule exI [of _ N], rule exI [of _ "up_resolver v"]) simp

lemma doh_dials_self:
  "resolves_to (if again then create_client N v else timely_client N v) r \<Longrightarrow> doh_dials v again r"
  unfolding doh_dials_def by (rule exI [of _ N], rule exI [of _ "doh_resolver v"]) (simp split: if_splits)

lemma doq_runs:
  assumes "resolves_to (doq_exchange L N v c req) (r, c')"
  shows "done_with L me req (Doq v c, Begin) r (Doq v c')"
proof (rule done_with_step [OF client_step.doq_begin])
  have "doq_exchange L N v c req =
      slot_exchange (\<lambda>c. c) (\<lambda>c _. c) (\<lambda>_. doq_dial N v) (\<lambda>c. doq_exchange_on L N v c req) c"
    by (simp add: doq_exchange_def slot_exchange_def doq_get_conn_def doq_reset_conn_def)
  then have "slot_whole (\<lambda>_. resolves_to (doq_dial N v)) (\<lambda>c. resolves_to (doq_exchange_on L N v c req)) c r c'"
    using doq_state.whole_outcome assms by fastforce
  then have "slot_whole (doq_dials v) (doq_uses L v req) c r c'"
    by (rule slot_whole_mono) (auto simp: doq_uses_def intro: doq_dials_self)
  from doq_lift [OF slot_whole_runs [OF this], where ow = all_free]
  have "client_runs L me req (Doq v c, all_free, OnConn Asking) (Doq v c', all_free, OnConn (Done r))" by simp
  from done_withI [OF this settled.simps(2)]
  show "done_with L me req (Doq v c, OnConn Asking) r (Doq v c')" .
qed

lemma doh_client_runs:
  assumes "resolves_to (await_st (get_client N v st) (\<lambda>(client, was_cached) st.
       match_retry (exchange_https L B N H v client req) was_cached st
         (await_st (reset_client N v st) (\<lambda>client st. with_st st (exchange_https L B N H v client req)))
         (reset_client_ignore_err st))) (r, st')"
  shows "done_with L me req (Doh v st, OnClient Asking) r (Doh v st')"
proof -
  let ?dial = "\<lambda>again. if again then create_client N v else timely_client N v"
    and ?use = "\<lambda>c. exchange_https L B N H v c req"
  have "resolves_to (slot_exchange st_client (\<lambda>c. st_client_update (\<lambda>_. c)) ?dial ?use st) (r, st')"
    using assms by (simp add: slot_exchange_def get_client_def reset_client_def reset_client_ignore_err_def)
  then obtain c' where c': "slot_whole (\<lambda>again. resolves_to (?dial again)) (\<lambda>c. resolves_to (?use c)) (st_client st) r c'"
      "st' = st\<lparr>st_client := c'\<rparr>"
    using doh_state.whole_outcome by blast
  have "slot_whole (doh_dials v) (doh_uses L v req) (st_client st) r c'"
    by (rule slot_whole_mono [OF c'(1) doh_dials_self]) (auto simp: doh_uses_def)
  from doh_lift [OF slot_whole_runs [OF this], where ow = all_free and st = st]
  have "client_runs L me req (Doh v st, all_free, OnClient Asking) (Doh v st', all_free, OnClient (Done r))"
    using c'(2) by simp
  from done_withI [OF this settled.simps(3)] show ?thesis .
qed

section \<open>HTTP/3\<close>

lemma set_sender_same [simp]: "set_sender t (sender_at st t) st = st"
  by (simp add: set_sender_def)

lemma transport_set_sender [simp]: "transport_at (set_sender t s st) u = transport_at st u"
  by (cases "t < length (st_transports st)"; cases "u = t") (simp_all add: set_sender_def list_update_beyond)

lemma on_transport_outcome:
  "resolves_to (on_transport t st f) (r, st') \<longleftrightarrow> (\<exists>inner. resolves_to f (r, inner) \<and> st' = set_sender t inner st)"
  by (rule on_transport_value)

lemma h3_connects_self: "h3_connect N H tr = Ready d r \<Longrightarrow> h3_connects tr r"
  unfolding h3_connects_def by (intro exI [of _ N] exI [of _ H]) simp

lemma h3_using_runs:
  assumes "resolves_to (h3_exchange L B N H fuel (transport_at st t) (sender_at st t) req) (r, inner)"
  shows "client_runs L me req (Doh v st, all_free, H3Using t w again)
    (Doh v (set_sender t inner st), all_free, after_h3 t w again r)"
proof -
  have sent: "client_step L me req (Doh v st1, all_free, H3Sending t s w again) (Doh v st1, all_free, after_h3 t w again r)"
    if "resolves_to (h3_send L B H fuel (transport_at st1 t) s req) r" for st1 s
    by (rule client_step.h3_sent) (use that in \<open>auto simp: h3_sends_def\<close>)
  show ?thesis
  proof (cases "sender_at st t")
    case (Some s)
    then have r: "resolves_to (h3_send L B H fuel (transport_at st t) s req) r" and inner: "inner = Some s"
      using assms by (auto simp: h3_exchange_def h3_get_sender_def fut_value_with_st)
    have "client_step L me req (Doh v st, all_free, H3Using t w again) (Doh v st, all_free, H3Sending t s w again)"
      by (rule client_step.h3_sender) (simp_all add: Some)
    then show ?thesis
      using sent [OF r] set_sender_same [of t st] unfolding inner Some by (auto intro: converse_rtranclp_into_rtranclp)
  next
    case None
    let ?ow = "all_free(SenderLock t := Some me)"
    obtain d r1 where r1: "h3_connect N H (transport_at st t) = Ready d r1"
      using assms None by (cases "h3_connect N H (transport_at st t)") (auto simp: h3_exchange_def h3_get_sender_def)
    note connects = h3_connects_self [OF this]
    have ask: "client_step L me req (Doh v st, all_free, H3Using t w again) (Doh v st, ?ow, H3Connecting t w again)"
      by (rule client_step.h3_connect) (simp_all add: None)
    show ?thesis
    proof (cases "\<exists>s. r1 = Ok s")
      case True
      then obtain s where s: "r1 = Ok s" by blast
      then have inner: "inner = Some s" and r: "resolves_to (h3_send L B H fuel (transport_at (set_sender t (Some s) st) t) s req) r"
        using assms None r1 by (auto simp: h3_exchange_def h3_get_sender_def fut_value_with_st)
      have "client_step L me req (Doh v st, ?ow, H3Connecting t w again)
          (Doh v (set_sender t (Some s) st), ?ow(SenderLock t := None), H3Sending t s w again)"
        by (rule client_step.h3_connected) (use connects s in simp_all)
      then show ?thesis
        using ask sent [OF r] inner by (auto intro: converse_rtranclp_into_rtranclp)
    next
      case False
      then have nok: "\<not> is_ok r1" by (cases r1) auto
      have r: "r = failure r1" "inner = None"
        using assms None r1 False by (cases r1; auto simp: h3_exchange_def h3_get_sender_def)+
      have "client_step L me req (Doh v st, ?ow, H3Connecting t w again)
          (Doh v st, ?ow(SenderLock t := None), after_h3 t w again (failure r1))"
        by (rule client_step.h3_unconnected) (use connects nok in simp_all)
      then show ?thesis
        using ask r set_sender_same [of t st] None by (auto intro: converse_rtranclp_into_rtranclp)
    qed
  qed
qed

lemma h3_resetting_runs:
  assumes "resolves_to (h3_reset N H (transport_at st t) (sender_at st t)) (r, inner)"
  shows "client_runs L me req (Doh v st, all_free, H3Resetting t)
    (Doh v (set_sender t inner st), all_free, if is_ok r then H3Using t True True else Settled (failure r))"
proof -
  let ?ow = "all_free(SenderLock t := Some me)"
  obtain d r1 where r1: "h3_connect N H (transport_at st t) = Ready d r1"
    using assms by (cases "h3_connect N H (transport_at st t)") (auto simp: h3_reset_def)
  note connects = h3_connects_self [OF this]
  have ask: "client_step L me req (Doh v st, all_free, H3Resetting t) (Doh v st, ?ow, H3Reconnecting t)"
    by (rule client_step.h3_reset) simp
  have "client_step L me req (Doh v st, ?ow, H3Reconnecting t)
      (Doh v (set_sender t inner st), ?ow(SenderLock t := None),
       if is_ok r then H3Using t True True else Settled (failure r))"
  proof (cases r1)
    case (Ok s)
    then show ?thesis
      using assms r1 client_step.h3_reconnected [of ?ow t me st s L req v] connects by (auto simp: h3_reset_def)
  qed (use assms r1 client_step.h3_unreconnected [of ?ow t me st r1 L req v] connects in \<open>auto simp: h3_reset_def\<close>)
  with ask show ?thesis by (auto intro: converse_rtranclp_into_rtranclp)
qed

lemma h3_again_runs:
  assumes "resolves_to (await_st (on_transport t st (h3_reset N H (transport_at st t) (sender_at st t))) (\<lambda>_ st.
     on_transport t st (h3_exchange L B N H fuel (transport_at st t) (sender_at st t) req))) (r, st')"
  shows "done_with L me req (Doh v st, H3Resetting t) r (Doh v st')"
proof -
  obtain r2 inner where r2: "resolves_to (h3_reset N H (transport_at st t) (sender_at st t)) (r2, inner)"
    and rest: "case r2 of
        Ok s \<Rightarrow> (let st2 = set_sender t inner st in
          resolves_to (on_transport t st2 (h3_exchange L B N H fuel (transport_at st2 t) (sender_at st2 t) req)) (r, st'))
      | _ \<Rightarrow> r = failure r2 \<and> st' = set_sender t inner st"
    using assms by (fastforce simp: await_st_value on_transport_outcome Let_def split: res.splits)
  let ?st2 = "set_sender t inner st"
  have "done_with L me req (Doh v ?st2, if is_ok r2 then H3Using t True True else Settled (failure r2)) r (Doh v st')"
  proof (cases r2)
    case (Ok s)
    then obtain inner2 where i: "resolves_to (h3_exchange L B N H fuel (transport_at ?st2 t) (sender_at ?st2 t) req) (r, inner2)"
        "st' = set_sender t inner2 ?st2"
      using rest unfolding Let_def on_transport_outcome by auto
    have "settled (after_h3 t True True r) = Some r" by (cases r) (simp_all add: after_h3_def)
    from done_withI [OF h3_using_runs [OF i(1)] this] show ?thesis using Ok i(2) by simp
  qed (use rest in \<open>simp_all add: done_with_settled\<close>)
  from done_with_steps [OF h3_resetting_runs [OF r2] this] show ?thesis .
qed

lemma h3_transport_runs:
  assumes "resolves_to (await (on_transport t st (h3_exchange L B N H fuel (transport_at st t) (sender_at st t) req)) (\<lambda>(r, st).
     match_retry (now r) w st
       (await_st (on_transport t st (h3_reset N H (transport_at st t) (sender_at st t))) (\<lambda>_ st.
        on_transport t st (h3_exchange L B N H fuel (transport_at st t) (sender_at st t) req)))
       (st\<lparr>st_h3 := None\<rparr>))) (r, st')"
  shows "done_with L me req (Doh v st, H3Using t w False) r (Doh v st')"
proof -
  obtain r1 st1 where r1: "resolves_to (on_transport t st (h3_exchange L B N H fuel (transport_at st t) (sender_at st t) req)) (r1, st1)"
    and r: "resolves_to (match_retry (now r1) w st1
       (await_st (on_transport t st1 (h3_reset N H (transport_at st1 t) (sender_at st1 t))) (\<lambda>_ st.
        on_transport t st (h3_exchange L B N H fuel (transport_at st t) (sender_at st t) req)))
       (st1\<lparr>st_h3 := None\<rparr>)) (r, st')"
    using assms by (auto simp: fut_value_await bind_eq_Some_conv)
  have first: "client_runs L me req (Doh v st, all_free, H3Using t w False) (Doh v st1, all_free, after_h3 t w False r1)"
    using r1 h3_using_runs by (auto simp: on_transport_outcome)
  show ?thesis
  proof (rule done_with_steps [OF first])
    show "done_with L me req (Doh v st1, after_h3 t w False r1) r (Doh v st')"
    proof (cases "\<exists>e. r1 = Err e \<and> w \<and> should_retry e")
      case True
      then have "resolves_to (await_st (on_transport t st1 (h3_reset N H (transport_at st1 t) (sender_at st1 t))) (\<lambda>_ st.
          on_transport t st (h3_exchange L B N H fuel (transport_at st t) (sender_at st t) req))) (r, st')"
        using r by (auto simp: match_retry_def)
      from h3_again_runs [OF this] show ?thesis using True by (auto simp: after_h3_def)
    next
      case False
      show ?thesis
      proof (cases r1)
        case (Err e)
        have "client_step L me req (Doh v st1, all_free, H3Clearing e) (Doh v (st1\<lparr>st_h3 := None\<rparr>), all_free, Settled (Err e))"
          by (rule client_step.h3_clear) simp
        from done_with_step [OF this done_with_settled] show ?thesis
          using r False Err by (auto simp: match_retry_def after_h3_def)
      qed (use r False in \<open>auto simp: match_retry_def after_h3_def intro: done_with_settled\<close>)
    qed
  qed
qed

lemma h3_runs:
  assumes "resolves_to (exchange_h3 L B N H fuel v st req) (r, st')"
  shows "done_with L me req (Doh v st, H3Asking) r (Doh v st')"
proof (cases "st_h3 st")
  case (Some t)
  have "client_step L me req (Doh v st, all_free, H3Asking) (Doh v st, all_free, H3Using t True False)"
    by (rule client_step.h3_cached) (simp_all add: Some)
  then show ?thesis
    by (rule done_with_step [OF _ h3_transport_runs]) (use assms Some in \<open>simp add: exchange_h3_def get_h3_transport_def\<close>)
next
  case None
  let ?ow = "all_free(H3Lock := Some me)"
  have ask: "client_step L me req (Doh v st, all_free, H3Asking) (Doh v st, ?ow, H3Resolving)"
    by (rule client_step.h3_ask) (simp_all add: None)
  obtain d r1 where r1: "resolve_first v = Ready d r1"
    using assms None by (cases "resolve_first v") (auto simp: exchange_h3_def get_h3_transport_def)
  then have resolves: "doh_resolves v r1"
    unfolding doh_resolves_def by (intro exI [of _ "doh_resolver v"]) simp
  show ?thesis
  proof (cases "\<exists>addr. r1 = Ok addr")
    case True
    then obtain addr where addr: "r1 = Ok addr" by blast
    have "client_step L me req (Doh v st, ?ow, H3Resolving) (Doh v (add_transport (new_transport v addr) st),
        ?ow(H3Lock := None), H3Using (length (st_transports st)) False False)"
      by (rule client_step.h3_resolved) (use resolves addr in simp_all)
    with ask have "client_runs L me req (Doh v st, all_free, H3Asking) (Doh v (add_transport (new_transport v addr) st),
        all_free, H3Using (length (st_transports st)) False False)"
      by (auto intro: converse_rtranclp_into_rtranclp)
    then show ?thesis
      by (rule done_with_steps [OF _ h3_transport_runs])
        (use assms None r1 addr in \<open>simp add: exchange_h3_def get_h3_transport_def\<close>)
  next
    case False
    then have nok: "\<not> is_ok r1" by (cases r1) auto
    have r: "r = failure r1" "st' = st"
      using assms None r1 False by (cases r1; auto simp: exchange_h3_def get_h3_transport_def)+
    have "client_step L me req (Doh v st, ?ow, H3Resolving) (Doh v st, ?ow(H3Lock := None), Settled (failure r1))"
      by (rule client_step.h3_unresolved) (use resolves nok in simp_all)
    with ask have "client_runs L me req (Doh v st, all_free, H3Asking) (Doh v st, all_free, Settled (failure r1))"
      by (auto intro: converse_rtranclp_into_rtranclp)
    from done_with_steps [OF this done_with_settled] r show ?thesis by simp
  qed
qed

lemma doh_runs:
  assumes "resolves_to (doh_exchange L B N H fuel qf v st req) (r, st')"
  shows "done_with L me req (Doh v st, Begin) r (Doh v st')"
proof -
  have chosen: "done_with L me req (Doh v st1, chosen (Ok p)) r (Doh v st')"
    if "resolves_to (if p then exchange_h3 L B N H fuel v st1 req
       else await_st (get_client N v st1) (\<lambda>(client, was_cached) st.
         match_retry (exchange_https L B N H v client req) was_cached st
           (await_st (reset_client N v st) (\<lambda>client st. with_st st (exchange_https L B N H v client req)))
           (reset_client_ignore_err st))) (r, st')" for p st1
    using that h3_runs doh_client_runs by (auto simp: chosen_def split: if_splits)
  show ?thesis
  proof (cases "known_preference v st")
    case (Some p)
    show ?thesis
      by (rule done_with_step [OF client_step.doh_known [OF Some] chosen])
        (use assms Some in \<open>simp add: doh_exchange_def should_use_http3_def\<close>)
  next
    case None
    obtain d r1 where r1: "probe_preference N qf v = Ready d r1"
      using assms None by (cases "probe_preference N qf v") (auto simp: doh_exchange_def should_use_http3_def)
    then have probes: "doh_probes TYPE('a) v r1"
      unfolding doh_probes_def by (intro exI [of _ N] exI [of _ qf] exI [of _ "doh_resolver v"]) simp
    show ?thesis
    proof (rule done_with_step [OF client_step.doh_probe [OF None] done_with_step [OF client_step.doh_probed [OF probes]]])
      show "done_with L me req (Doh v (keep_preference r1 st), chosen r1) r (Doh v st')"
      proof (cases r1)
        case (Ok p)
        show ?thesis unfolding Ok
          by (rule chosen) (use assms None r1 Ok in \<open>cases p; simp add: doh_exchange_def should_use_http3_def keep_preference_def\<close>)
      qed (use assms None r1 in \<open>auto simp: doh_exchange_def should_use_http3_def chosen_def keep_preference_def intro: done_with_settled\<close>)
    qed
  qed
qed

section \<open>DNSCrypt\<close>

lemma dc_fetches_self:
  fixes N :: "'h net"
  shows "resolves_to (refresh_cert L C N v su c) (r, c') \<Longrightarrow> dc_fetches TYPE('h) L v c r c'"
  unfolding dc_fetches_def by blast

lemma dc_used_step:
  fixes N :: "'h net"
  assumes "resolves_to (exchange_with_cert L C N v su cert req) r"
  shows "client_step L me req (DnsCryptUp v c :: 'h upstream, ow, DcUsing cert again) (DnsCryptUp v c, ow, after_cert again r)"
proof (rule client_step.dc_used)
  show "dc_uses TYPE('h) L v cert req r" unfolding dc_uses_def using assms by blast
qed

lemma current_cert_runs:
  fixes N :: "'h net"
  assumes "resolves_to (current_cert L C N v su c) (r, c')"
  shows "client_runs L me req (DnsCryptUp v c :: 'h upstream, ow, Begin) (DnsCryptUp v c', ow, fetched False r)"
proof (cases "case c of Some cert \<Rightarrow> is_valid_at cert (su_now su) | None \<Rightarrow> False")
  case True
  then obtain cert where cert: "c = Some cert" "is_valid_at cert (su_now su)" by (cases c) auto
  then have "r = Ok cert" "c' = Some cert" using assms by (auto simp: current_cert_def)
  with client_step.dc_valid [OF cert(2), of L me req v ow] show ?thesis using cert by (auto simp: fetched_def)
next
  case False
  then have "resolves_to (refresh_cert L C N v su c) (r, c')" using assms by (auto simp: current_cert_def split: option.splits if_splits)
  note fetch = client_step.dc_fetched [OF dc_fetches_self [OF this], of me req ow False]
  have "client_step L me req (DnsCryptUp v c :: 'h upstream, ow, Begin) (DnsCryptUp v c, ow, DcFetching False)"
    by (rule client_step.dc_invalid [where now' = "su_now su"]) (use False in \<open>auto split: option.splits\<close>)
  with fetch show ?thesis by (auto intro: converse_rtranclp_into_rtranclp)
qed

lemma dc_again_runs:
  fixes N :: "'h net"
  assumes "resolves_to (await_st (refresh_cert L C N v su c) (\<lambda>cert st. with_st st (exchange_with_cert L C N v su cert req))) (r, c')"
  shows "done_with L me req (DnsCryptUp v c :: 'h upstream, DcFetching True) r (DnsCryptUp v c')"
proof -
  obtain t rc c1 where rc: "refresh_cert L C N v su c = Ready t (rc, c1)"
    using assms by (cases "refresh_cert L C N v su c") auto
  then have "resolves_to (refresh_cert L C N v su c) (rc, c1)" by simp
  note fetch = client_step.dc_fetched [OF dc_fetches_self [OF this], of me req all_free True]
  have "done_with L me req (DnsCryptUp v c1 :: 'h upstream, fetched True rc) r (DnsCryptUp v c')"
  proof (cases rc)
    case (Ok cert)
    then have r: "resolves_to (exchange_with_cert L C N v su cert req) r" "c' = c1"
      using assms rc by (auto simp: fut_value_with_st)
    have "settled (after_cert True r) = Some r" by (cases r) (simp_all add: after_cert_def)
    from done_with_step [OF dc_used_step [OF r(1)] done_with_settled [OF this]] show ?thesis
      using Ok r(2) by (simp add: fetched_def)
  qed (use assms rc in \<open>simp_all add: fetched_def done_with_settled\<close>)
  from done_with_step [OF fetch this] show ?thesis .
qed

lemma dc_attempts_runs:
  fixes N N' :: "'h net"
  assumes "resolves_to (dc_attempts L C N N' v su su' c req) (r, c')"
  shows "done_with L me req (DnsCryptUp v c :: 'h upstream, Begin) r (DnsCryptUp v c')"
proof -
  obtain t rc c1 where rc: "current_cert L C N v su c = Ready t (rc, c1)"
    using assms by (cases "current_cert L C N v su c") (auto simp: dc_attempts_def)
  then have "resolves_to (current_cert L C N v su c) (rc, c1)" by simp
  then show ?thesis
  proof (rule done_with_steps [OF current_cert_runs])
    show "done_with L me req (DnsCryptUp v c1 :: 'h upstream, fetched False rc) r (DnsCryptUp v c')"
    proof (cases rc)
      case (Ok cert)
      obtain u r1 where r1: "exchange_with_cert L C N v su cert req = Ready u r1"
        using assms rc Ok by (cases "exchange_with_cert L C N v su cert req") (auto simp: dc_attempts_def)
      then have used: "resolves_to (exchange_with_cert L C N v su cert req) r1" by simp
      have "done_with L me req (DnsCryptUp v c1 :: 'h upstream, after_cert False r1) r (DnsCryptUp v c')"
        using assms rc Ok r1
        by (cases r1) (auto simp: dc_attempts_def after_cert_def done_with_settled intro: dc_again_runs)
      from done_with_step [OF dc_used_step [OF used] this] show ?thesis using Ok by (simp add: fetched_def)
    qed (use assms rc in \<open>auto simp: dc_attempts_def fetched_def intro: done_with_settled\<close>)
  qed
qed

text \<open>When the deadline cuts the attempts off, the request is still at one of the places before the end.\<close>

lemma dc_cut_runs:
  fixes N N' :: "'h net"
  assumes "\<not> resolves_by d (dc_attempts L C N N' v su su' c req)"
  shows "\<exists>x. in_dnscrypt x \<and> client_runs L me req (DnsCryptUp v c :: 'h upstream, ow, Begin)
    (DnsCryptUp v (dc_cert_at L C N N' v su su' c req d), ow, x)"
proof (cases "\<exists>t cert c1. current_cert L C N v su c = Ready t (Ok cert, c1) \<and> t \<le> d")
  case False
  then have "dc_cert_at L C N N' v su su' c req d = c"
    by (auto simp: dc_cert_at_def split: fut.splits res.splits)
  then show ?thesis by (intro exI [of _ Begin]) simp
next
  case True
  then obtain t cert c1 where cc: "current_cert L C N v su c = Ready t (Ok cert, c1)" "t \<le> d" by blast
  have run: "client_runs L me req (DnsCryptUp v c :: 'h upstream, ow, Begin) (DnsCryptUp v c1, ow, DcUsing cert False)"
    using current_cert_runs [of L C N v su c "Ok cert" c1 me req ow] cc(1) by (simp add: fetched_def)
  show ?thesis
  proof (cases "dc_cert_at L C N N' v su su' c req d = c1")
    case True
    then show ?thesis using run by (intro exI [of _ "DcUsing cert False"]) simp
  next
    case False
    then obtain u e where ue: "exchange_with_cert L C N v su cert req = Ready u (Err e)" "timeout_or_io e"
      using cc by (auto simp: dc_cert_at_def split: fut.splits res.splits if_splits)
    then obtain w rc c2 where rc: "refresh_cert L C N' v su' c1 = Ready w (rc, c2)" "t + u + w \<le> d"
        "dc_cert_at L C N N' v su su' c req d = c2"
      using cc False by (auto simp: dc_cert_at_def not_less split: fut.splits if_splits)
    obtain cert2 where cert2: "rc = Ok cert2"
      using assms cc ue rc by (cases rc) (auto simp: dc_attempts_def)
    have used: "resolves_to (exchange_with_cert L C N v su cert req) (Err e)"
        "resolves_to (refresh_cert L C N' v su' c1) (Ok cert2, c2)"
      using ue rc(1) cert2 by simp_all
    have "client_step L me req (DnsCryptUp v c1 :: 'h upstream, ow, DcUsing cert False) (DnsCryptUp v c1, ow, DcFetching True)"
      using dc_used_step [OF used(1), of me c1 ow False] ue(2) by (simp add: after_cert_def)
    moreover have "client_step L me req (DnsCryptUp v c1 :: 'h upstream, ow, DcFetching True) (DnsCryptUp v c2, ow, DcUsing cert2 True)"
      using client_step.dc_fetched [OF dc_fetches_self [OF used(2)], of me req ow True] by (simp add: fetched_def)
    ultimately show ?thesis
      using run unfolding rc(3) by (intro exI [of _ "DcUsing cert2 True"]) (auto intro: rtranclp.rtrancl_into_rtrancl)
  qed
qed

lemma dc_runs:
  fixes N N' :: "'h net"
  assumes "resolves_to (dc_exchange L C N N' v su su' c req) (r, c')"
  shows "done_with L me req (DnsCryptUp v c :: 'h upstream, Begin) r (DnsCryptUp v c')"
proof (cases "\<exists>d. dc_timeout v = Some d \<and> \<not> resolves_by d (dc_attempts L C N N' v su su' c req)")
  case True
  then obtain d where d: "dc_timeout v = Some d" "\<not> resolves_by d (dc_attempts L C N N' v su su' c req)" by blast
  then have r: "r = Err (Timeout d)" "c' = dc_cert_at L C N N' v su su' c req d"
    using assms by (simp_all add: dc_exchange_def Let_def)
  obtain x where "in_dnscrypt x" "client_runs L me req (DnsCryptUp v c :: 'h upstream, all_free, Begin) (DnsCryptUp v c', all_free, x)"
    using dc_cut_runs [OF d(2), of me all_free] r(2) by blast
  then have "done_with L me req (DnsCryptUp v c :: 'h upstream, Begin) (Err (Timeout d)) (DnsCryptUp v c')"
    by (intro done_with_steps [OF _ done_with_step [OF client_step.dc_timeout [OF d(1)] done_with_settled]]) simp_all
  then show ?thesis using r(1) by simp
next
  case False
  then have "resolves_to (dc_attempts L C N N' v su su' c req) (r, c')"
    using assms by (auto simp: dc_exchange_def Let_def split: option.splits)
  then show ?thesis by (rule dc_attempts_runs)
qed

section \<open>Every kind of upstream\<close>

lemma client_runs_alone:
  assumes "resolves_to (upstream_exchange W u req) (r, u')" "w_dns W = L"
  shows "done_with L me req (u, Begin) r u'"
proof -
  have plain: "done_with L me req (u, Begin) r u'" if "stateless u" "u' = u" "resolving R u = u" for R
  proof -
    have "plain_uses L u req r"
      unfolding plain_uses_def using assms that(3) by (intro exI [of _ W] exI [of _ R] exI [of _ u']) simp
    from done_with_step [OF client_step.plain [OF that(1) this] done_with_settled] show ?thesis using that by simp
  qed
  show ?thesis
  proof (cases u)
    case (Doh v st)
    then show ?thesis using assms doh_runs by auto
  next
    case (Doq v c)
    then show ?thesis using assms doq_runs by auto
  next
    case (DnsCryptUp v c)
    then show ?thesis using assms dc_runs by auto
  next
    case (Dot v)
    then show ?thesis using plain [of "up_resolver v"] assms by (auto simp: fut_value_with_st)
  next
    case (PlainTcp v)
    then show ?thesis using plain [of "up_resolver v"] assms by (auto simp: fut_value_with_st)
  next
    case (PlainUdp v)
    then show ?thesis using plain assms by (auto simp: fut_value_with_st)
  qed
qed

end
