(* ===== verification/Running_Proxy.thy ===== *)
theory Running_Proxy
  imports Main_Program Client_Runs
begin

text \<open>
  The serving program: the handler that \<open>main.rs\<close> hands to every listener, over the requests in
  progress. A request goes through the phases of \<open>Cache::into_handler\<close>, if there is a cache; when it
  is forwarded, \<open>UpstreamConfig::exchange\<close> picks its upstreams and then tries one after the other,
  while other requests do the same with the same clients. A step ends where a request waits for a
  lock or the network. A request has the number of its place in \<open>rn_tasks\<close>.
\<close>

section \<open>Requests in progress\<close>

text \<open>
  \<open>Flying key j us start x\<close>: the exchange with upstream \<open>j\<close>, begun at the time \<open>start\<close>, is at \<open>x\<close>;
  \<open>us\<close> are still to be tried.
\<close>

datatype 'h progress =
  Phase phase
| Trying "ckey option" "nat list" "doh_error option"
| Flying "ckey option" nat "nat list" nat "'h attempt"

record ('h, 'c) running =
  rn_proxy :: "('h, 'c) proxy"
  rn_clock :: nat
  rn_locks :: "nat \<Rightarrow> locks"
  rn_tasks :: "(message \<times> 'h progress) list"

definition rn_init :: "('h, 'c) proxy \<Rightarrow> nat \<Rightarrow> ('h, 'c) running" where
  "rn_init px t = \<lparr>rn_proxy = px, rn_clock = t, rn_locks = (\<lambda>_ _. None), rn_tasks = []\<rparr>"

abbreviation rn_config :: "('h, 'c) running \<Rightarrow> 'h upstream_config" where
  "rn_config s \<equiv> px_config (rn_proxy s)"

abbreviation rn_upstream :: "('h, 'c) running \<Rightarrow> nat \<Rightarrow> 'h tracked" where
  "rn_upstream s j \<equiv> store (rn_config s) ! j"

definition set_upstream :: "nat \<Rightarrow> 'h tracked \<Rightarrow> ('h, 'c) running \<Rightarrow> ('h, 'c) running" where
  "set_upstream j tr s =
     s\<lparr>rn_proxy := (rn_proxy s)\<lparr>px_config := (rn_config s)\<lparr>store := (store (rn_config s))[j := tr]\<rparr>\<rparr>\<rparr>"

definition set_task :: "nat \<Rightarrow> message \<times> 'h progress \<Rightarrow> ('h, 'c) running \<Rightarrow> ('h, 'c) running" where
  "set_task i x s = s\<lparr>rn_tasks := (rn_tasks s)[i := x]\<rparr>"

definition has_task :: "('h, 'c) running \<Rightarrow> nat \<Rightarrow> message \<times> 'h progress \<Rightarrow> bool" where
  "has_task s i x \<longleftrightarrow> i < length (rn_tasks s) \<and> rn_tasks s ! i = x"

definition proxy_look ::
  "'c entry_lru \<Rightarrow> 'c cache option \<Rightarrow> nat \<Rightarrow> message \<Rightarrow> phase \<times> 'c cache option" where
  "proxy_look K co t req =
     (case co of None \<Rightarrow> (Forwarding None, None) | Some c \<Rightarrow> (case look_up K c t req of (ph, c') \<Rightarrow> (ph, Some c')))"

definition proxy_take :: "'c cache option \<Rightarrow> nat \<Rightarrow> ckey option \<Rightarrow> message dres \<Rightarrow> phase" where
  "proxy_take co t key r = (case co of None \<Rightarrow> Finished r | Some c \<Rightarrow> take_answer c t key r)"

text \<open>After one upstream: its answer ends the loop, its error is kept and the next one is tried.\<close>

definition after_attempt ::
  "'c cache option \<Rightarrow> nat \<Rightarrow> ckey option \<Rightarrow> nat list \<Rightarrow> message dres \<Rightarrow> 'h progress" where
  "after_attempt co t key us r =
     (case r of Err e \<Rightarrow> Trying key us (Some e) | Ok resp \<Rightarrow> Phase (proxy_take co t key r) | Panic \<Rightarrow> Phase (proxy_take co t key r))"

definition no_upstreams :: "dnslib \<Rightarrow> message \<Rightarrow> doh_error" where
  "no_upstreams L req = doh_error.Bootstrap [Lit ''no upstreams configured for '', Dbg (query_name L req)]"

definition loop_end ::
  "dnslib \<Rightarrow> 'c cache option \<Rightarrow> nat \<Rightarrow> message \<Rightarrow> ckey option \<Rightarrow> doh_error option \<Rightarrow> 'h progress" where
  "loop_end L co t req key last_err =
     Phase (proxy_take co t key (Err (case last_err of Some e \<Rightarrow> e | None \<Rightarrow> no_upstreams L req)))"

text \<open>\<open>TrackedUpstream::exchange\<close> after the exchange: only a successful one is timed.\<close>

definition timed :: "nat \<Rightarrow> nat \<Rightarrow> message dres \<Rightarrow> 'h tracked \<Rightarrow> 'h tracked" where
  "timed start t r tr =
     tr\<lparr>tr_latency := if is_ok r then latency_record (tr_latency tr) (t - start) else tr_latency tr\<rparr>"

text \<open>The steps of the requests; \<open>shuf\<close> is the shuffle of the random number generator: some permutation.\<close>

inductive work_step ::
  "dnslib \<Rightarrow> 'c entry_lru \<Rightarrow> ('h, 'c) running \<Rightarrow> ('h, 'c) running \<Rightarrow> bool" for L K s where
  look: "\<lbrakk>has_task s i (req, Phase Started); proxy_look K (px_cache (rn_proxy s)) (rn_clock s) req = (ph, co)\<rbrakk> \<Longrightarrow>
    work_step L K s (set_task i (req, Phase ph) (s\<lparr>rn_proxy := (rn_proxy s)\<lparr>px_cache := co\<rparr>\<rparr>))"
| order: "\<lbrakk>has_task s i (req, Phase (Forwarding key)); \<And>xs. mset (shuf xs) = mset xs;
    upstreams_for shuf (rn_config s) (query_name L req) = (us, cfg)\<rbrakk> \<Longrightarrow>
    work_step L K s (set_task i (req, Trying key us None) (s\<lparr>rn_proxy := (rn_proxy s)\<lparr>px_config := cfg\<rparr>\<rparr>))"
| start: "has_task s i (req, Trying key (j # us) e) \<Longrightarrow>
    work_step L K s (set_task i (req, Flying key j us (rn_clock s) Begin) s)"
| flight: "\<lbrakk>has_task s i (req, Flying key j us t x);
    client_step L i req (tr_upstream (rn_upstream s j), rn_locks s j, x) (u, lk, x')\<rbrakk> \<Longrightarrow>
    work_step L K s (set_task i (req, Flying key j us t x')
      (set_upstream j ((rn_upstream s j)\<lparr>tr_upstream := u\<rparr>) (s\<lparr>rn_locks := (rn_locks s)(j := lk)\<rparr>)))"
| land: "\<lbrakk>has_task s i (req, Flying key j us t x); settled x = Some r\<rbrakk> \<Longrightarrow>
    work_step L K s (set_task i (req, after_attempt (px_cache (rn_proxy s)) (rn_clock s) key us r)
      (set_upstream j (timed t (rn_clock s) r (rn_upstream s j)) s))"
| give_up: "has_task s i (req, Trying key [] e) \<Longrightarrow>
    work_step L K s (set_task i (req, loop_end L (px_cache (rn_proxy s)) (rn_clock s) req key e) s)"
| put: "\<lbrakk>has_task s i (req, Phase (Storing key e resp)); px_cache (rn_proxy s) = Some c\<rbrakk> \<Longrightarrow>
    work_step L K s (set_task i (req, Phase (Finished (Ok resp)))
      (s\<lparr>rn_proxy := (rn_proxy s)\<lparr>px_cache := Some (put_entry K c key e)\<rparr>\<rparr>))"

inductive_cases work_stepE: "work_step L K s s'"

text \<open>Besides, time passes and requests come in.\<close>

inductive proxy_step ::
  "dnslib \<Rightarrow> 'c entry_lru \<Rightarrow> ('h, 'c) running \<Rightarrow> ('h, 'c) running \<Rightarrow> bool" for L K s where
  tick: "proxy_step L K s (s\<lparr>rn_clock := rn_clock s + d\<rparr>)"
| arrive: "proxy_step L K s (s\<lparr>rn_tasks := rn_tasks s @ [(req, Phase Started)]\<rparr>)"
| work: "work_step L K s s' \<Longrightarrow> proxy_step L K s s'"

definition proxy_reaches ::
  "dnslib \<Rightarrow> 'c entry_lru \<Rightarrow> ('h, 'c) proxy \<Rightarrow> ('h, 'c) running \<Rightarrow> bool" where
  "proxy_reaches L K px s \<longleftrightarrow> (\<exists>t. (proxy_step L K)\<^sup>*\<^sup>* (rn_init px t) s)"

inductive_cases proxy_stepE: "proxy_step L K s s'"

lemma set_task_sel [simp]:
  "rn_proxy (set_task i x s) = rn_proxy s" "rn_clock (set_task i x s) = rn_clock s" "rn_locks (set_task i x s) = rn_locks s"
  "rn_tasks (set_task i x s) = (rn_tasks s)[i := x]"
  by (simp_all add: set_task_def)

lemma set_upstream_sel [simp]:
  "rn_clock (set_upstream j tr s) = rn_clock s" "rn_locks (set_upstream j tr s) = rn_locks s"
  "rn_tasks (set_upstream j tr s) = rn_tasks s" "px_cache (rn_proxy (set_upstream j tr s)) = px_cache (rn_proxy s)"
  "rn_config (set_upstream j tr s) = (rn_config s)\<lparr>store := (store (rn_config s))[j := tr]\<rparr>"
  by (simp_all add: set_upstream_def)

lemma has_taskD [dest]: "has_task s i x \<Longrightarrow> i < length (rn_tasks s)" "has_task s i x \<Longrightarrow> rn_tasks s ! i = x"
  by (simp_all add: has_task_def)

section \<open>The sequential exchange is the steps run without a break\<close>

text \<open>The steps of the handler alone, with time passing: nothing new comes in.\<close>

definition handler_step :: "dnslib \<Rightarrow> 'c entry_lru \<Rightarrow> ('h, 'c) running \<Rightarrow> ('h, 'c) running \<Rightarrow> bool" where
  "handler_step L K s s' \<longleftrightarrow> (\<exists>d. s' = s\<lparr>rn_clock := rn_clock s + d\<rparr>) \<or> work_step L K s s'"

lemma handler_work: "work_step L K s s' \<Longrightarrow> handler_step L K s s'"
  by (simp add: handler_step_def)

lemma handler_tick: "handler_step L K s (s\<lparr>rn_clock := rn_clock s + d\<rparr>)"
  by (auto simp: handler_step_def)

lemma handler_steps_proxy: "(handler_step L K)\<^sup>*\<^sup>* s s' \<Longrightarrow> (proxy_step L K)\<^sup>*\<^sup>* s s'"
  by (erule rtranclp_mono [THEN predicate2D, rotated]) (auto simp: handler_step_def intro: proxy_step.intros)

lemma flight_run:
  assumes "has_task s i (req, Flying key j us t x)" "j < length (store (rn_config s))"
    and "client_runs L i req (tr_upstream (rn_upstream s j), rn_locks s j, x) (u', lk', x')"
  shows "(handler_step L K)\<^sup>*\<^sup>* s (set_task i (req, Flying key j us t x')
    (set_upstream j ((rn_upstream s j)\<lparr>tr_upstream := u'\<rparr>) (s\<lparr>rn_locks := (rn_locks s)(j := lk')\<rparr>)))"
proof -
  let ?f = "\<lambda>(u, lk, x). set_task i (req, Flying key j us t x)
    (set_upstream j ((rn_upstream s j)\<lparr>tr_upstream := u\<rparr>) (s\<lparr>rn_locks := (rn_locks s)(j := lk)\<rparr>))"
  have step: "handler_step L K (?f y) (?f z)" if "client_step L i req y z" for y z
  proof -
    obtain u lk x where y: "y = (u, lk, x)" by (cases y)
    obtain u' lk' x' where z: "z = (u', lk', x')" by (cases z)
    have "has_task (?f y) i (req, Flying key j us t x)" using assms(1) by (auto simp: y has_task_def)
    from work_step.flight [OF this, of L u' lk' x' K]
    have "work_step L K (?f y) (?f z)"
      using that assms(2) by (simp add: y z) (simp add: set_task_def set_upstream_def)
    then show ?thesis by (rule handler_work)
  qed
  have "?f (tr_upstream (rn_upstream s j), rn_locks s j, x) = s"
    using assms(1) by (simp add: set_task_def set_upstream_def has_task_def list_update_same_conv)
  with rtranclp_lift [OF assms(3), of "handler_step L K" ?f, OF step] show ?thesis by simp
qed

lemma attempt_run:
  assumes "has_task s i (req, Trying key (j # us) e)" "j < length (store (rn_config s))" "rn_locks s j = all_free"
    and "tracked_exchange W (rn_upstream s j) req = Ready d (r, tr)" "w_dns W = L"
  shows "(handler_step L K)\<^sup>*\<^sup>* s (set_task i (req, after_attempt (px_cache (rn_proxy s)) (rn_clock s + d) key us r)
    (set_upstream j tr (s\<lparr>rn_clock := rn_clock s + d\<rparr>)))"
proof -
  let ?s1 = "set_task i (req, Flying key j us (rn_clock s) Begin) s"
  obtain u where u: "upstream_exchange W (tr_upstream (rn_upstream s j)) req = Ready d (r, u)"
      "tr = timed (rn_clock s) (rn_clock s + d) r ((rn_upstream s j)\<lparr>tr_upstream := u\<rparr>)"
    using assms(4) by (auto simp: tracked_exchange_def timed_def split: fut.splits)
  then have "done_with L i req (tr_upstream (rn_upstream s j), Begin) r u"
    using client_runs_alone [of W "tr_upstream (rn_upstream s j)" req r u L i] assms(5) by simp
  then obtain x where x: "client_runs L i req (tr_upstream (rn_upstream s j), all_free, Begin) (u, all_free, x)" "settled x = Some r"
    by (auto simp: done_with_def)
  let ?s2 = "set_task i (req, Flying key j us (rn_clock s) x) (set_upstream j ((rn_upstream s j)\<lparr>tr_upstream := u\<rparr>) ?s1)"
  have start: "handler_step L K s ?s1" by (rule handler_work [OF work_step.start [OF assms(1)]])
  have "(handler_step L K)\<^sup>*\<^sup>* ?s1 (set_task i (req, Flying key j us (rn_clock s) x)
      (set_upstream j ((rn_upstream ?s1 j)\<lparr>tr_upstream := u\<rparr>) (?s1\<lparr>rn_locks := (rn_locks ?s1)(j := all_free)\<rparr>)))"
    by (rule flight_run) (use assms x in \<open>auto simp: has_task_def\<close>)
  moreover have "(rn_locks s)(j := all_free) = rn_locks s" using assms(3) by auto
  ultimately have fly: "(handler_step L K)\<^sup>*\<^sup>* ?s1 ?s2" by (simp add: set_task_def)
  let ?s3 = "?s2\<lparr>rn_clock := rn_clock s + d\<rparr>"
  have tick: "handler_step L K ?s2 ?s3" using handler_tick [of L K ?s2 d] by simp
  have "has_task ?s3 i (req, Flying key j us (rn_clock s) x)" using assms(1) by (auto simp: has_task_def)
  from handler_work [OF work_step.land [OF this x(2)]]
  have land: "handler_step L K ?s3 (set_task i (req, after_attempt (px_cache (rn_proxy s)) (rn_clock s + d) key us r)
      (set_upstream j tr (s\<lparr>rn_clock := rn_clock s + d\<rparr>)))"
    using assms(2) by (simp add: u(2)) (simp add: set_task_def set_upstream_def)
  show ?thesis
    by (rule converse_rtranclp_into_rtranclp [OF start rtranclp_trans [OF fly]]) (use tick land in auto)
qed

text \<open>A request that is alone gets what \<open>config_exchange\<close> gives it, when that takes the time it does.\<close>

definition finished_after ::
  "nat \<Rightarrow> duration \<Rightarrow> 'h upstream_config \<Rightarrow> message \<Rightarrow> ckey option \<Rightarrow> message dres \<Rightarrow> ('h, 'c) running \<Rightarrow> ('h, 'c) running" where
  "finished_after i d cfg req key r s =
     set_task i (req, Phase (proxy_take (px_cache (rn_proxy s)) (rn_clock s + d) key r))
       (s\<lparr>rn_clock := rn_clock s + d, rn_proxy := (rn_proxy s)\<lparr>px_config := cfg\<rparr>\<rparr>)"

lemma attempts_run:
  assumes "try_upstreams W req (no_upstreams L req) k us (store (rn_config s)) e = Ready d (r, trs)"
    and "has_task s i (req, Trying key us e)" "\<And>k. w_dns (W k) = L"
    and "\<And>j. j \<in> set us \<Longrightarrow> j < length (store (rn_config s)) \<and> rn_locks s j = all_free"
  shows "(handler_step L K)\<^sup>*\<^sup>* s (finished_after i d ((rn_config s)\<lparr>store := trs\<rparr>) req key r s)"
  using assms(1,2,4)
proof (induction us arbitrary: k e s d)
  case Nil
  then show ?case
    using handler_work [OF work_step.give_up [OF Nil(2), of L K]] by (auto simp: finished_after_def loop_end_def set_task_def)
next
  case (Cons j us)
  obtain d1 r' tr where x: "tracked_exchange (W k) (rn_upstream s j) req = Ready d1 (r', tr)"
    using Cons.prems(1) by (cases "tracked_exchange (W k) (rn_upstream s j) req") auto
  let ?s = "set_task i (req, after_attempt (px_cache (rn_proxy s)) (rn_clock s + d1) key us r')
    (set_upstream j tr (s\<lparr>rn_clock := rn_clock s + d1\<rparr>))"
  have run: "(handler_step L K)\<^sup>*\<^sup>* s ?s"
    by (rule attempt_run [OF Cons.prems(2) _ _ x assms(3)]) (use Cons.prems(3) in auto)
  show ?case
  proof (cases r')
    case (Err e')
    then obtain d2 where d2: "try_upstreams W req (no_upstreams L req) (Suc k) us ((store (rn_config s))[j := tr]) (Some e') = Ready d2 (r, trs)"
        "d = d1 + d2"
      using Cons.prems(1) x by (auto simp: Let_def delay_eq_Ready)
    have "(handler_step L K)\<^sup>*\<^sup>* ?s (finished_after i d2 ((rn_config ?s)\<lparr>store := trs\<rparr>) req key r ?s)"
      by (rule Cons.IH [of "Suc k" _ "Some e'"])
        (use Cons.prems d2 Err in \<open>auto simp: after_attempt_def has_task_def\<close>)
    with run show ?thesis
      using d2(2) by (auto simp: finished_after_def set_task_def set_upstream_def add.assoc intro: rtranclp_trans)
  qed (use run Cons.prems x in \<open>auto simp: Let_def after_attempt_def finished_after_def set_task_def set_upstream_def\<close>)
qed

lemma exchange_run:
  assumes "config_exchange L W shuf (rn_config s) req = Ready d (r, cfg)"
    and "has_task s i (req, Phase (Forwarding key))" "\<And>xs. mset (shuf xs) = mset xs" "\<And>k. w_dns (W k) = L"
    and "config_ok (rn_config s)" "rn_locks s = (\<lambda>_. all_free)"
  shows "(handler_step L K)\<^sup>*\<^sup>* s (finished_after i d cfg req key r s)"
proof -
  obtain us cfg1 where us: "upstreams_for shuf (rn_config s) (query_name L req) = (us, cfg1)"
    by (cases "upstreams_for shuf (rn_config s) (query_name L req)")
  let ?f = "try_upstreams W req (no_upstreams L req) 0 us (store cfg1) None"
  obtain trs where trs: "?f = Ready d (r, trs)" "cfg = cfg1\<lparr>store := trs\<rparr>"
    using assms(1) us by (cases ?f) (auto simp: config_exchange_def no_upstreams_def Let_def split: prod.splits)
  let ?s = "set_task i (req, Trying key us None) (s\<lparr>rn_proxy := (rn_proxy s)\<lparr>px_config := cfg1\<rparr>\<rparr>)"
  have "handler_step L K s ?s" by (rule handler_work [OF work_step.order [OF assms(2,3) us]])
  moreover have "(handler_step L K)\<^sup>*\<^sup>* ?s (finished_after i d ((rn_config ?s)\<lparr>store := trs\<rparr>) req key r ?s)"
    by (rule attempts_run [OF _ _ assms(4)])
      (use assms(2,6) trs(1) upstreams_for_ok [OF us assms(5,3)] in \<open>auto simp: has_task_def\<close>)
  ultimately show ?thesis
    using trs(2) by (auto simp: finished_after_def set_task_def intro: converse_rtranclp_into_rtranclp)
qed

section \<open>Answers to the question asked\<close>

text \<open>The concurrent cache that a cached proxy is: while upstreams are tried, it waits for the handler.\<close>

fun cache_view :: "'h progress \<Rightarrow> phase" where
  "cache_view (Phase ph) = ph"
| "cache_view (Trying key us e) = Forwarding key"
| "cache_view (Flying key j us t x) = Forwarding key"

definition as_server :: "'c cache \<Rightarrow> ('h, 'c) running \<Rightarrow> (message \<times> message \<times> nat) list \<Rightarrow> 'c server" where
  "as_server c s log =
     \<lparr>clock = rn_clock s, srv_cache = c, tasks = map (\<lambda>(req, x). (req, cache_view x)) (rn_tasks s), answered = log\<rparr>"

lemma as_server_sel [simp]:
  "clock (as_server c s log) = rn_clock s" "srv_cache (as_server c s log) = c" "answered (as_server c s log) = log"
  "length (tasks (as_server c s log)) = length (rn_tasks s)"
  by (simp_all add: as_server_def)

lemma as_server_task:
  "has_task s i (req, x) \<Longrightarrow> i < length (tasks (as_server c s log)) \<and> tasks (as_server c s log) ! i = (req, cache_view x)"
  by (auto simp: as_server_def has_task_def)

lemma as_server_set_task:
  "as_server c (set_task i (req, y) s) log =
   (as_server c s log)\<lparr>tasks := (tasks (as_server c s log))[i := (req, cache_view y)]\<rparr>"
  by (simp add: as_server_def map_update)

lemma as_server_other [simp]:
  "as_server c (s\<lparr>rn_proxy := px\<rparr>) log = as_server c s log" "as_server c (s\<lparr>rn_locks := lk\<rparr>) log = as_server c s log"
  "as_server c (set_upstream j tr s) log = as_server c s log"
  by (simp_all add: as_server_def set_upstream_def)

text \<open>Choosing upstreams and failing at one of them is nothing to the cache.\<close>

lemma view_unchanged:
  assumes "has_task s i (req, x)" "cache_view x = ph"
  shows "(as_server c s log)\<lparr>tasks := (tasks (as_server c s log))[i := (req, ph)]\<rparr> = as_server c s log"
  using as_server_task [OF assms(1), of c log] assms(2) by (simp add: list_update_same_conv)

fun uncached_ok :: "dnslib \<Rightarrow> message \<times> phase \<Rightarrow> bool" where
  "uncached_ok L (req, Finished (Ok resp)) = same_question L req resp"
| "uncached_ok L (req, Storing k e r) = False"
| "uncached_ok L _ = True"

abbreviation progress_ok :: "dnslib \<Rightarrow> message \<times> 'h progress \<Rightarrow> bool" where
  "progress_ok L x \<equiv> uncached_ok L (fst x, cache_view (snd x))"

definition proxy_inv :: "dnslib \<Rightarrow> 'c entry_lru \<Rightarrow> cache_options option \<Rightarrow> ('h, 'c) running \<Rightarrow> bool" where
  "proxy_inv L K opts s \<longleftrightarrow>
     (case (px_cache (rn_proxy s), opts) of
        (None, None) \<Rightarrow> (\<forall>x \<in> set (rn_tasks s). progress_ok L x)
      | (Some c, Some o') \<Rightarrow> (\<exists>log. srv_reachable K o' (as_server c s log) \<and>
          (\<forall>(req, resp, t) \<in> set log. same_question L req resp))
      | _ \<Rightarrow> False)"

lemma srv_reachable_step: "srv_reachable K opts s \<Longrightarrow> srv_step K s s' \<Longrightarrow> srv_reachable K opts s'"
  unfolding srv_reachable_def by (meson rtranclp.rtrancl_into_rtrancl)

lemma proxy_inv_cached:
  assumes "px_cache (rn_proxy s) = Some c" "proxy_inv L K opts s"
  shows "\<exists>o' log. opts = Some o' \<and> srv_reachable K o' (as_server c s log) \<and>
    (\<forall>req resp t. (req, resp, t) \<in> set log \<longrightarrow> same_question L req resp)"
  using assms by (fastforce simp: proxy_inv_def split: option.splits)

lemma proxy_inv_cachedI:
  assumes "srv_reachable K o' s'" "s' = as_server c s log" "px_cache (rn_proxy s) = Some c"
    "\<And>req resp t. (req, resp, t) \<in> set log \<Longrightarrow> same_question L req resp"
  shows "proxy_inv L K (Some o') s"
  using assms by (auto simp: proxy_inv_def)

text \<open>An exchange in flight settles only with an answer to its question.\<close>

fun flight_ok :: "dnslib \<Rightarrow> message \<times> 'h progress \<Rightarrow> bool" where
  "flight_ok L (req, Flying key j us t x) = attempt_ok L req x"
| "flight_ok L _ = True"

definition flights_ok :: "dnslib \<Rightarrow> ('h, 'c) running \<Rightarrow> bool" where
  "flights_ok L s \<longleftrightarrow> (\<forall>x \<in> set (rn_tasks s). flight_ok L x)"

lemma all_tasks_update:
  "\<forall>x \<in> set ts. P x \<Longrightarrow> P y \<Longrightarrow> \<forall>x \<in> set (ts[i := y]). P x"
  using set_update_subset_insert [of ts i y] by blast

lemma flights_ok_update:
  "flights_ok L s \<Longrightarrow> rn_tasks s' = (rn_tasks s)[i := y] \<Longrightarrow> flight_ok L y \<Longrightarrow> flights_ok L s'"
  using all_tasks_update [of "rn_tasks s" "flight_ok L" y i] by (simp add: flights_ok_def)

lemma flights_ok_step:
  assumes "flights_ok L s" "proxy_step L K s s'"
  shows "flights_ok L s'"
  using assms(2)
proof cases
  note upd = flights_ok_update [OF assms(1)]
  case work
  then show ?thesis
  proof cases
    case (flight i req key j us t x u lk x')
    then show ?thesis
      using client_step_ok [OF flight(3)] by (intro upd [where i = i and y = "(req, Flying key j us t x')"]) simp_all
  next
    case (land i req key j us t x r)
    then show ?thesis
      by (intro upd [where i = i and y = "(req, after_attempt (px_cache (rn_proxy s)) (rn_clock s) key us r)"])
        (simp_all add: after_attempt_def split: res.split)
  next
    case (start i req key j us e)
    then show ?thesis
      by (intro upd [where i = i and y = "(req, Flying key j us (rn_clock s) Begin)"]) (simp_all add: attempt_ok_def)
  qed (rule upd, simp, simp add: loop_end_def)+
qed (use assms(1) in \<open>auto simp: flights_ok_def\<close>)

lemma settled_answer:
  assumes "flights_ok L s" "has_task s i (req, Flying key j us t x)" "settled x = Some (Ok resp)"
  shows "same_question L req resp"
proof -
  have "(req, Flying key j us t x) \<in> set (rn_tasks s)" using assms(2) nth_mem by (fastforce simp: has_task_def)
  then show ?thesis using assms(1,3) by (fastforce simp: flights_ok_def attempt_ok_def)
qed

lemma proxy_inv_step_uncached:
  assumes "proxy_inv L K None s" "flights_ok L s" "proxy_step L K s s'"
  shows "proxy_inv L K None s'"
proof -
  have none: "px_cache (rn_proxy s) = None" and ok: "\<forall>x \<in> set (rn_tasks s). progress_ok L x"
    using assms(1) by (auto simp: proxy_inv_def split: option.splits)
  note upd = all_tasks_update [OF ok]
  from assms(3) show ?thesis
  proof cases
    case work
    then show ?thesis
    proof cases
      case (land i req key j us t x r)
      have "progress_ok L (req, after_attempt None (rn_clock s) key us r)"
        using settled_answer [OF assms(2) land(2)] land(3) by (cases r) (auto simp: after_attempt_def proxy_take_def)
      from upd [OF this, of i] show ?thesis using none land(1) by (simp add: proxy_inv_def)
    next
      case (look i req ph co)
      then have "ph = Forwarding None" "co = None" using none by (simp_all add: proxy_look_def)
      then show ?thesis using look(1) upd [of "(req, Phase (Forwarding None))" i] by (simp add: proxy_inv_def)
    next
      case (order i req key shuf us cfg)
      then show ?thesis using none upd [of "(req, Trying key us None)" i] by (simp add: proxy_inv_def)
    next
      case (start i req key j us e)
      then show ?thesis using none upd [of "(req, Flying key j us (rn_clock s) Begin)" i] by (simp add: proxy_inv_def)
    next
      case (flight i req key j us t x u lk x')
      then show ?thesis using none upd [of "(req, Flying key j us t x')" i] by (simp add: proxy_inv_def)
    next
      case (give_up i req key e)
      then show ?thesis
        using none upd [of "(req, loop_end L None (rn_clock s) req key e)" i]
        by (simp add: proxy_inv_def loop_end_def proxy_take_def)
    qed (use none in simp)
  qed (use none ok in \<open>auto simp: proxy_inv_def\<close>)
qed

lemma cached_answer:
  assumes "srv_reachable K o' (as_server c s log)" "px_cache (rn_proxy s') = Some c"
    and "\<And>req resp t. (req, resp, t) \<in> set log \<Longrightarrow> same_question L req resp"
    and "has_task s i (req, x)" "cache_view x = Forwarding key"
    and "\<And>resp. r = Ok resp \<Longrightarrow> same_question L req resp"
    and "\<And>l. as_server c s' l = as_server c (set_task i (req, Phase (proxy_take (Some c) (rn_clock s) key r)) s) l"
  shows "proxy_inv L K (Some o') s'"
proof -
  note nth = as_server_task [OF assms(4), of c log, unfolded assms(5)]
  show ?thesis
    by (rule proxy_inv_cachedI [OF srv_reachable_step [OF assms(1) srv_step.answer [OF conjunct1 [OF nth] conjunct2 [OF nth], of K r]],
          where c = c and log = "log_answer req r (rn_clock s) @ log"])
      (use assms(2,3,6,7) in \<open>auto simp: as_server_def proxy_take_def log_answer_def map_update split: res.splits\<close>)
qed

lemma after_attempt_answer: "\<nexists>e. r = Err e \<Longrightarrow> after_attempt co t key us r = Phase (proxy_take co t key r)"
  by (cases r) (auto simp: after_attempt_def)

lemma proxy_inv_work_cached:
  assumes "work_step L K s s'" "px_cache (rn_proxy s) = Some c" "flights_ok L s"
    and reach: "srv_reachable K o' (as_server c s log)"
    and log: "\<And>req resp t. (req, resp, t) \<in> set log \<Longrightarrow> same_question L req resp"
  shows "proxy_inv L K (Some o') s'"
proof -
  note intro = proxy_inv_cachedI [OF srv_reachable_step [OF reach]]
  note same = proxy_inv_cachedI [OF reach _ _ log]
  from assms(1) show ?thesis
  proof cases
    case (look i req ph co)
    then obtain c' where c': "co = Some c'" "look_up K c (rn_clock s) req = (ph, c')"
      using assms(2) by (auto simp: proxy_look_def split: prod.splits)
    show ?thesis
      by (rule intro [OF srv_step.look [of i _ req K ph c']])
        (use look c' log as_server_task [OF look(2), of c log] in \<open>auto simp: as_server_set_task, auto simp: as_server_def\<close>)
  next
    case (order i req key shuf us cfg)
    show ?thesis
      by (rule same) (use order(1) assms(2) in \<open>simp_all add: as_server_set_task view_unchanged [OF order(2)]\<close>)
  next
    case (start i req key j us e)
    show ?thesis
      by (rule same) (use start(1) assms(2) in \<open>simp_all add: as_server_set_task view_unchanged [OF start(2)]\<close>)
  next
    case (flight i req key j us t x u lk x')
    show ?thesis
      by (rule same) (use flight(1) assms(2) in \<open>simp_all add: as_server_set_task view_unchanged [OF flight(2)]\<close>)
  next
    case (land i req key j us t x r)
    show ?thesis
    proof (cases "\<exists>e'. r = Err e'")
      case True
      then obtain e' where "r = Err e'" by blast
      then show ?thesis
        by (intro same) (use land(1) assms(2) in
          \<open>simp_all add: after_attempt_def as_server_set_task view_unchanged [OF land(2)]\<close>)
    next
      case False
      show ?thesis
        by (intro cached_answer [OF reach _ log land(2), where key = key and r = r])
          (use land assms(2) settled_answer [OF assms(3) land(2)] in
            \<open>simp_all add: as_server_set_task after_attempt_answer [OF False]\<close>)
    qed
  next
    case (give_up i req key e)
    show ?thesis
      by (rule cached_answer [OF reach _ log give_up(2), where key = key and
            r = "Err (case e of Some e \<Rightarrow> e | None \<Rightarrow> no_upstreams L req)"])
        (use give_up(1) assms(2) in \<open>auto simp: loop_end_def\<close>)
  next
    case (put i req key e resp c')
    show ?thesis
      by (rule intro [OF srv_step.store [of i _ req key e resp K]])
        (use put assms(2) log as_server_task [OF put(2), of c log] in \<open>auto simp: as_server_set_task, auto simp: as_server_def\<close>)
  qed
qed

lemma proxy_inv_step_cached:
  assumes "proxy_inv L K (Some o') s" "flights_ok L s" "proxy_step L K s s'"
  shows "proxy_inv L K (Some o') s'"
proof -
  obtain c where c: "px_cache (rn_proxy s) = Some c"
    using assms(1) by (auto simp: proxy_inv_def split: option.splits)
  obtain log where reach: "srv_reachable K o' (as_server c s log)"
      and log: "\<And>req resp t. (req, resp, t) \<in> set log \<Longrightarrow> same_question L req resp"
    using proxy_inv_cached [OF c assms(1)] by auto
  note intro = proxy_inv_cachedI [OF srv_reachable_step [OF reach]]
  from assms(3) show ?thesis
  proof cases
    case (tick d)
    show ?thesis
      by (rule intro [OF srv_step.tick [of K _ d]]) (use tick c log in \<open>auto simp: as_server_def\<close>)
  next
    case (arrive req)
    show ?thesis
      by (rule intro [OF srv_step.arrive [of K _ req]]) (use arrive c log in \<open>auto simp: as_server_def\<close>)
  next
    case work
    then show ?thesis by (rule proxy_inv_work_cached [OF _ c assms(2) reach log])
  qed
qed

lemma proxy_reaches_invariant:
  assumes "proxy_reaches L K px s" "\<And>t. P (rn_init px t)" "\<And>s s'. P s \<Longrightarrow> proxy_step L K s s' \<Longrightarrow> P s'"
  shows "P s"
proof -
  obtain t where "(proxy_step L K)\<^sup>*\<^sup>* (rn_init px t) s" using assms(1) by (auto simp: proxy_reaches_def)
  then show ?thesis by induction (auto intro: assms(2,3))
qed

lemma flights_ok_init: "flights_ok L (rn_init px t)"
  by (simp add: flights_ok_def rn_init_def)

lemma proxy_inv_init:
  assumes "px_cache px = map_option (cache_new K) opts"
  shows "proxy_inv L K opts (rn_init px t)"
proof (cases opts)
  case (Some o')
  have reach: "srv_reachable K o' (srv_init K o' t)" by (auto simp: srv_reachable_def)
  have "proxy_inv L K (Some o') (rn_init px t)"
    by (rule proxy_inv_cachedI [OF reach, where log = "[]" and c = "cache_new K o'"])
      (use Some assms in \<open>simp_all add: as_server_def srv_init_def rn_init_def\<close>)
  then show ?thesis using Some by simp
qed (use assms in \<open>simp add: proxy_inv_def rn_init_def\<close>)

lemma proxy_inv_reaches:
  assumes "proxy_reaches L K px s" "px_cache px = map_option (cache_new K) opts"
  shows "proxy_inv L K opts s"
proof -
  have "proxy_inv L K opts s \<and> flights_ok L s"
  proof (rule proxy_reaches_invariant [OF assms(1)])
    show "proxy_inv L K opts (rn_init px t) \<and> flights_ok L (rn_init px t)" for t
      using proxy_inv_init [OF assms(2)] by (simp add: flights_ok_init)
    show "proxy_inv L K opts s' \<and> flights_ok L s'" if "proxy_inv L K opts s \<and> flights_ok L s" "proxy_step L K s s'" for s s'
      using that proxy_inv_step_cached proxy_inv_step_uncached flights_ok_step by (cases opts) blast+
  qed
  then show ?thesis ..
qed

context dns_cache
begin

lemma proxy_same_question:
  assumes "proxy_inv L K opts s" "(req, Phase (Finished (Ok resp))) \<in> set (rn_tasks s)"
  shows "same_question L req resp"
proof (cases "px_cache (rn_proxy s)")
  case None
  then have "\<forall>x \<in> set (rn_tasks s). progress_ok L x"
    using assms(1) by (auto simp: proxy_inv_def split: option.splits)
  then show ?thesis using assms(2) by fastforce
next
  case (Some c)
  obtain o' log where "srv_reachable K o' (as_server c s log)"
      "\<And>req resp t. (req, resp, t) \<in> set log \<Longrightarrow> same_question L req resp"
    using proxy_inv_cached [OF Some assms(1)] by blast
  moreover have "(req, Finished (Ok resp)) \<in> set (tasks (as_server c s log))"
    using assms(2) by (force simp: as_server_def)
  ultimately show ?thesis using finished_same_question [of o' "as_server c s log"] by simp
qed

end

lemma main_cache_options:
  assumes "main_cache K a = Ok co"
  shows "\<exists>opts. co = map_option (cache_new K) opts"
proof (cases co)
  case (Some c)
  then obtain o' where "co = Some (cache_new K o')"
    using assms by (auto simp: main_cache_def split: if_splits)
  then show ?thesis by (intro exI [of _ "Some o'"]) simp
qed (simp add: exI [of _ None])

section \<open>Requests stay with their rule\<close>

text \<open>A request tries the upstreams of its rule, each as often as the rule names it.\<close>

fun tries_only :: "nat multiset \<Rightarrow> 'h progress \<Rightarrow> bool" where
  "tries_only M (Trying key us e) \<longleftrightarrow> mset us \<subseteq># M"
| "tries_only M (Flying key j us t x) \<longleftrightarrow> add_mset j (mset us) \<subseteq># M"
| "tries_only M (Phase ph) \<longleftrightarrow> True"

definition rule_upstreams :: "dnslib \<Rightarrow> 'h upstream_config \<Rightarrow> message \<Rightarrow> nat multiset" where
  "rule_upstreams L cfg req = mset (upstreams (group_for cfg (query_name L req)))"

definition rules_inv :: "dnslib \<Rightarrow> 'h upstream_config \<Rightarrow> ('h, 'c) running \<Rightarrow> bool" where
  "rules_inv L cfg0 s \<longleftrightarrow>
     config_ok (rn_config s) \<and> length (store (rn_config s)) = length (store cfg0) \<and>
     (\<forall>n. upstreams (group_for (rn_config s) n) = upstreams (group_for cfg0 n)) \<and>
     (\<forall>x \<in> set (rn_tasks s). tries_only (rule_upstreams L cfg0 (fst x)) (snd x))"

lemma group_for_store [simp]: "group_for (cfg\<lparr>store := trs\<rparr>) n = group_for cfg n"
  by (simp add: group_for_def group_key_def split: option.split)

lemma config_ok_store [simp]: "config_ok (cfg\<lparr>store := (store cfg)[j := tr]\<rparr>) = config_ok cfg"
  by (simp add: config_ok_def)

lemma rules_inv_task:
  assumes "rules_inv L cfg0 s" "tries_only (rule_upstreams L cfg0 req) x"
  shows "\<forall>y \<in> set ((rn_tasks s)[i := (req, x)]). tries_only (rule_upstreams L cfg0 (fst y)) (snd y)"
  using all_tasks_update [of "rn_tasks s" "\<lambda>y. tries_only (rule_upstreams L cfg0 (fst y)) (snd y)" "(req, x)" i] assms
  by (simp add: rules_inv_def)

lemma rules_inv_has_task:
  "rules_inv L cfg0 s \<Longrightarrow> has_task s i (req, x) \<Longrightarrow> tries_only (rule_upstreams L cfg0 req) x"
  using nth_mem by (fastforce simp: rules_inv_def has_task_def)

lemma tries_next: "mset (j # us) \<subseteq># M \<Longrightarrow> mset us \<subseteq># M"
  using mset_subset_eq_insertD [of j "mset us" M] by (simp add: subset_mset.less_imp_le subset_mset_def)

lemma rules_inv_work:
  assumes "rules_inv L cfg0 s" "work_step L K s s'"
  shows "rules_inv L cfg0 s'"
  using assms(2)
proof cases
  case (order i req key shuf us cfg)
  have ok: "config_ok (rn_config s)" using assms(1) by (simp add: rules_inv_def)
  note u = upstreams_for_ok [OF order(4) ok order(3)]
  then have "mset us = rule_upstreams L cfg0 req"
    using assms(1) by (simp add: rule_upstreams_def rules_inv_def)
  then show ?thesis
    using u assms(1) order(1) rules_inv_task [OF assms(1), of req "Trying key us None" i] upstreams_for_rules [OF order(4)]
    by (simp add: rules_inv_def)
next
  case (start i req key j us e)
  then show ?thesis
    using assms(1) rules_inv_has_task [OF assms(1) start(2)]
      rules_inv_task [OF assms(1), of req "Flying key j us (rn_clock s) Begin" i] by (simp add: rules_inv_def)
next
  case (flight i req key j us t x u lk x')
  then show ?thesis
    using assms(1) rules_inv_has_task [OF assms(1) flight(2)] rules_inv_task [OF assms(1), of req "Flying key j us t x'" i]
    by (simp add: rules_inv_def)
next
  case (land i req key j us t x r)
  have "mset us \<subseteq># rule_upstreams L cfg0 req"
    using rules_inv_has_task [OF assms(1) land(2)] tries_next [of j us] by simp
  then have "tries_only (rule_upstreams L cfg0 req) (after_attempt (px_cache (rn_proxy s)) (rn_clock s) key us r)"
    by (simp add: after_attempt_def split: res.split)
  from rules_inv_task [OF assms(1) this, of i] show ?thesis
    using assms(1) land(1) by (simp add: rules_inv_def)
next
  case (look i req ph co)
  then show ?thesis using assms(1) rules_inv_task [OF assms(1), of req "Phase ph" i] by (simp add: rules_inv_def)
next
  case (give_up i req key e)
  then show ?thesis
    using assms(1) rules_inv_task [OF assms(1), of req "loop_end L (px_cache (rn_proxy s)) (rn_clock s) req key e" i]
    by (simp add: rules_inv_def loop_end_def)
next
  case (put i req key e resp c)
  then show ?thesis
    using assms(1) rules_inv_task [OF assms(1), of req "Phase (Finished (Ok resp))" i] by (simp add: rules_inv_def)
qed

lemma rules_inv_step: "rules_inv L cfg0 s \<Longrightarrow> proxy_step L K s s' \<Longrightarrow> rules_inv L cfg0 s'"
  by (erule proxy_step.cases) (simp_all add: rules_inv_work, simp_all add: rules_inv_def)

lemma rules_inv_reaches:
  assumes "proxy_reaches L K px s" "config_ok (px_config px)"
  shows "rules_inv L (px_config px) s"
proof (rule proxy_reaches_invariant [OF assms(1)])
  show "rules_inv L (px_config px) (rn_init px t)" for t using assms(2) by (simp add: rules_inv_def rn_init_def)
qed (rule rules_inv_step)

lemma rules_inv_in_store:
  assumes "rules_inv L cfg0 s" "j \<in># rule_upstreams L cfg0 req"
  shows "j < length (store (rn_config s))"
proof -
  have "j \<in> set (upstreams (group_for (rn_config s) (query_name L req)))"
    using assms by (simp add: rules_inv_def rule_upstreams_def)
  moreover have "group_in (length (store (rn_config s))) (group_for (rn_config s) (query_name L req))"
    using assms(1) by (auto simp: rules_inv_def config_ok_def group_for_def rules_ok_def split: option.splits)
  ultimately show ?thesis by (simp add: group_in_def)
qed

lemma main_config_ok:
  assumes "main E a p = (Ok (Serving px), p')"
  shows "config_ok (px_config px)"
proof -
  have "main_config (env_world E) (env_look E) (env_host E) a = Ok (px_config px)"
    using main_started [OF assms] by blast
  then show ?thesis using parse_with_mode_ok by (auto simp: main_config_def res_simps map_err_eq_Ok)
qed

end
