(* ===== verification/Props_Cache.thy ===== *)
theory Props_Cache
  imports Cache_Tasks
begin

text \<open>
  The properties of the response cache (\<open>cache.rs\<close>), over any bounded map that keeps the
  \<open>lru\<close> crate's documented order and any message library whose name comparisons are
  equivalences. The witnesses run two requests for one name, in different case, through a cache
  of one entry.
\<close>

section \<open>A run of two requests\<close>

definition ex_answer :: message where
  "ex_answer = ex_query\<lparr>message_type := Response,
     answers := [\<lparr>rr_name = ex_name, rr_ttl = 300, rr_class = 1, rr_data = RD_A 10 0 0 1\<rparr>]\<rparr>"

definition ex_query_upper :: message where
  "ex_query_upper = ex_query\<lparr>msg_id := 8, queries := [\<lparr>q_name = Name [bytes_of_string ''WWW'',
     bytes_of_string ''test''] True, q_type = RT_A, q_class = 1\<rparr>]\<rparr>"

definition ex_opts :: cache_options where
  "ex_opts = \<lparr>opt_size = 1, opt_min_ttl = 0, opt_max_ttl = Some (from_secs 60)\<rparr>"

type_synonym ref_map = "nat \<times> (ckey \<times> cache_entry) list"

abbreviation ex_lru :: "ref_map entry_lru" where
  "ex_lru \<equiv> ref_lru (key_eq ref_dns)"

definition ex_key :: ckey where
  "ex_key = \<lparr>key_name = ex_name, query_type = RT_A, query_class = 1, key_dnssec_ok = False,
     key_checking_disabled = False\<rparr>"

definition ex_entry :: cache_entry where
  "ex_entry = \<lparr>response = ex_answer, stored_at = 0, entry_ttl = from_secs 60\<rparr>"

definition ex_cache :: "ref_map cache" where
  "ex_cache = \<lparr>entries = (1, [(ex_key, ex_entry)]), min_ttl = 0, max_ttl = Some (from_secs 60)\<rparr>"

definition ex_served :: message where
  "ex_served = set_all_ttls 50 (ex_answer\<lparr>msg_id := 8\<rparr>)"

definition ex_state :: "ref_map server" where
  "ex_state = \<lparr>clock = from_secs 10, srv_cache = ex_cache,
     tasks = [(ex_query, Finished (Ok ex_answer)), (ex_query_upper, Finished (Ok ex_served))],
     answered = [(ex_query, ex_answer, 0)]\<rparr>"

lemmas ex_defs = ex_name_def ex_query_def ex_answer_def ex_query_upper_def ex_opts_def ex_key_def
  ex_entry_def ex_cache_def ex_served_def ex_state_def

lemma ex_look_miss:
  "look_up ex_lru (cache_new ex_lru ex_opts) 0 ex_query = (Forwarding (Some ex_key), cache_new ex_lru ex_opts)"
  by (simp add: look_up_def cache_key_def cache_get_def cache_new_def ref_lru_def ex_defs)

lemma ex_take_answer:
  "take_answer (cache_new ex_lru ex_opts) 0 (Some ex_key) (Ok ex_answer) = Storing ex_key ex_entry ex_answer"
  by (simp add: take_answer_def new_entry_def response_ttl_def cacheable_records_def cache_new_def
      from_secs_def ex_defs)

lemma ex_put: "put_entry ex_lru (cache_new ex_lru ex_opts) ex_key ex_entry = ex_cache"
  by (simp add: put_entry_def cache_new_def ref_lru_def ex_cache_def ex_opts_def)

lemma ex_key_eq: "key_eq ref_dns ex_key (ex_key\<lparr>key_name := Name [bytes_of_string ''WWW'',
     bytes_of_string ''test''] True\<rparr>)"
  by (simp add: key_eq_def ref_dns_def lower_labels_def lower_byte_def ex_key_def ex_name_def
      bytes_of_string_def)

lemma ex_look_hit: "look_up ex_lru ex_cache (from_secs 10) ex_query_upper = (Finished (Ok ex_served), ex_cache)"
proof -
  have "cache_key ex_query_upper = Some (ex_key\<lparr>key_name := Name [bytes_of_string ''WWW'',
     bytes_of_string ''test''] True\<rparr>)"
    by (simp add: cache_key_def ex_query_upper_def ex_key_def ex_query_def)
  then show ?thesis using ex_key_eq
    by (simp add: look_up_def cache_get_def ref_lru_def ex_cache_def ex_entry_def serve_entry_def
        from_secs_def as_secs_def ex_served_def) (simp add: ex_query_upper_def)
qed

lemma ex_reachable: "srv_reachable ex_lru ex_opts ex_state"
proof -
  let ?step = "srv_step ex_lru"
  let ?s0 = "srv_init ex_lru ex_opts 0"
  let ?c0 = "cache_new ex_lru ex_opts"
  let ?s1 = "?s0\<lparr>tasks := [(ex_query, Started)]\<rparr>"
  let ?s2 = "?s0\<lparr>tasks := [(ex_query, Forwarding (Some ex_key))]\<rparr>"
  let ?s3 = "?s0\<lparr>tasks := [(ex_query, Storing ex_key ex_entry ex_answer)], answered := [(ex_query, ex_answer, 0)]\<rparr>"
  let ?s4 = "?s3\<lparr>srv_cache := ex_cache, tasks := [(ex_query, Finished (Ok ex_answer))]\<rparr>"
  let ?s5 = "?s4\<lparr>clock := from_secs 10\<rparr>"
  let ?s6 = "?s5\<lparr>tasks := [(ex_query, Finished (Ok ex_answer)), (ex_query_upper, Started)]\<rparr>"
  have "?step ?s0 ?s1" using srv_step.arrive [of ex_lru ?s0 ex_query] by (simp add: srv_init_def)
  moreover have "?step ?s1 ?s2"
    using srv_step.look [of 0 ?s1 ex_query ex_lru] ex_look_miss by (simp add: srv_init_def)
  moreover have "?step ?s2 ?s3"
    using srv_step.answer [of 0 ?s2 ex_query "Some ex_key" ex_lru "Ok ex_answer"] ex_take_answer
    by (simp add: srv_init_def log_answer_def)
  moreover have "?step ?s3 ?s4"
    using srv_step.store [of 0 ?s3 ex_query ex_key ex_entry ex_answer ex_lru] ex_put
    by (simp add: srv_init_def)
  moreover have "?step ?s4 ?s5"
    using srv_step.tick [of ex_lru ?s4 "from_secs 10"] by (simp add: srv_init_def)
  moreover have "?step ?s5 ?s6"
    using srv_step.arrive [of ex_lru ?s5 ex_query_upper] by simp
  moreover have "?step ?s6 ex_state"
    using srv_step.look [of 1 ?s6 ex_query_upper ex_lru] ex_look_hit
    by (simp add: srv_init_def ex_state_def)
  ultimately show ?thesis
    unfolding srv_reachable_def
    by (intro exI [of _ 0]) ((rule converse_rtranclp_into_rtranclp, assumption)+, rule rtranclp.rtrancl_refl)
qed

section \<open>Properties\<close>



text \<open>C25: the cache never holds more entries than the configured size, in any interleaving.\<close>

theorem cache_size_bound:
  assumes "dns_cache L K recent cap" "srv_reachable K opts s"
  shows "length (recent (entries (srv_cache s))) \<le> opt_size opts"
  using assms by (rule dns_cache.capacity)

theorem cache_size_bound_witness:
  "length (snd (entries (srv_cache ex_state))) \<le> opt_size ex_opts"
  using cache_size_bound [OF ref_cache.dns_cache_axioms ex_reachable] .

text \<open>C39: a hit is an unexpired entry of an equal key; the answer has the request's id, the stored
  question, and the entry's remaining whole seconds as the TTL of every record but the OPT record.
  An entry whose lifetime is over is never returned, and it is gone from the cache afterwards.\<close>

theorem cache_get_by_lifetime:
  assumes "dns_cache L K recent cap"
  shows "case cache_get K c key i t of
      (Some resp, c') \<Rightarrow> \<exists>k e. (k, e) \<in> set (recent (entries c)) \<and> key_eq L k key \<and>
        t - stored_at e < entry_ttl e \<and> msg_id resp = i \<and> queries resp = queries (response e) \<and>
        (\<forall>r \<in> set (cacheable_records resp). rr_ttl r = of_nat (as_secs (entry_ttl e - (t - stored_at e))))
    | (None, c') \<Rightarrow> \<forall>(k, e) \<in> set (recent (entries c')). \<not> key_eq L k key"
  using dns_cache.cache_get_hit_answer [OF assms, of c key i t] dns_cache.cache_get_miss [OF assms, of c key i t]
  by (auto split: prod.split option.split)

theorem cache_get_by_lifetime_witness:
  "case cache_get ex_lru ex_cache ex_key 9 (from_secs 60) of
      (Some resp, c') \<Rightarrow> \<exists>k e. (k, e) \<in> set (snd (entries ex_cache)) \<and> key_eq ref_dns k ex_key \<and>
        from_secs 60 - stored_at e < entry_ttl e \<and> msg_id resp = 9 \<and> queries resp = queries (response e) \<and>
        (\<forall>r \<in> set (cacheable_records resp). rr_ttl r = of_nat (as_secs (entry_ttl e - (from_secs 60 - stored_at e))))
    | (None, c') \<Rightarrow> \<forall>(k, e) \<in> set (snd (entries c')). \<not> key_eq ref_dns k ex_key"
  by (rule cache_get_by_lifetime [OF ref_cache.dns_cache_axioms])

text \<open>C26: the wrapped handler is asked once for a question: after it answered a request the cache
  had no entry for, every request with an equal key within the answer's lifetime is answered at
  once, whatever the handler would do, with its own id and the remaining lifetime.\<close>

theorem cache_handler_asked_once:
  assumes "dns_cache L K recent cap"
    and "cache_into_handler K h c t req = Ready d (Ok resp, c')"
    and "cache_key req = Some key" "cache_key req' = Some key'" "key_eq L key key'"
    and "fst (cache_get K c key (msg_id req) t) = None"
    and "response_ttl c resp = Some ttl" "t + d \<le> t'" "t' - (t + d) < ttl" "0 < cap (entries c)"
  shows "map_fut fst (cache_into_handler K h' c' t' req') =
    now (Ok (serve_entry \<lparr>response = resp, stored_at = t + d, entry_ttl = ttl\<rparr> (msg_id req') (t' - (t + d))))"
  using assms by (rule dns_cache.handler_repeat)

theorem cache_handler_asked_once_witness:
  "map_fut fst (cache_into_handler ex_lru (\<lambda>_. Never) ex_cache (from_secs 10) ex_query) =
    now (Ok (serve_entry \<lparr>response = ex_answer, stored_at = 0 + 0, entry_ttl = from_secs 60\<rparr>
      (msg_id ex_query) (from_secs 10 - (0 + 0))))"
proof (rule cache_handler_asked_once [OF ref_cache.dns_cache_axioms])
  show "cache_into_handler ex_lru (\<lambda>_. now (Ok ex_answer)) (cache_new ex_lru ex_opts) 0 ex_query =
      Ready 0 (Ok ex_answer, ex_cache)"
    by (simp add: cache_into_handler_phases ex_look_miss ex_take_answer finish_store_def ex_put)
  show "cache_key ex_query = Some ex_key" "cache_key ex_query = Some ex_key"
    by (simp_all add: cache_key_def ex_query_def ex_key_def)
qed (simp_all add: ref_dns.key_eq_refl cache_new_def ref_lru_def response_ttl_def
      cache_get_def cacheable_records_def from_secs_def ex_answer_def ex_query_def ex_opts_def)

text \<open>The lifetime of a response: none when it has no record but an OPT record, which keeps it
  out of the cache; otherwise the smallest record TTL, raised to the configured minimum and then
  cut to the configured maximum.\<close>

lemma response_ttl_clamped:
  "response_ttl c resp =
    (if cacheable_records resp = [] then None
     else let m = max (from_secs (unat (Min (rr_ttl ` set (cacheable_records resp))))) (min_ttl c)
          in Some (case max_ttl c of None \<Rightarrow> m | Some x \<Rightarrow> min m x))"
  by (cases "response_ttl c resp")
    (auto simp: response_ttl_Some response_ttl_None_iff [THEN iffD1] Let_def split: option.splits)


end
