(* ===== verification/Loopback.thy ===== *)
theory Loopback
  imports Upstream_Config Listener_Doh Listener_Dnscrypt Reference
begin

text \<open>
  Networks in which the peer of a client is a listener of this program. A connection is what was
  sent on it and how much of the listener's output was read; an HTTP exchange is the listener's
  response. The operations take no time and none of them fails, so that what an exchange gives is
  decided by the two ends alone. \<open>stream\<close> is the listener's output for the bytes of a connection
  or a QUIC stream, \<open>dgram\<close> its answer to a datagram, \<open>serve_http\<close> its response to a request. The
  lemmas show what each client of the program gets from the matching listener.
\<close>

section \<open>The network\<close>

datatype lo = Lo (lo_sent: bytes) (lo_read: nat) | LoHttp http_response

definition lo_addr :: socket_addr where
  "lo_addr = socket_addr_new (V4 127 0 0 1) 53"

definition lo_net :: "(bytes \<Rightarrow> bytes) \<Rightarrow> (bytes \<Rightarrow> bytes option) \<Rightarrow> lo net" where
  "lo_net stream dgram = \<lparr>
     udp_bind = (\<lambda>_. now (Ok (Lo [] 0))),
     udp_connect = (\<lambda>h _. now (Ok h)),
     udp_send = (\<lambda>h b. now (Ok (Lo b 0))),
     udp_recv = (\<lambda>h n. case dgram (lo_sent h) of Some r \<Rightarrow> now (Ok (take n r)) | None \<Rightarrow> Never),
     tcp_connect = (\<lambda>_. now (Ok (Lo [] 0))),
     write_all = (\<lambda>h b. now (Ok (Lo (lo_sent h @ b) (lo_read h)))),
     read_exact = (\<lambda>h n.
       let out = drop (lo_read h) (stream (lo_sent h))
       in if n \<le> length out then now (Ok (take n out, Lo (lo_sent h) (lo_read h + n))) else Never),
     read_exact2 = (\<lambda>h. case drop (lo_read h) (stream (lo_sent h)) of
         a # b # _ \<Rightarrow> now (Ok ((a, b), Lo (lo_sent h) (lo_read h + 2)))
       | _ \<Rightarrow> Never),
     server_name_try_from = Inr,
     tls_connect = (\<lambda>_ _ h. now (Ok h)),
     quic_endpoint = (\<lambda>_. Inr (Lo [] 0)),
     quic_client_config = Inr,
     quic_connect = (\<lambda>h _ _ _. now (Ok h)),
     quic_open_bi = (\<lambda>h. now (Ok (Lo [] 0))),
     quic_finish = (\<lambda>h. now (Ok h)),
     getaddrinfo = (\<lambda>_. now (Ok [lo_addr]))\<rparr>"

text \<open>What a listener sees of a GET request.\<close>

definition http_in_of :: "http_request \<Rightarrow> http_in" where
  "http_in_of r = \<lparr>in_method = GET, in_query = map_option snd (split_once ''?'' (rq_uri r)),
     in_authorization = map_of (rq_headers r) ''authorization'', in_body = now (Ok []),
     in_chunks = [], in_chunk_error = None\<rparr>"

definition lo_http :: "(http_in \<Rightarrow> http_response dfut) \<Rightarrow> lo http" where
  "lo_http serve_http = \<lparr>
     uri_parse = Inr,
     request_build = Inr,
     hyper_request = (\<lambda>connect r.
       await_ok (lift_err (\<lambda>_. [''connection failed'']) connect) (\<lambda>_.
       await_ok (lift_err (\<lambda>_. [''connection closed'']) (serve_http (http_in_of r))) (\<lambda>resp.
       now (Ok (status resp, LoHttp resp))))),
     body_collect = (\<lambda>h. case h of LoHttp resp \<Rightarrow> now (Ok (body resp)) | Lo _ _ \<Rightarrow> Never),
     h3_client_new = (\<lambda>h. now (Ok h)),
     h3_send_request = (\<lambda>h r.
       await_ok (lift_err (\<lambda>_. ''stream reset'') (serve_http (http_in_of r))) (\<lambda>resp. now (Ok (LoHttp resp)))),
     h3_finish = (\<lambda>h. now (Ok h)),
     h3_recv_response = (\<lambda>h. case h of LoHttp resp \<Rightarrow> now (Ok (status resp, h)) | Lo _ _ \<Rightarrow> Never),
     h3_recv_data = (\<lambda>h. case h of
         LoHttp resp \<Rightarrow> now (Ok (if body resp = [] then None else Some (body resp), LoHttp (resp\<lparr>body := []\<rparr>)))
       | Lo _ _ \<Rightarrow> Never)\<rparr>"

section \<open>Plain TCP and DoT\<close>

lemma u16_be_length:
  assumes "length m \<le> 65535"
  shows "unat (u16_from_be_bytes (ucast (drop_bit 8 (of_nat (length m) :: u16))) (ucast (of_nat (length m) :: u16)))
    = length m"
proof -
  have "u16_from_be_bytes (ucast (drop_bit 8 w)) (ucast w) = w" for w :: u16
    using u16_from_to_be_bytes [of w] by (simp add: u16_to_be_bytes_def)
  moreover have "unat (of_nat (length m) :: u16) = length m"
    using assms by (simp add: unat_of_nat take_bit_nat_eq_self)
  ultimately show ?thesis by simp
qed

lemma with_timeout_now [simp]: "with_timeout d e (now r) = now r"
  by (cases d) simp_all

lemma or_timeout_now [simp]: "or_timeout d (now r) = now r"
  by (cases d) (simp_all add: or_timeout_def)

lemma lo_framed_exchange:
  assumes "stream (u16_to_be_bytes (of_nat (length b)) @ b) = u16_to_be_bytes (of_nat (length m)) @ m @ rest"
    and "length m \<le> 65535"
  shows "framed_exchange L (lo_net stream dgram) req b (Lo [] 0) = now (unpack_checked L req m)"
  using assms(1) u16_be_length [OF assms(2)]
  by (simp add: framed_exchange_def write_framed_def read_framed_def lo_net_def u16_to_be_bytes_def Let_def)

lemma lo_dial_tcp:
  assumes "parse_ip_addr (up_host self) = Some ip"
  shows "dial_tcp (lo_net stream dgram) self = now (Ok (Lo [] 0))"
  using assms
  by (simp add: dial_tcp_def resolve_dial_context_def resolve_addrs_def new_dial_context_def dial_one_def lo_net_def)

text \<open>One message through a stream listener.\<close>

lemma carries_one: "length b \<le> 65535 \<Longrightarrow> carries (frame b) [b]"
  by (auto simp: carries_def)

lemma connection_loop_one:
  assumes "length b \<le> 65535" "from_bytes L b = Inr req" "fut_value (handle req) = Some (Ok resp)"
    and "to_bytes L resp = Inr rb" "length rb \<le> 65535"
  shows "fst (connection_loop L what (\<lambda>_. handle) 0 Unlimited (frame b)) = frame rb"
  using assms(2-) stream_conn.answers_in_order
    [OF carries_one [OF assms(1)], where L = L and what = what and handle = "\<lambda>_. handle" and room = Unlimited and k = 0]
  by (simp add: stream_output_def answer_message_def)

text \<open>
  A question and its answer, with the bytes that carry them.
\<close>

definition exchanged :: "dnslib \<Rightarrow> (message \<Rightarrow> bool) \<Rightarrow> message \<Rightarrow> bytes \<Rightarrow> message \<Rightarrow> bytes \<Rightarrow> bool" where
  "exchanged L good req b resp rb \<longleftrightarrow>
     dns_codec L good \<and> good req \<and> good resp \<and> same_question L req resp \<and>
     to_bytes L req = Inr b \<and> to_bytes L resp = Inr rb \<and> length b \<le> 65535 \<and> length rb \<le> 65535"

lemma exchanged_decode:
  assumes "exchanged L good req b resp rb"
  shows "from_bytes L b = Inr req" "from_bytes L rb = Inr resp"
  using assms dns_codec.decode_encoded unfolding exchanged_def by blast+

lemma framed_loopback:
  assumes ex: "exchanged L good req b resp rb" and handle: "fut_value (handle req) = Some (Ok resp)"
    and stream: "\<And>s. stream s = fst (connection_loop L what (\<lambda>_. handle) 0 Unlimited s)"
  shows "framed_exchange L (lo_net stream dgram) req b (Lo [] 0) = now (Ok resp)"
proof -
  note dec = exchanged_decode [OF ex]
  have ok: "to_bytes L resp = Inr rb" "length rb \<le> 65535" "length b \<le> 65535" "same_question L req resp"
    using ex by (auto simp: exchanged_def)
  have "stream (u16_to_be_bytes (of_nat (length b)) @ b) = u16_to_be_bytes (of_nat (length rb)) @ rb @ []"
    using connection_loop_one [OF ok(3) dec(1), where handle = handle, OF handle ok(1,2)]
    by (simp add: stream frame_def)
  then have "framed_exchange L (lo_net stream dgram) req b (Lo [] 0) = now (unpack_checked L req rb)"
    by (rule lo_framed_exchange) (rule ok(2))
  moreover have "unpack_checked L req rb = Ok resp" using dec ok by (simp add: unpack_checked_ok_iff)
  ultimately show ?thesis by simp
qed

lemma tcp_loopback:
  assumes ex: "exchanged L good req b resp rb" and handle: "fut_value (handle req) = Some (Ok resp)"
    and host: "parse_ip_addr (up_host self) = Some ip"
  shows "tcp_exchange L (lo_net (\<lambda>s. fst (handle_tcp_connection L (\<lambda>_. handle) (s, Unlimited))) dgram) self req = now (Ok resp)"
proof -
  have "to_bytes L req = Inr b" "length b \<le> 65535" using ex by (auto simp: exchanged_def)
  then show ?thesis
    using lo_dial_tcp [OF host] framed_loopback [OF ex, where handle = handle, OF handle]
    by (simp add: tcp_exchange_def pack_framed_def handle_tcp_connection_def)
qed

lemma dot_loopback:
  assumes ex: "exchanged L good req b resp rb" and handle: "fut_value (handle req) = Some (Ok resp)"
    and host: "parse_ip_addr (up_host self) = Some ip"
  shows "dot_exchange L (lo_net (\<lambda>s. fst (dot_handle_connection L (\<lambda>_. handle) (Inr (s, Unlimited)))) dgram) self req = now (Ok resp)"
proof -
  have "tls_handshake (lo_net stream dgram) c h (Lo [] 0) = now (Ok (Lo [] 0))" for stream c h
    by (simp add: tls_handshake_def lo_net_def)
  moreover have "to_bytes L req = Inr b" "length b \<le> 65535" using ex by (auto simp: exchanged_def)
  ultimately show ?thesis
    using lo_dial_tcp [OF host] framed_loopback [OF ex, where handle = handle, OF handle]
    by (simp add: dot_exchange_def pack_framed_def dot_handle_connection_def)
qed

section \<open>Plain UDP\<close>

text \<open>The listener's answer to a datagram, when it sends one.\<close>

definition udp_reply :: "bytes dfut \<Rightarrow> bytes option" where
  "udp_reply f = (case f of Ready _ (Ok b) \<Rightarrow> Some b | _ \<Rightarrow> None)"

text \<open>A response of more than 512 bytes arrives truncated.\<close>

lemma udp_loopback:
  assumes ex: "exchanged L good req b resp rb" and handle: "fut_value (handle req) = Some (Ok resp)"
    and tr: "exchanged L good req b (truncate_msg L resp) tb"
  shows "udp_exchange L (lo_net stream (\<lambda>p. udp_reply (handle_udp_packet L handle p))) self req =
    now (Ok (if length rb \<le> 512 then resp else truncate_msg L resp))"
proof -
  note dec = exchanged_decode [OF ex] and dect = exchanged_decode [OF tr]
  have ok: "to_bytes L req = Inr b" "to_bytes L resp = Inr rb" "length rb \<le> 65535" "same_question L req resp"
      "to_bytes L (truncate_msg L resp) = Inr tb" "length tb \<le> 65535" "same_question L req (truncate_msg L resp)"
    using ex tr by (auto simp: exchanged_def)
  obtain t where "handle req = Ready t (Ok resp)" using handle by (auto simp: fut_value_eq_Some)
  then have "udp_reply (handle_udp_packet L handle b) = Some (if length rb \<le> 512 then rb else tb)"
    using dec(1) ok by (simp add: handle_udp_packet_def fit_udp_def udp_reply_def)
  moreover have "unpack_checked L req rb = Ok resp" "unpack_checked L req tb = Ok (truncate_msg L resp)"
    using dec dect ok by (simp_all add: unpack_checked_ok_iff)
  ultimately show ?thesis using ok(1,3,6) by (auto simp: udp_exchange_def lo_net_def)
qed

section \<open>DoQ\<close>

definition doq_reply :: "bytes dfut \<Rightarrow> bytes" where
  "doq_reply f = (case f of Ready _ (Ok b) \<Rightarrow> b | _ \<Rightarrow> [])"

lemma doq_loopback:
  assumes ex: "exchanged L good (req\<lparr>msg_id := 0\<rparr>) b (resp\<lparr>msg_id := 0\<rparr>) rb"
    and handle: "fut_value (handle (req\<lparr>msg_id := 0\<rparr>)) = Some (Ok resp)"
    and host: "parse_ip_addr (up_host self) = Some ip"
  shows "doq_exchange L (lo_net (\<lambda>s. doq_reply (doq_handle_stream L early handle s)) dgram) self None req =
    now (Ok (resp\<lparr>msg_id := msg_id req\<rparr>), Some (Lo [] 0))"
proof -
  let ?stream = "\<lambda>s. doq_reply (doq_handle_stream L early handle s)"
  note dec = exchanged_decode [OF ex]
  have ok: "to_bytes L (req\<lparr>msg_id := 0\<rparr>) = Inr b" "length b \<le> 65535"
      "to_bytes L (resp\<lparr>msg_id := 0\<rparr>) = Inr rb" "length rb \<le> 65535" "same_question L req resp"
    using ex by (auto simp: exchanged_def)
  obtain t where t: "handle (req\<lparr>msg_id := 0\<rparr>) = Ready t (Ok resp)"
    using handle by (auto simp: fut_value_eq_Some)
  have out: "?stream (u16_to_be_bytes (of_nat (length b)) @ b) = u16_to_be_bytes (of_nat (length rb)) @ rb"
    using u16_be_length [OF ok(2)] ok dec(1) t
    by (simp add: doq_handle_stream_def doq_reply_def u16_to_be_bytes_def Let_def)
  have "decode_response L rb req (msg_id req) = Ok (resp\<lparr>msg_id := msg_id req\<rparr>)"
    using dec(2) ok(5) by (simp add: decode_response_ok_iff)
  then have "doq_exchange_on L (lo_net ?stream dgram) self (Lo [] 0) req = now (Ok (resp\<lparr>msg_id := msg_id req\<rparr>))"
    using ok(1,2) out u16_be_length [OF ok(4)] ok(4)
    by (simp add: doq_exchange_on_def pack_framed_def write_framed_def lo_net_def u16_to_be_bytes_def Let_def)
  moreover have "doq_dial (lo_net ?stream dgram) self = now (Ok (Lo [] 0))"
    using host by (simp add: doq_dial_def resolve_addrs_def first_addr_def dial_quic_def lo_net_def)
  ultimately show ?thesis
    by (simp add: doq_exchange_def doq_get_conn_def match_retry_def)
qed

section \<open>DoH\<close>

text \<open>The listener's answer to the GET request of the client.\<close>

definition authorized_for :: "doh_upstream \<Rightarrow> (bytes \<Rightarrow> string) \<Rightarrow> (string \<times> string) list \<Rightarrow> bool" where
  "authorized_for self enc pairs \<longleftrightarrow>
     pairs = [] \<or> (\<exists>up \<in> set pairs. doh_auth_header self = Some (basic_header enc up))"

lemma http_in_of_get:
  assumes "CHR ''?'' \<notin> set pre"
  shows "http_in_of \<lparr>rq_uri = pre @ ''?dns='' @ s, rq_headers = doh_headers auth\<rparr> =
    \<lparr>in_method = GET, in_query = Some (''dns='' @ s), in_authorization = auth, in_body = now (Ok []),
     in_chunks = [], in_chunk_error = None\<rparr>"
  using split_once_single [OF assms, of "''dns='' @ s"]
  by (cases auth) (simp_all add: http_in_of_def doh_headers_def)

lemma not_refused:
  assumes "authorized_for self enc pairs" "in_authorization r = doh_auth_header self"
  shows "\<not> refused (credentials_new enc pairs) r"
  using assms by (auto simp: refused_unless_authorized authorized_for_def)

lemma doh_listener_answers:
  assumes b64: "base64_engine B" and req: "from_bytes L b = Inr req0" and handle: "handle req0 = Ready t (Ok resp)"
    and resp: "to_bytes L resp = Inr rb" and auth: "authorized_for self enc pairs"
    and "in_method r = GET" "in_query r = Some (''dns='' @ b64_encode B b)" "in_authorization r = doh_auth_header self"
  shows "handle_request L B handle (credentials_new enc pairs) r = Ready t (Ok (dns_response 200 rb))"
    "h3_handle_request L B handle (credentials_new enc pairs) r = Ready t (Ok (dns_response 200 rb))"
proof -
  have "CHR ''&'' \<notin> set (b64_encode B b)"
    using base64_engine.encoded_is_query_safe [OF b64, of "CHR ''&''" b] by auto
  then have "find_dns_param (''dns='' @ b64_encode B b) = Some (b64_encode B b)"
    by (rule find_dns_param_single)
  moreover have "decode_request L B (Some (b64_encode B b)) body = Ok req0" for body
    using req base64_engine.b64_roundtrip [OF b64, of b] by (simp add: decode_request_def)
  ultimately show "handle_request L B handle (credentials_new enc pairs) r = Ready t (Ok (dns_response 200 rb))"
    "h3_handle_request L B handle (credentials_new enc pairs) r = Ready t (Ok (dns_response 200 rb))"
    using assms(6-8) handle resp not_refused [OF auth assms(8)]
    by (simp_all add: handle_request_def handle_request_inner_def h3_handle_request_def encode_response_def Let_def)
qed

lemma question_mark_not_in_show_dec: "CHR ''?'' \<notin> set (show_dec n)"
  by (rule not_digit_not_in_show_dec) (simp add: to_digit_def)

text \<open>
  The client over HTTP/1.1 or HTTP/2: the listener's answer with the request's own id, after the
  time the handler took, when the timeout allows for it.
\<close>

definition in_time :: "duration option \<Rightarrow> duration \<Rightarrow> bool" where
  "in_time tmo t \<longleftrightarrow> (case tmo of Some d \<Rightarrow> t \<le> d | None \<Rightarrow> True)"

lemma or_timeout_in_time: "in_time d t \<Longrightarrow> or_timeout d (Ready t r) = Ready t r"
  by (cases d) (simp_all add: in_time_def or_timeout_def)

lemma doh_loopback:
  assumes b64: "base64_engine B"
    and ex: "exchanged L good (req\<lparr>msg_id := 0\<rparr>) b resp rb" and "msg_id resp = 0"
    and handle: "handle (req\<lparr>msg_id := 0\<rparr>) = Ready t (Ok resp)"
    and self: "parse_ip_addr (doh_host self) = Some ip" "doh_http_versions self = [Http11, Http2]"
      "CHR ''?'' \<notin> set (doh_host self)" "CHR ''?'' \<notin> set (doh_path self)" "in_time (doh_timeout self) t"
      "authorized_for self enc pairs"
  shows "map_fut fst (doh_exchange L B (lo_net stream dgram)
      (lo_http (handle_request L B handle (credentials_new enc pairs))) fuel qf self doh_init req) =
    Ready t (Ok (resp\<lparr>msg_id := msg_id req\<rparr>))"
proof -
  let ?N = "lo_net stream dgram" and ?H = "lo_http (handle_request L B handle (credentials_new enc pairs))"
  note dec = exchanged_decode [OF ex]
  have ok: "to_bytes L (req\<lparr>msg_id := 0\<rparr>) = Inr b" "to_bytes L resp = Inr rb" "length rb \<le> 65535"
      "same_question L req resp"
    using ex by (auto simp: exchanged_def)
  let ?pre = "''https://'' @ doh_host self @ '':'' @ show_dec (unat (doh_port self)) @ doh_path self"
  let ?r = "\<lparr>rq_uri = ?pre @ ''?dns='' @ b64_encode B b, rq_headers = doh_headers (doh_auth_header self)\<rparr>"
  have pre: "CHR ''?'' \<notin> set ?pre" using self(3,4) question_mark_not_in_show_dec by simp
  have serve: "handle_request L B handle (credentials_new enc pairs) (http_in_of ?r) = Ready t (Ok (dns_response 200 rb))"
    by (rule doh_listener_answers [OF b64 dec(1), where handle = handle, OF handle ok(2) self(6)]) (simp_all only: http_in_of_get [OF pre] http_in.simps)
  have decode: "decode_response L rb req (msg_id req) = Ok (resp\<lparr>msg_id := msg_id req\<rparr>)"
    using dec(2) ok(4) assms(3) by (simp add: decode_response_ok_iff)
  have create: "\<exists>c. create_client ?N self = now (Ok c) \<and> https_connect ?N c = now (Ok (Lo [] 0))"
    using self(1,2)
    by (simp add: create_client_def resolve_dial_context_def resolve_addrs_def https_connect_def
        new_dial_context_def dial_one_def tls_handshake_def lo_net_def)
  then obtain c where c: "create_client ?N self = now (Ok c)" "https_connect ?N c = now (Ok (Lo [] 0))" by blast
  have "exchange_https L B ?N ?H self c req = Ready t (Ok (resp\<lparr>msg_id := msg_id req\<rparr>))"
    using serve ok(1,3) c(2) decode self(5)
    by (simp add: exchange_https_def encode_request_def doh_request_def lo_http_def or_timeout_in_time
        is_success_def dns_response_def Let_def)
  moreover have "should_use_http3 ?N qf self doh_init = now (Ok False, doh_init)"
    using self(2) by (simp add: should_use_http3_def known_preference_def)
  ultimately show ?thesis using c(1)
    by (cases "doh_timeout self") (simp_all add: doh_exchange_def get_client_def timely_client_def doh_init_def match_retry_def)
qed

text \<open>The client over HTTP/3; the body is read in at most two rounds.\<close>

lemma doh3_loopback:
  assumes b64: "base64_engine B"
    and ex: "exchanged L good (req\<lparr>msg_id := 0\<rparr>) b resp rb" and "msg_id resp = 0"
    and handle: "handle (req\<lparr>msg_id := 0\<rparr>) = Ready t (Ok resp)"
    and self: "parse_ip_addr (doh_host self) = Some ip" "doh_http_versions self = [Http3]"
      "CHR ''?'' \<notin> set (doh_host self)" "CHR ''?'' \<notin> set (doh_path self)" "in_time (doh_timeout self) t"
      "authorized_for self enc pairs"
  shows "map_fut fst (doh_exchange L B (lo_net stream dgram)
      (lo_http (h3_handle_request L B handle (credentials_new enc pairs))) (Suc (Suc n)) qf self doh_init req) =
    Ready t (Ok (resp\<lparr>msg_id := msg_id req\<rparr>))"
proof -
  let ?N = "lo_net stream dgram" and ?H = "lo_http (h3_handle_request L B handle (credentials_new enc pairs))"
  note dec = exchanged_decode [OF ex]
  have ok: "to_bytes L (req\<lparr>msg_id := 0\<rparr>) = Inr b" "to_bytes L resp = Inr rb" "length rb \<le> 65535"
      "same_question L req resp"
    using ex by (auto simp: exchanged_def)
  let ?pre = "''https://'' @ doh_host self @ doh_path self"
  let ?r = "\<lparr>rq_uri = ?pre @ ''?dns='' @ b64_encode B b, rq_headers = doh_headers (doh_auth_header self)\<rparr>"
  have pre: "CHR ''?'' \<notin> set ?pre" using self(3,4) by simp
  have serve: "h3_handle_request L B handle (credentials_new enc pairs) (http_in_of ?r) = Ready t (Ok (dns_response 200 rb))"
    by (rule doh_listener_answers [OF b64 dec(1), where handle = handle, OF handle ok(2) self(6)])
      (simp_all only: http_in_of_get [OF pre] http_in.simps)
  have decode: "decode_response L rb req (msg_id req) = Ok (resp\<lparr>msg_id := msg_id req\<rparr>)"
    using dec(2) ok(4) assms(3) by (simp add: decode_response_ok_iff)
  have body: "h3_body ?H (Suc (Suc n)) (LoHttp (dns_response 200 rb)) [] = now (Ok rb)"
    using ok(3) by (cases rb) (simp_all add: lo_http_def dns_response_def)
  have h3: "map_fut fst (h3_exchange L B ?N ?H (Suc (Suc n))
      \<lparr>server_addr = a, server_name = doh_host self, h3_tls_config = c, h3_timeout = doh_timeout self,
       h3_path = doh_path self, h3_auth = doh_auth_header self\<rparr> None req) =
      Ready t (Ok (resp\<lparr>msg_id := msg_id req\<rparr>))" for a c
    using serve ok(1) decode self(5) body
    by (simp add: h3_exchange_def h3_send_def h3_get_sender_def h3_connect_def dial_quic_def encode_request_def
        doh_request_def lo_net_def Let_def del: h3_body.simps)
      (simp add: lo_http_def or_timeout_in_time is_success_def dns_response_def Let_def del: h3_body.simps)
  have "map_fut fst f = Ready t r \<Longrightarrow> \<exists>i. f = Ready t (r, i)" for f :: "(message dres \<times> lo option) fut" and r
    by (cases f) auto
  note h3 [THEN this, of "socket_addr_new ip (doh_port self)"
      "build_tls_config (doh_host self) (doh_insecure self) [''h3'']"]
  then show ?thesis using self(1,2)
    by (auto simp: doh_exchange_def should_use_http3_def known_preference_def http2_supported_def exchange_h3_def Let_def
        get_h3_transport_def resolve_first_def resolve_addrs_def first_addr_def doh_init_def on_transport_def new_transport_def
        add_transport_def h3_new_def
        match_retry_def)
qed

end
