(* ===== verification/Loopback_Dnscrypt.thy ===== *)
theory Loopback_Dnscrypt
  imports Loopback
begin

unbundle bit_operations_syntax

text \<open>
  The DNSCrypt client against the DNSCrypt listener: fetching the provider's certificate, the
  encrypted exchange over UDP, and the second exchange over TCP when the response is too large for
  a datagram.
\<close>

section \<open>The messages of the certificate query\<close>

definition txt_query :: "dnslib \<Rightarrow> u16 \<Rightarrow> name \<Rightarrow> message" where
  "txt_query L rid nm = (message_new L rid Query)\<lparr>recursion_desired := True, queries := [query_new L nm RT_TXT]\<rparr>"

definition txt_answer :: "dnslib \<Rightarrow> dnscrypt_server \<Rightarrow> u16 \<Rightarrow> name \<Rightarrow> message" where
  "txt_answer L config rid nm = (message_new L rid Response)\<lparr>queries := [query_new L nm RT_TXT],
     answers := [record_from_rdata L nm 60 (RD_TXT [srv_cert_bytes config])]\<rparr>"

definition dc_net ::
  "dnslib \<Rightarrow> crypto \<Rightarrow> (nat \<Rightarrow> bytes) \<Rightarrow> bytes \<Rightarrow> bytes \<Rightarrow> dnscrypt_server \<Rightarrow> handler \<Rightarrow> lo net" where
  "dc_net L C rns rn rn' config handle =
     lo_net (\<lambda>s. fst (dc_connection L C rns 0 config (\<lambda>_. handle) Unlimited s))
       (\<lambda>p. udp_reply (dc_handle_udp_packet L C rn rn' config handle p))"

lemma dc_udp_reply:
  assumes "dc_handle_udp_packet L C rn rn' config handle p = Ready t (Ok out)" "length out \<le> 65535"
  shows "dc_udp (dc_net L C rns rn rn' config handle) addr p = now (Ok out)"
  using assms by (simp add: dc_udp_def dc_net_def lo_net_def udp_reply_def)

lemma try_answer_txt_query:
  assumes "dns_builder L" "dns_names L" "name_from_ascii L (srv_provider_name config) = Inr nm"
    and "from_bytes L p = Inr (txt_query L rid nm)"
  shows "try_answer_provider_txt L config p = Some (txt_answer L config rid nm)"
  using assms dns_names.root_refl [OF assms(2), of nm]
  by (simp add: try_answer_provider_txt_def txt_query_def txt_answer_def dns_builder.new_type
      dns_builder.new_id dns_builder.new_empty dns_builder.query_type dns_builder.query_name)

lemma fetch_loopback:
  assumes L: "dns_builder L" "dns_names L" and nm: "name_from_ascii L (srv_provider_name config) = Inr nm"
    and st: "st_provider_name (dc_stamp self) = srv_provider_name config"
    and ex: "exchanged L good (txt_query L rid nm) b (txt_answer L config rid nm) rb" and fits: "length rb \<le> 512"
  shows "fetch_provider_txt L (dc_net L C rns rn rn' config handle) self rid = now (Ok [srv_cert_bytes config])"
proof -
  note dec = exchanged_decode [OF ex]
  have ok: "to_bytes L (txt_query L rid nm) = Inr b" "to_bytes L (txt_answer L config rid nm) = Inr rb"
    using ex by (auto simp: exchanged_def)
  have q: "(message_new L rid Query)\<lparr>recursion_desired := True,
      queries := queries (message_new L rid Query) @ [query_new L nm RT_TXT]\<rparr> = txt_query L rid nm"
    using L(1) by (simp add: txt_query_def dns_builder.new_empty)
  have "dc_handle_udp_packet L C rn rn' config handle b = now (Ok rb)"
    using try_answer_txt_query [OF L nm dec(1)] ok(2) fits
    by (simp add: dc_handle_udp_packet_def respond_def dc_fit_udp_def fit_udp_def)
  then have "dc_udp (dc_net L C rns rn rn' config handle) addr b = now (Ok rb)" for addr
    by (rule dc_udp_reply) (use fits in simp)
  moreover have "txt_strings (txt_answer L config rid nm) = [srv_cert_bytes config]"
    using L(1) by (simp add: txt_strings_def txt_answer_def dns_builder.record_data)
  ultimately show ?thesis using nm st ok(1) dec(2) q by (simp add: fetch_provider_txt_def)
qed

section \<open>The certificate\<close>

text \<open>The certificate a server made with these keys and dates shows to its clients.\<close>

definition server_cert :: "crypto \<Rightarrow> bytes \<Rightarrow> bytes \<Rightarrow> u32 \<Rightarrow> u32 \<Rightarrow> u32 \<Rightarrow> certificate" where
  "server_cert C rsk magic ser ts te =
     \<lparr>resolver_public_key = public_key_of C rsk, client_magic = magic, serial = ser, ts_start = ts, ts_end = te\<rparr>"

lemma refresh_loopback:
  assumes laws: "crypto_laws C" and len: "length rsk = 32" "length sgk = 32" "length magic = 8"
    and config: "config = dnscrypt_server_new C rsk sgk pname magic ser ts te"
    and stamp: "provider_public_key (dc_stamp self) = verifying_key_of C sgk"
    and valid: "is_valid_at (server_cert C rsk magic ser ts te) (su_now_refresh su)"
    and fetch: "fetch_provider_txt L N self (su_rid su) = now (Ok [srv_cert_bytes config])"
  shows "refresh_cert L C N self su st =
    now (Ok (server_cert C rsk magic ser ts te), Some (server_cert C rsk magic ser ts te))"
proof -
  have "parse_one_certificate C (srv_cert_bytes config) (verifying_key_of C sgk) =
      Some (server_cert C rsk magic ser ts te)"
    using crypto_laws.parse_signed_certificate [OF laws len(2) crypto_laws.public_key_length [OF laws len(1)] len(3),
        of ser ts te "[]"]
    by (simp add: config dnscrypt_server_new_def server_cert_def)
  then have "parse_certificates C [srv_cert_bytes config] (verifying_key_of C sgk) =
      Ok [server_cert C rsk magic ser ts te]"
    using crypto_laws.verifying_key_parses [OF laws len(2)] by (simp add: parse_certificates_def)
  then show ?thesis using fetch stamp valid by (simp add: refresh_cert_def choose_cert_def)
qed

section \<open>The encrypted exchange\<close>

text \<open>
  What both ends agree on: the keys and nonces have their lengths, the certificate carries the
  server's public key and magic, and the encrypted query does not read as a query for the
  provider's certificate.
\<close>

definition dc_agreed ::
  "dnslib \<Rightarrow> crypto \<Rightarrow> dnscrypt_server \<Rightarrow> certificate \<Rightarrow> bytes \<Rightarrow> bytes \<Rightarrow> bytes \<Rightarrow> bool" where
  "dc_agreed L C config cert csk n b \<longleftrightarrow>
     crypto_laws C \<and> length (srv_secret_key config) = 32 \<and> length (srv_client_magic config) = 8 \<and>
     length csk = 32 \<and> length n = 12 \<and>
     resolver_public_key cert = public_key_of C (srv_secret_key config) \<and>
     client_magic cert = srv_client_magic config \<and>
     (\<forall>framed. encrypt_query C n cert (client_generate C csk) b = Ok (framed, n) \<longrightarrow>
        try_answer_provider_txt L config framed = None)"

lemma pad_bound: "length m \<le> 60000 \<Longrightarrow> length (pad m) \<le> 60064"
  using pad_length(3) [of m] by linarith

lemma dc_query_framed:
  assumes "dc_agreed L C config cert csk n b" "length b \<le> 60000"
  obtains framed where "encrypt_query C n cert (client_generate C csk) b = Ok (framed, n)"
    "decrypt_query C (srv_secret_key config) (srv_client_magic config) framed = Ok (b, public_key_of C csk, n)"
    "try_answer_provider_txt L config framed = None" "length framed \<le> 65535"
proof -
  have laws: "crypto_laws C" and len: "length (srv_secret_key config) = 32" "length csk = 32" "length n = 12"
      "length (srv_client_magic config) = 8"
    and cert: "resolver_public_key cert = public_key_of C (srv_secret_key config)"
      "client_magic cert = srv_client_magic config"
    using assms(1) by (auto simp: dc_agreed_def)
  obtain framed where f: "encrypt_query C n cert (client_generate C csk) b = Ok (framed, n)"
      "decrypt_query C (srv_secret_key config) (srv_client_magic config) framed = Ok (b, public_key_of C csk, n)"
    using crypto_laws.decrypt_encrypt_query [OF laws len cert] by blast
  obtain c where c: "framed = client_magic cert @ public_key_of C csk @ n @ c" "length c = length (pad b) + 16"
    using f(1) crypto_laws.box_length [OF laws]
    by (auto simp: encrypt_query_def client_generate_def Let_def res_simps)
  have "length framed \<le> 65535"
    using c pad_bound [OF assms(2)] len crypto_laws.public_key_length [OF laws len(2)] cert(2) by simp
  then show thesis using that f assms(1) by (auto simp: dc_agreed_def)
qed

lemma dc_response_framed:
  assumes "dc_agreed L C config cert csk n b" "length rn = 12" "length m \<le> 60000"
  obtains out where "encrypt_server_response C rn (srv_secret_key config) (public_key_of C csk) n m = Ok out"
    "decrypt_response C cert (client_generate C csk) n out = Ok m" "length out \<le> 65535"
proof -
  have laws: "crypto_laws C" and len: "length (srv_secret_key config) = 32" "length csk = 32" "length n = 12"
    and cert: "resolver_public_key cert = public_key_of C (srv_secret_key config)"
    using assms(1) by (auto simp: dc_agreed_def)
  obtain out where o: "encrypt_server_response C rn (srv_secret_key config) (public_key_of C csk) n m = Ok out"
      "decrypt_response C cert (client_generate C csk) n out = Ok m"
    using crypto_laws.decrypt_encrypt_response [OF laws len assms(2) cert] by blast
  obtain c where "out = RESOLVER_MAGIC @ n @ rn @ c" "length c = length (pad m) + 16"
    using o(1) crypto_laws.box_length [OF laws]
    by (auto simp: encrypt_server_response_def Let_def res_simps)
  then have "length out \<le> 65535"
    using pad_bound [OF assms(3)] len(3) assms(2) by (simp add: RESOLVER_MAGIC_def)
  then show thesis using that o by blast
qed

lemma respond_framed:
  assumes "try_answer_provider_txt L config framed = None"
    and "decrypt_query C (srv_secret_key config) (srv_client_magic config) framed = Ok (b, pk, n)"
    and "from_bytes L b = Inr req" "handle req = Ready t (Ok resp)" "to_bytes L resp = Inr rb"
  shows "respond L C config handle framed = Ready t (Ok (EncryptedResp pk n rb))"
  using assms by (simp add: respond_def)

lemma dc_tcp_reply:
  assumes "dc_tcp_answer L C (rns 0) config handle framed = Ready t (Ok out)"
    and "length framed \<le> 65535" "length out \<le> 65535"
  shows "dc_tcp (dc_net L C rns rn rn' config handle) addr framed = now (Ok out)"
proof -
  have "fst (dc_connection L C rns 0 config (\<lambda>_. handle) Unlimited (frame framed)) = frame out"
    using assms dc_conn.answers_in_order
      [OF carries_one [OF assms(2)], where L = L and C = C and rn = rns and config = config and handle = "\<lambda>_. handle"
        and room = Unlimited and k = 0]
    by (simp add: stream_output_def dc_answer_message_def)
  then show ?thesis
    using assms(2) u16_be_length [OF assms(3)]
    by (simp add: frame_def dc_tcp_def dc_net_def lo_net_def write_framed_def read_framed_def u16_to_be_bytes_def Let_def)
qed

lemma exchange_with_cert_loopback:
  assumes ag: "dc_agreed L C config cert (su_secret su) (su_nonce su) b"
    and ex: "exchanged L good req b resp rb" and tr: "exchanged L good req b (truncate_msg L resp) tb"
    and tc: "truncation (truncate_msg L resp)"
    and size: "length b \<le> 60000" "length rb \<le> 60000" "length tb \<le> 60000"
    and nonces: "length rn = 12" "length rn' = 12" "length (rns 0) = 12"
    and handle: "fut_value (handle req) = Some (Ok resp)"
  shows "exchange_with_cert L C (dc_net L C rns rn rn' config handle) self su cert req = now (Ok resp)"
proof -
  let ?N = "dc_net L C rns rn rn' config handle" and ?ck = "client_generate C (su_secret su)"
  note dec = exchanged_decode [OF ex] exchanged_decode(2) [OF tr]
  have ok: "to_bytes L req = Inr b" "to_bytes L resp = Inr rb" "to_bytes L (truncate_msg L resp) = Inr tb"
      "same_question L req resp"
    using ex tr by (auto simp: exchanged_def)
  obtain t where t: "handle req = Ready t (Ok resp)" using handle by (auto simp: fut_value_eq_Some)
  obtain framed where f: "encrypt_query C (su_nonce su) cert ?ck b = Ok (framed, su_nonce su)"
      "decrypt_query C (srv_secret_key config) (srv_client_magic config) framed =
        Ok (b, public_key_of C (su_secret su), su_nonce su)"
      "try_answer_provider_txt L config framed = None" "length framed \<le> 65535"
    using dc_query_framed [OF ag size(1)] by blast
  note respond = respond_framed [where handle = handle, OF f(3,2) dec(1) t ok(2)]
  obtain o1 where o1: "encrypt_server_response C rn (srv_secret_key config) (public_key_of C (su_secret su)) (su_nonce su) rb = Ok o1"
      "decrypt_response C cert ?ck (su_nonce su) o1 = Ok rb" "length o1 \<le> 65535"
    using dc_response_framed [OF ag nonces(1) size(2)] by blast
  obtain o2 where o2: "encrypt_server_response C rn' (srv_secret_key config) (public_key_of C (su_secret su)) (su_nonce su) tb = Ok o2"
      "decrypt_response C cert ?ck (su_nonce su) o2 = Ok tb" "length o2 \<le> 65535"
    using dc_response_framed [OF ag nonces(2) size(3)] by blast
  obtain o3 where o3: "encrypt_server_response C (rns 0) (srv_secret_key config) (public_key_of C (su_secret su)) (su_nonce su) rb = Ok o3"
      "decrypt_response C cert ?ck (su_nonce su) o3 = Ok rb" "length o3 \<le> 65535"
    using dc_response_framed [OF ag nonces(3) size(2)] by blast
  have "dc_handle_udp_packet L C rn rn' config handle framed = Ready t (Ok (if 512 < length o1 then o2 else o1))"
    using respond o1(1) o2(1) dec(2) ok(3) by (simp add: dc_handle_udp_packet_def dc_fit_udp_def)
  from dc_udp_reply [OF this, where rns = rns] have udp:
    "dc_udp ?N addr framed = now (Ok (if 512 < length o1 then o2 else o1))" for addr
    using o1(3) o2(3) by simp
  have "dc_tcp_answer L C (rns 0) config handle framed = Ready t (Ok o3)"
    using respond o3(1) by (simp add: dc_tcp_answer_def)
  then have tcp: "dc_tcp ?N addr framed = now (Ok o3)" for addr
    by (rule dc_tcp_reply) (fact f(4) o3(3))+
  have val: "validate_response L req resp = Ok ()" using ok(4) by (simp add: validate_response_ok_iff)
  show ?thesis using ok(1) f(1) udp tcp o1(2) o2(2) o3(2) dec(2,3) tc val
    by (simp add: exchange_with_cert_def dc_decrypt_def)
qed

text \<open>A client without a certificate: it fetches one, then exchanges the query.\<close>

lemma dnscrypt_loopback:
  assumes laws: "crypto_laws C" and L: "dns_builder L" "dns_names L"
    and len: "length rsk = 32" "length sgk = 32" "length magic = 8"
    and config: "config = dnscrypt_server_new C rsk sgk pname magic ser ts te"
    and stamp: "provider_public_key (dc_stamp self) = verifying_key_of C sgk" "st_provider_name (dc_stamp self) = pname"
    and valid: "is_valid_at (server_cert C rsk magic ser ts te) (su_now_refresh su)"
    and cq: "name_from_ascii L pname = Inr nm"
      "exchanged L good (txt_query L (su_rid su) nm) qb (txt_answer L config (su_rid su) nm) ab" "length ab \<le> 512"
    and ag: "dc_agreed L C config (server_cert C rsk magic ser ts te) (su_secret su) (su_nonce su) b"
    and ex: "exchanged L good req b resp rb" "exchanged L good req b (truncate_msg L resp) tb"
      "truncation (truncate_msg L resp)"
    and size: "length b \<le> 60000" "length rb \<le> 60000" "length tb \<le> 60000"
    and nonces: "length rn = 12" "length rn' = 12" "length (rns 0) = 12"
    and handle: "fut_value (handle req) = Some (Ok resp)"
  shows "dc_exchange L C (dc_net L C rns rn rn' config handle) N' self su su' None req =
    now (Ok resp, Some (server_cert C rsk magic ser ts te))"
proof -
  let ?N = "dc_net L C rns rn rn' config handle"
  have nm: "srv_provider_name config = pname" by (simp add: config dnscrypt_server_new_def)
  have "fetch_provider_txt L ?N self (su_rid su) = now (Ok [srv_cert_bytes config])"
    using cq stamp(2) nm by (intro fetch_loopback [OF L]) auto
  from refresh_loopback [OF laws len config stamp(1) valid this]
  have "current_cert L C ?N self su None =
      now (Ok (server_cert C rsk magic ser ts te), Some (server_cert C rsk magic ser ts te))"
    by (simp add: current_cert_def)
  then have "dc_attempts L C ?N N' self su su' None req = now (Ok resp, Some (server_cert C rsk magic ser ts te))"
    using exchange_with_cert_loopback [where handle = handle and rns = rns, OF ag ex size nonces handle]
    by (simp add: dc_attempts_def)
  then show ?thesis by (cases "dc_timeout self") (simp_all add: dc_exchange_def Let_def)
qed

section \<open>An instance of the laws\<close>

text \<open>
  Toy primitives with the lengths and the laws of the real ones, and none of their secrecy: they
  show that the laws can hold, and the witnesses run on them.
\<close>

definition ref_crypto :: crypto where
  "ref_crypto = \<lparr>
     public_key_of = (\<lambda>sk. sk), salsa_box = (\<lambda>pk sk. map2 (\<lambda>a b. a XOR b) pk sk),
     box_encrypt = (\<lambda>k n m. Inr (replicate 16 0 @ m)), box_decrypt = (\<lambda>k n c. Inr (drop 16 c)),
     verifying_key_of = (\<lambda>sk. sk), verifying_key_from_bytes = Inr,
     ed_sign = (\<lambda>sk m. sk @ sk), signature_from_slice = Some, ed_verify = (\<lambda>vk m s. s = vk @ vk)\<rparr>"

interpretation ref_crypto: crypto_laws ref_crypto
proof
  fix a b :: bytes
  have "map2 (\<lambda>a b. a XOR b) a b = map2 (\<lambda>a b. a XOR b) b a"
    by (rule nth_equalityI) (auto simp: xor.commute)
  then show "salsa_box ref_crypto (public_key_of ref_crypto a) b = salsa_box ref_crypto (public_key_of ref_crypto b) a"
    by (simp add: ref_crypto_def)
qed (auto simp: ref_crypto_def)

end
