(* ===== verification/Examples.thy ===== *)
theory Examples
  imports Props_Cache Loopback_Dnscrypt
begin

text \<open>
  Concrete queries, answers, upstreams and servers, and the facts about them that the witnesses of
  the properties discharge their hypotheses with.
\<close>

section \<open>A query and its reply on the wire\<close>

definition ex_bytes :: bytes where
  "ex_bytes = [0, 7, 1, 0, 0, 1, 0, 0, 0, 0, 0, 0, 3, 119, 119, 119, 4, 116, 101, 115, 116, 0, 0, 1, 0, 1]"

definition ex_reply_bytes :: bytes where
  "ex_reply_bytes = [0, 7, 129, 0, 0, 1, 0, 0, 0, 0, 0, 0, 3, 119, 119, 119, 4, 116, 101, 115, 116, 0, 0, 1, 0, 1]"

abbreviation ex_handler :: handler where
  "ex_handler \<equiv> \<lambda>req. Ready 5 (Ok (req\<lparr>message_type := Response\<rparr>))"

lemma ex_exchanged: "exchanged ref_dns ref_good ex_query ex_bytes ex_reply ex_reply_bytes"
proof -
  have "ref_good ex_query" "ref_good ex_reply"
    by (simp_all add: ref_good_def ex_query_def ex_reply_def ex_name_def good_label_def
        bytes_of_string_def)
  moreover have "to_bytes ref_dns ex_query = Inr ex_bytes" "to_bytes ref_dns ex_reply = Inr ex_reply_bytes"
    by (simp_all add: ref_dns_def ref_to_bytes_def pack_flags_def flag_def ex_query_def ex_reply_def
        ex_name_def ex_bytes_def ex_reply_bytes_def u16_to_be_bytes_def bytes_of_string_def)
  moreover have "same_question ref_dns ex_query ex_reply"
    by (simp add: same_question_def ex_query_def ex_reply_def ref_dns_def)
  ultimately show ?thesis
    using ref_dns.dns_codec_axioms by (simp add: exchanged_def ex_bytes_def ex_reply_bytes_def)
qed

lemma ex_exchanged_zero:
  "exchanged ref_dns ref_good (ex_query\<lparr>msg_id := 0\<rparr>) (0 # 0 # drop 2 ex_bytes)
     (ex_reply\<lparr>msg_id := 0\<rparr>) (0 # 0 # drop 2 ex_reply_bytes)"
proof -
  have "ref_good (ex_query\<lparr>msg_id := 0\<rparr>)" "ref_good (ex_reply\<lparr>msg_id := 0\<rparr>)"
    by (simp_all add: ref_good_def ex_query_def ex_reply_def ex_name_def good_label_def
        bytes_of_string_def)
  moreover have "to_bytes ref_dns (ex_query\<lparr>msg_id := 0\<rparr>) = Inr (0 # 0 # drop 2 ex_bytes)"
      "to_bytes ref_dns (ex_reply\<lparr>msg_id := 0\<rparr>) = Inr (0 # 0 # drop 2 ex_reply_bytes)"
    by (simp_all add: ref_dns_def ref_to_bytes_def pack_flags_def flag_def ex_query_def ex_reply_def
        ex_name_def ex_bytes_def ex_reply_bytes_def u16_to_be_bytes_def bytes_of_string_def)
  moreover have "same_question ref_dns (ex_query\<lparr>msg_id := 0\<rparr>) (ex_reply\<lparr>msg_id := 0\<rparr>)"
    by (simp add: same_question_def ex_query_def ex_reply_def ref_dns_def)
  ultimately show ?thesis
    using ref_dns.dns_codec_axioms by (simp add: exchanged_def ex_bytes_def ex_reply_bytes_def)
qed

lemma ex_host: "parse_ip_addr ''127.0.0.1'' = Some (V4 127 0 0 1)"
  by code_simp

lemma ex_exchanged_truncated:
  "\<exists>tb. exchanged ref_dns ref_good ex_query ex_bytes (truncate_msg ref_dns ex_reply) tb"
proof -
  have good: "ref_good (truncate_msg ref_dns ex_reply)"
    by (simp add: ref_good_def ex_query_def ex_reply_def ex_name_def good_label_def bytes_of_string_def ref_dns_def)
  have "\<exists>tb. to_bytes ref_dns (truncate_msg ref_dns ex_reply) = Inr tb \<and> length tb \<le> 65535"
    by (simp add: ref_dns_def ref_to_bytes_def ex_query_def ex_reply_def ex_name_def bytes_of_string_def)
  moreover have "same_question ref_dns ex_query (truncate_msg ref_dns ex_reply)"
    by (simp add: same_question_def ex_query_def ex_reply_def ref_dns_def)
  ultimately show ?thesis using ex_exchanged good by (auto simp: exchanged_def)
qed

section \<open>A DoH upstream with credentials\<close>

definition ex_doh :: doh_upstream where
  "ex_doh = doh_new (lo_net id (\<lambda>_. None)) (b64_encode ref_base64) ''127.0.0.1'' None ''/dns-query''
     (options_default\<lparr>basic_auth := Some (''user'', ''secret'')\<rparr>)"

section \<open>A DNSCrypt server and its stamp\<close>

definition ex_pname :: string where
  "ex_pname = ''2.dnscrypt-cert.test.''"

definition ex_pnm :: name where
  "ex_pnm = Name (map bytes_of_string [''2'', ''dnscrypt-cert'', ''test'']) True"

definition ex_magic :: bytes where
  "ex_magic = [0x44, 0x4E, 0x53, 0x43, 0, 0, 0, 0]"

definition ex_config :: dnscrypt_server where
  "ex_config = dnscrypt_server_new ref_crypto (replicate 32 1) (replicate 32 2) ex_pname ex_magic 1 100 200"

definition ex_lib :: dnslib where
  "ex_lib = ref_dns_with (txt_answer ref_dns ex_config 0 ex_pnm)"

definition ex_good :: "message \<Rightarrow> bool" where
  "ex_good = ref_good_with (txt_answer ref_dns ex_config 0 ex_pnm)"

definition ex_stamp :: dnscrypt_upstream where
  "ex_stamp = \<lparr>dc_stamp = \<lparr>st_addr = lo_addr, provider_public_key = replicate 32 2, st_provider_name = ex_pname\<rparr>,
     dc_addr_redacted = [], dc_timeout = Some (from_secs 10)\<rparr>"

definition ex_supply :: rand_supply where
  "ex_supply = \<lparr>su_clock = Some 150, su_clock_refresh = Some 150, su_rid = 5, su_secret = replicate 32 3, su_nonce = replicate 12 4\<rparr>"

lemma ex_lib_txt:
  "txt_query ex_lib i nm = txt_query ref_dns i nm" "txt_answer ex_lib c i nm = txt_answer ref_dns c i nm"
  by (simp_all add: ex_lib_def ref_dns_with_def txt_query_def txt_answer_def ref_dns_def)

lemma ex_lib_no_answers: "answers m = [] \<Longrightarrow> to_bytes ex_lib m = ref_to_bytes m"
  by (cases m) (auto simp: ex_lib_def ref_dns_with_def txt_answer_def ref_dns_def)

lemma ex_codec: "dns_codec ex_lib ex_good"
  unfolding ex_lib_def ex_good_def by (rule ref_dns_with.dns_codec_axioms)

lemma ex_txt_exchanged:
  "\<exists>qb. exchanged ex_lib ex_good (txt_query ex_lib 5 ex_pnm) qb (txt_answer ex_lib ex_config 5 ex_pnm) [1, 0, 5]"
proof -
  have q: "\<exists>qb. to_bytes ex_lib (txt_query ref_dns 5 ex_pnm) = Inr qb \<and> length qb \<le> 65535"
    by (simp add: ex_lib_no_answers txt_query_def ref_dns_def ref_to_bytes_def ex_pnm_def bytes_of_string_def)
  have "ref_good (txt_query ref_dns 5 ex_pnm)"
    by (simp add: ref_good_def txt_query_def ref_dns_def ex_pnm_def good_label_def bytes_of_string_def)
  then have "ex_good (txt_query ref_dns 5 ex_pnm)" "ex_good (txt_answer ref_dns ex_config 5 ex_pnm)"
    by (simp_all add: ex_good_def ref_good_with_def txt_answer_def ref_dns_def)
  moreover have "to_bytes ex_lib (txt_answer ref_dns ex_config 5 ex_pnm) = Inr [1, 0, 5]"
    by (simp add: ex_lib_def ref_dns_with_def txt_answer_def ref_dns_def u16_to_be_bytes_def)
  moreover have "same_question ex_lib (txt_query ref_dns 5 ex_pnm) (txt_answer ref_dns ex_config 5 ex_pnm)"
    by (simp add: same_question_def txt_query_def txt_answer_def ex_lib_def ref_dns_with_def ref_dns_def)
  ultimately show ?thesis
    using q ex_codec by (auto simp: exchanged_def ex_lib_txt)
qed

lemma ex_lib_exchanged:
  "exchanged ex_lib ex_good ex_query ex_bytes ex_reply ex_reply_bytes"
  "\<exists>tb. exchanged ex_lib ex_good ex_query ex_bytes (truncate_msg ex_lib ex_reply) tb \<and> length tb \<le> 60000"
proof -
  have tb: "to_bytes ex_lib m = to_bytes ref_dns m" if "answers m = []" for m
    using that by (simp add: ex_lib_no_answers ref_dns_def)
  have eq: "eq_ignore_root ex_lib = eq_ignore_root ref_dns" by (simp add: ex_lib_def ref_dns_with_def)
  have sq: "same_question ex_lib req resp = same_question ref_dns req resp" for req resp
    by (simp only: same_question_def eq)
  have lift: "exchanged ex_lib ex_good req b resp rb"
    if "exchanged ref_dns ref_good req b resp rb" "answers req = []" "answers resp = []" for req b resp rb
    using that ex_codec sq by (auto simp: exchanged_def tb ex_good_def ref_good_with_def)
  show "exchanged ex_lib ex_good ex_query ex_bytes ex_reply ex_reply_bytes"
    by (rule lift [OF ex_exchanged]) (simp_all add: ex_query_def ex_reply_def)
  obtain b where b: "exchanged ref_dns ref_good ex_query ex_bytes (truncate_msg ref_dns ex_reply) b"
    using ex_exchanged_truncated by blast
  then have "length b \<le> 60000"
    by (auto simp: exchanged_def ref_dns_def ref_to_bytes_def ex_query_def ex_reply_def ex_name_def bytes_of_string_def)
  moreover have "exchanged ex_lib ex_good ex_query ex_bytes (truncate_msg ref_dns ex_reply) b"
    by (rule lift [OF b]) (simp_all add: ex_query_def ex_reply_def ref_dns_def)
  moreover have "truncate_msg ex_lib = truncate_msg ref_dns" by (simp add: ex_lib_def ref_dns_with_def)
  ultimately show "\<exists>tb. exchanged ex_lib ex_good ex_query ex_bytes (truncate_msg ex_lib ex_reply) tb \<and> length tb \<le> 60000"
    by auto
qed



text \<open>An encrypted query starts with the client magic, whose zeros stand where a message has its
  number of questions.\<close>

lemma ex_agreed:
  "dc_agreed ex_lib ref_crypto ex_config (server_cert ref_crypto (replicate 32 1) ex_magic 1 100 200)
     (replicate 32 3) (replicate 12 4) ex_bytes"
proof -
  have "length (srv_secret_key ex_config) = 32" "length (srv_client_magic ex_config) = 8"
    "srv_secret_key ex_config = replicate 32 1" "srv_client_magic ex_config = ex_magic"
    by (simp_all add: ex_config_def dnscrypt_server_new_def ex_magic_def)
  moreover have "\<exists>e. from_bytes ex_lib (ex_magic @ r) = Inl e" if "4 \<le> length r" for r
    using that by (auto simp: ex_magic_def ex_lib_def ref_dns_with_def ref_from_bytes_def split: list.splits)
  then have "try_answer_provider_txt ex_lib ex_config (ex_magic @ r) = None" if "4 \<le> length r" for r
    using that by (fastforce simp: try_answer_provider_txt_def)
  ultimately show ?thesis
    using ref_crypto.crypto_laws_axioms
    by (auto simp: dc_agreed_def server_cert_def encrypt_query_def Let_def client_generate_def ref_crypto_def)
qed

end
