(* ===== verification/Props_Clients.thy ===== *)
theory Props_Clients
  imports Examples
begin

text \<open>
  The properties of the clients (\<open>client/wire.rs\<close>, \<open>bootstrap.rs\<close>, \<open>plain_udp.rs\<close>, \<open>plain_tcp.rs\<close>,
  \<open>dot.rs\<close>, \<open>doq.rs\<close>, \<open>doh.rs\<close>, \<open>doh3.rs\<close>, \<open>upstream.rs\<close>), for every outcome of the network: an
  operation of the network may fail, hang or return anything.
\<close>

section \<open>Validation\<close>

text \<open>C31: the check every client applies to an answer accepts it exactly when it has one question,
  of the request's type and, up to case and the trailing dot, the request's name; it panics exactly
  when the answer has one question and the request none.\<close>

theorem validate_response_decides:
  "(validate_response L req resp = Ok () \<longleftrightarrow> same_question L req resp) \<and>
   (validate_response L req resp = Panic \<longleftrightarrow> queries req = [] \<and> length (queries resp) = 1)"
  by (simp add: validate_response_ok_iff validate_response_panic_iff)

text \<open>C8: whatever the network does, an answer that any of the six kinds of upstream returns is an
  answer to the question that was asked.\<close>

theorem upstream_answers_the_question:
  assumes "fut_value (upstream_exchange W u req) = Some (Ok resp, u')"
  shows "same_question (w_dns W) req resp"
proof -
  have "fut_value (upstream_answer W u req) = Some (Ok resp)"
    using assms by (simp add: upstream_answer_def)
  then show ?thesis by (rule any_upstream.exchange_validated)
qed

definition ex_world :: "lo world" where
  "ex_world = \<lparr>w_dns = ref_dns, w_b64 = ref_base64, w_std_encode = b64_encode ref_base64,
     w_uri = (\<lambda>_. Inl ''no uri''),
     w_net = lo_net id (\<lambda>p. udp_reply (handle_udp_packet ref_dns ex_handler p)),
     w_net_retry = lo_net id (\<lambda>_. None),
     w_http = lo_http (handle_request ref_dns ref_base64 ex_handler (credentials_new (b64_encode ref_base64) [])),
     w_crypto = ref_crypto, w_fuel = 65537, w_quic_first = True, w_supply = ex_supply, w_supply_retry = ex_supply\<rparr>"

lemma ex_udp_exchange:
  "udp_exchange ref_dns (w_net ex_world) (udp_new lo_addr tmo) ex_query = now (Ok ex_reply)"
proof -
  obtain tb where "exchanged ref_dns ref_good ex_query ex_bytes (truncate_msg ref_dns ex_reply) tb"
    using ex_exchanged_truncated by blast
  from udp_loopback [OF ex_exchanged _ this, of ex_handler] show ?thesis
    by (simp add: ex_world_def ex_reply_def ex_reply_bytes_def)
qed

theorem upstream_answers_the_question_witness:
  "same_question (w_dns ex_world) ex_query ex_reply"
  by (rule upstream_answers_the_question [where u = "PlainUdp (udp_new lo_addr None)"])
    (use ex_udp_exchange in \<open>simp add: ex_world_def\<close>)

text \<open>C32: the DoH and DoQ clients, which send the id zero, give every answer the id of the request
  it answers.\<close>

theorem doh_and_doq_restore_the_id:
  "(fut_value (doh_exchange L B N H fuel qf u st req) = Some (Ok resp, st') \<longrightarrow> msg_id resp = msg_id req) \<and>
   (fut_value (doq_exchange L N v c req) = Some (Ok resp, c') \<longrightarrow> msg_id resp = msg_id req)"
  using doh_exchange_ok doq_exchange_ok doq_exchange_on_ok by metis

lemma ex_doq_exchange:
  "doq_exchange ref_dns (lo_net (\<lambda>s. doq_reply (doq_handle_stream ref_dns ''early'' ex_handler s)) (\<lambda>_. None))
      (doq_new (lo_net id (\<lambda>_. None)) ''127.0.0.1'' None options_default) None ex_query =
    now (Ok ex_reply, Some (Lo [] 0))"
proof -
  have h: "fut_value (ex_handler (ex_query\<lparr>msg_id := 0\<rparr>)) = Some (Ok (ex_reply\<lparr>msg_id := 0\<rparr>))"
    by (simp add: ex_reply_def ex_query_def)
  have host: "parse_ip_addr (up_host (doq_new (lo_net id (\<lambda>_. None)) ''127.0.0.1'' None options_default)) =
      Some (V4 127 0 0 1)"
    by (simp add: doq_new_def ex_host Let_def)
  have ex: "exchanged ref_dns ref_good (ex_query\<lparr>msg_id := 0\<rparr>) (0 # 0 # drop 2 ex_bytes)
      ((ex_reply\<lparr>msg_id := 0\<rparr>)\<lparr>msg_id := 0\<rparr>) (0 # 0 # drop 2 ex_reply_bytes)"
    using ex_exchanged_zero by simp
  show ?thesis
    using doq_loopback [where handle = ex_handler, OF ex h host] by (simp add: ex_reply_def ex_query_def)
qed

theorem doh_and_doq_restore_the_id_witness:
  "msg_id ex_reply = msg_id ex_query"
  using doh_and_doq_restore_the_id [where v = "doq_new (lo_net id (\<lambda>_. None)) ''127.0.0.1'' None options_default"
      and c = None and L = ref_dns and req = ex_query and resp = ex_reply and c' = "Some (Lo [] 0)"
      and N = "lo_net (\<lambda>s. doq_reply (doq_handle_stream ref_dns ''early'' ex_handler s)) (\<lambda>_. None)"]
    ex_doq_exchange by simp

section \<open>Timeouts\<close>


section \<open>Bootstrap resolvers\<close>

text \<open>C36: the addresses an upstream is dialled at are those found for its host, or the host itself
  when it is a literal address, each with the upstream's port; those of the preferred family come
  first, and within a family the order is the resolver's. There is at least one.\<close>

theorem resolved_addresses_by_preference:
  assumes "fut_value (resolve_addrs host port d lookup p6) = Some (Ok addrs)"
  shows "\<exists>ips. ips \<noteq> [] \<and> addrs = map (\<lambda>ip. socket_addr_new ip port)
      (if p6 then filter is_ipv6 ips @ filter is_ipv4 ips else filter is_ipv4 ips @ filter is_ipv6 ips) \<and>
    (case parse_ip_addr host of Some ip \<Rightarrow> ips = [ip] | None \<Rightarrow> fut_value (lookup host) = Some (Ok ips))"
  using resolve_addrs_ok [OF assms] by (simp add: by_family_def)

theorem resolved_addresses_by_preference_witness:
  "\<exists>ips. ips \<noteq> [] \<and> [socket_addr_new (V4 1 1 1 1) 53, socket_addr_new (V6 [1, 0, 0, 0, 0, 0, 0, 2]) 53] =
      map (\<lambda>ip. socket_addr_new ip 53)
      (if False then filter is_ipv6 ips @ filter is_ipv4 ips else filter is_ipv4 ips @ filter is_ipv6 ips) \<and>
    (case parse_ip_addr ''up.test'' of
       Some ip \<Rightarrow> ips = [ip]
     | None \<Rightarrow> fut_value (static_lookup [V6 [1, 0, 0, 0, 0, 0, 0, 2], V4 1 1 1 1] ''up.test'') = Some (Ok ips))"
proof (rule resolved_addresses_by_preference)
  have "parse_ip_addr ''up.test'' = None"
    by (rule parse_ip_addr_hostname) (simp_all add: to_digit_def)
  then show "fut_value (resolve_addrs ''up.test'' 53 None
      (static_lookup [V6 [1, 0, 0, 0, 0, 0, 0, 2], V4 1 1 1 1]) False) =
    Some (Ok [socket_addr_new (V4 1 1 1 1) 53, socket_addr_new (V6 [1, 0, 0, 0, 0, 0, 0, 2]) 53])"
    by (simp add: resolve_addrs_def static_lookup_def)
qed

text \<open>C35: dialling connects to the first address that accepts, after every address before it has
  refused, and to no other.\<close>

theorem dialling_takes_the_first_reachable:
  "fut_value (new_dial_context N d addrs network) = Some (Ok c) \<longleftrightarrow>
   (\<exists>pre a post. addrs = pre @ a # post \<and> fut_value (dial_one N a network d) = Some (Ok c) \<and>
      (\<forall>p \<in> set pre. \<exists>e. fut_value (dial_one N p network d) = Some (Err e)))"
  by (cases "addrs = []") (auto simp: new_dial_context_def dial_loop_ok_iff)

theorem dialling_takes_the_first_reachable_witness:
  "fut_value (new_dial_context (lo_net id (\<lambda>_. None)) None [lo_addr] Tcp) = Some (Ok (TcpConn (Lo [] 0)))"
  unfolding dialling_takes_the_first_reachable
  by (intro exI [of _ "[]"] exI [of _ lo_addr]) (simp add: dial_one_def lo_net_def)

text \<open>C33: as soon as one of the bootstrap resolvers finds an address, the lookup ends, no later than
  that resolver, with the addresses one of them found; it does so whatever the others do, short of
  a panic.\<close>

theorem parallel_lookup_first_answer:
  assumes "r \<in> set rs" "r host = Ready u (Ok b)" "b \<noteq> []"
    and "\<And>q. q \<in> set rs \<Longrightarrow> fut_value (q host) \<noteq> Some Panic"
  shows "\<exists>t a. parallel_lookup rs host = Ready t (Ok a) \<and> t \<le> u \<and> a \<noteq> [] \<and>
    (\<exists>q \<in> set rs. fut_value (q host) = Some (Ok a))"
proof -
  have "\<forall>f \<in> set (map (\<lambda>r. r host) rs). fut_value f \<noteq> Some Panic" using assms(4) by auto
  moreover have "Ready u (Ok b) \<in> set (map (\<lambda>r. r host) rs)"
    using assms(1) by (simp add: assms(2) [symmetric])
  ultimately obtain t a where t: "parallel_loop 0 (map (\<lambda>r. r host) rs) [] = Ready t (Ok a)" "t \<le> max 0 u"
    using parallel_loop_live [OF _ assms(3)] by blast
  moreover have "rs \<noteq> []" using assms(1) by auto
  ultimately show ?thesis
    using parallel_loop_ok [of 0 "map (\<lambda>r. r host) rs" "[]" a] by (auto simp: parallel_lookup_def)
qed

theorem parallel_lookup_first_answer_witness:
  "\<exists>t a. parallel_lookup [\<lambda>_. Never, static_lookup [V4 1 1 1 1]] ''dns.test'' = Ready t (Ok a) \<and> t \<le> 0 \<and> a \<noteq> [] \<and>
    (\<exists>q \<in> set [\<lambda>_. Never, static_lookup [V4 1 1 1 1]]. fut_value (q ''dns.test'') = Some (Ok a))"
  by (rule parallel_lookup_first_answer [where r = "static_lookup [V4 1 1 1 1]"])
    (auto simp: static_lookup_def)

text \<open>C34: when every bootstrap resolver ends without an address, the lookup fails with the errors of
  all of them.\<close>

theorem parallel_lookup_all_fail:
  assumes "rs \<noteq> []"
    and "\<And>q. q \<in> set rs \<Longrightarrow> \<exists>u r. q host = Ready u r \<and> (r = Ok [] \<or> (\<exists>e. r = Err e))"
  shows "\<exists>t es. parallel_lookup rs host = Ready t (Err (BootstrapAll es)) \<and>
    mset es = mset (fut_errors (map (\<lambda>r. r host) rs))"
  using parallel_loop_errors [of "map (\<lambda>r. r host) rs" 0 "[]"] assms by (simp add: parallel_lookup_def)

theorem parallel_lookup_all_fail_witness:
  "\<exists>t es. parallel_lookup [static_lookup [], \<lambda>_. Ready 3 (Err NoSupportedVersions)] ''dns.test'' =
      Ready t (Err (BootstrapAll es)) \<and>
    mset es = mset (fut_errors (map (\<lambda>r. r ''dns.test'') [static_lookup [], \<lambda>_. Ready 3 (Err NoSupportedVersions)]))"
  by (rule parallel_lookup_all_fail) (auto simp: static_lookup_def)

end
