(* ===== verification/Props_Main.thy ===== *)
theory Props_Main
  imports Private_Zones Running_Proxy Props_Clients
begin

text \<open>
  The properties of the program as \<open>main.rs\<close> puts it together. The witnesses start it with one
  plain upstream, on an operating system that refuses a bind exactly when it has to.
\<close>

section \<open>A program that serves\<close>

definition ex_refuse :: refusal where
  "ex_refuse socks op s =
     (case op of Bind addr \<Rightarrow> if list_ex (overlap s addr) socks then Some ''address in use'' else None | _ \<Rightarrow> None)"

definition ex_host_env :: host where
  "ex_host_env = \<lparr>os_refuse = ex_refuse,
     os_local_addr = (\<lambda>s. case sk_bound s of Some a \<Rightarrow> Inr a | None \<Rightarrow> Inl ''not bound''),
     quic_refuse = (\<lambda>_. None), endpoint_refuse = (\<lambda>_ _ _. None), endpoint_local_addr = Inr,
     fs_read = (\<lambda>_. Inl ''no such file''), fs_read_to_string = (\<lambda>_. Inl ''no such file''),
     fs_is_file = (\<lambda>_. False), fs_write = (\<lambda>_ _. None), pem_certs = (\<lambda>_. []),
     pem_private_key = (\<lambda>_. Inr None), single_cert_refuse = (\<lambda>_ _. None)\<rparr>"

definition ex_args :: args where
  "ex_args = \<lparr>arg_listen = [], arg_port = Some 53, arg_upstreams = [''127.0.0.1:53''],
     arg_upstream_file = None, arg_timeout = 10, arg_upstream_mode = ArgOrdered, arg_bootstrap = [],
     arg_insecure = False, arg_prefer_ipv6 = False, arg_http3 = False, arg_verbose = 0,
     arg_log_level = ''info'', arg_no_timestamp = False, arg_cache = False,
     arg_cache_size = 1000, arg_cache_min_ttl = 0, arg_cache_max_ttl = 0, arg_private_upstream = None,
     quic_listen = [], quic_port = None, tls_listen = [], tls_port = None, https_listen = [],
     https_port = None, listener_tls_cert = None, listener_tls_key = None, doh_auth = [''bob:secret''],
     doh_auth_file = None, dnscrypt_listen = [], dnscrypt_port = None, dnscrypt_config = None,
     dnscrypt_generate_config = None, dnscrypt_provider_name = None\<rparr>"

definition ex_env :: "(lo, ref_map) environment" where
  "ex_env = \<lparr>env_world = ex_world, env_look = (\<lambda>_. static_lookup []), env_host = ex_host_env,
     env_lru = ref_lru (key_eq ref_dns), env_std = ref_std_base64, env_unix = Some 0,
     env_rnd_sign = [], env_rnd_box = [], env_rust_log = None, env_journal = True\<rparr>"

definition ex_upstream :: "lo upstream" where
  "ex_upstream = PlainUdp (udp_new lo_addr (Some (from_secs 10)))"

definition ex_config_parsed :: "lo upstream_config" where
  "ex_config_parsed = \<lparr>store = [tracked_new ex_upstream], domain_upstreams = [],
     default_upstreams = \<lparr>upstreams = [0], cursor = 0\<rparr>, mode = Ordered\<rparr>"

lemma ex_parse_addr: "parse_socket_addr ''127.0.0.1:53'' = Some lo_addr"
  by (simp add: parse_socket_addr_def parse_with_def read_socket_addr_def read_socket_addr_v4_def
      read_ipv4_addr_def read_octet_def read_dot_octet_def read_number_def to_digit_def value_of_def
      read_port_def lo_addr_def socket_addr_new_def)

lemma ex_parse_upstream: "timeout opts = Some (from_secs 10) \<Longrightarrow> parse_any_upstream W ''127.0.0.1:53'' opts = Ok ex_upstream"
  by (simp add: parse_any_upstream_def ex_parse_addr ex_upstream_def)

lemma ex_visible: "c \<in> set ''127.0.0.1:53'' \<Longrightarrow> visible c"
  by (auto simp: visible_def)

text \<open>The program with one line for its upstream.\<close>

definition ex_args_with :: "string \<Rightarrow> args" where
  "ex_args_with line = ex_args\<lparr>arg_upstreams := [line]\<rparr>"

definition ex_config_with :: "lo upstream \<Rightarrow> lo upstream_config" where
  "ex_config_with u = ex_config_parsed\<lparr>store := [tracked_new u]\<rparr>"

definition ex_proxy_with :: "lo upstream \<Rightarrow> (lo, ref_map) proxy" where
  "ex_proxy_with u = \<lparr>px_config = ex_config_with u, px_cache = None\<rparr>"

definition one_line :: "string \<Rightarrow> lo upstream \<Rightarrow> bool" where
  "one_line line u \<longleftrightarrow> line \<noteq> [] \<and> (\<forall>c \<in> set line. visible c) \<and> \<not> starts_with ''#'' line \<and>
     strip_prefix ''[/'' line = None \<and> parse_any_upstream ex_world line (main_options ex_args None) = Ok u"

lemma ex_main_config_with:
  assumes "one_line line u"
  shows "main_config ex_world look ex_host_env (ex_args_with line) = Ok (ex_config_with u)"
proof -
  have line: "line \<noteq> []" "\<And>c. c \<in> set line \<Longrightarrow> visible c" using assms by (auto simp: one_line_def)
  have lines: "lines line = [line]"
    using split_on_no_sep [of line_feed line] line_feed_not_visible [OF line(2)] line by (auto simp: lines_def)
  have "trim line = line" by (rule trim_visible(1)) (use line in simp_all)
  then have "parse_with_mode ex_world [line] (main_options ex_args None) Ordered = Ok (ex_config_with u)"
    using assms line(1) by (simp add: one_line_def parse_with_mode_def parse_line_def split_config_line_def parse_one_def
        parse_init_def push_upstream_def group_push_def group_default_def ex_config_with_def ex_config_parsed_def Let_def)
  moreover have "main_options (ex_args_with line) None = main_options ex_args None"
    by (simp add: main_options_def ex_args_with_def)
  ultimately show ?thesis
    using lines by (simp add: main_config_def main_bootstrap_def upstream_lines_def read_optional_def text_lines_def
        ex_args_with_def ex_args_def ex_host_env_def)
qed

lemma ex_one_line: "one_line ''127.0.0.1:53'' ex_upstream"
  using ex_parse_upstream [of "main_options ex_args None" ex_world] ex_visible
  by (simp add: one_line_def starts_with_def main_options_def ex_args_def)

lemma ex_with_plain: "ex_args_with ''127.0.0.1:53'' = ex_args" "ex_config_with ex_upstream = ex_config_parsed"
  by (simp_all add: ex_args_with_def ex_args_def ex_config_with_def ex_config_parsed_def)

lemma ex_main_config: "main_config ex_world look ex_host_env ex_args = Ok ex_config_parsed"
  using ex_main_config_with [OF ex_one_line, of look] by (simp add: ex_with_plain)

lemma ex_refuse_overlaps: "refuses_overlaps_only ex_refuse"
  by (auto simp: refuses_overlaps_only_def ex_refuse_def list_ex_iff split: sock_op.splits if_splits)

definition ex_proxy :: "(lo, ref_map) proxy" where
  "ex_proxy = \<lparr>px_config = ex_config_parsed, px_cache = None\<rparr>"

definition ex_process :: process where
  "ex_process = fresh_process"

lemma ex_accepted: "args_accepted (ex_args_with line)"
  by (simp add: args_accepted_def ex_args_with_def ex_args_def)

definition ex_logged :: process where
  "ex_logged = fresh_process\<lparr>log_installed :=
     Some \<lparr>log_filter = ''info'', log_directives = muted 0, log_time = False\<rparr>\<rparr>"

definition ex_prepared :: process where
  "ex_prepared = ex_logged\<lparr>provider_installed := True\<rparr>"

lemma ex_prepare:
  "init_log None True (arg_verbose (ex_args_with line)) (arg_log_level (ex_args_with line)) nt ex_process = (Ok (), ex_logged)"
  "install_crypto_provider ex_logged = (Ok (), ex_prepared)"
  by (simp_all add: init_log_def install_crypto_provider_def ex_process_def fresh_process_def
      ex_args_with_def ex_args_def ex_logged_def ex_prepared_def Let_def)

lemma ex_main_with:
  assumes "one_line line u"
  shows "\<exists>p'. main ex_env (ex_args_with line) ex_process = (Ok (Serving (ex_proxy_with u)), p')"
proof -
  let ?a = "ex_args_with line"
  have "parse_pair ''bob:secret'' = Ok (''bob'', ''secret'')" by (simp add: parse_pair_def)
  then have creds: "main_credentials ex_world ex_host_env ?a =
      Ok (credentials_new (w_std_encode ex_world) [(''bob'', ''secret'')])"
    by (simp add: main_credentials_def ex_args_with_def ex_args_def read_optional_def text_lines_def)
  have "listen_addrs ?a = wildcards 53" by (simp add: listen_addrs_def ex_args_with_def ex_args_def)
  then obtain p' where serve: "serve_all ex_host_env (listen_addrs ?a) ex_prepared = (Ok (), p')"
    using serve_both_wildcards [of ex_host_env ex_prepared 53] ex_refuse_overlaps
    by (auto simp: wildcards_def ex_host_env_def ex_prepared_def ex_logged_def fresh_process_def)
  have rest: "main_tls_listeners ex_host_env ?a creds p = (Ok (), p)"
      "main_dnscrypt_listeners C std unix ex_host_env ?a p = (Ok (), p)"
      "main_cache K ?a = Ok None" "dnscrypt_generate_config ?a = None" for creds p C std unix and K :: "ref_map entry_lru"
    by (simp_all add: main_tls_listeners_def main_dnscrypt_listeners_def expand_listen_def ex_args_with_def ex_args_def
        start_lift_def main_cache_def)
  show ?thesis
    using ex_main_config_with [OF assms] creds serve rest
    by (simp add: main_def ex_accepted main_serve_def ex_prepare start_bind_def start_lift_def dns_step_def ex_env_def ex_proxy_with_def)
qed

lemma ex_main: "\<exists>p'. main ex_env ex_args ex_process = (Ok (Serving ex_proxy), p')"
  using ex_main_with [OF ex_one_line] by (simp add: ex_with_plain ex_proxy_with_def ex_proxy_def)

lemma ex_exchange:
  "\<exists>d cfg. config_exchange ref_dns (\<lambda>_. ex_world) id ex_config_parsed ex_query = Ready d (Ok ex_reply, cfg)"
  using ex_udp_exchange [of "Some (from_secs 10)"]
  by (simp add: config_exchange_def upstreams_for_def group_for_def group_key_def group_ordered_def Let_def
      set_group_def tracked_exchange_def ex_upstream_def tracked_new_def ex_config_parsed_def ex_world_def)

definition ex_state :: "(message \<times> lo progress) list \<Rightarrow> (lo, ref_map) running" where
  "ex_state ts = (rn_init ex_proxy 0)\<lparr>rn_tasks := ts\<rparr>"

text \<open>A request has come in and is about to be forwarded; from there it goes on by any further steps.\<close>

lemma ex_reaches:
  assumes "(proxy_step ref_dns ex_lru)\<^sup>*\<^sup>* (ex_state [(ex_query, Phase (Forwarding None))]) s"
  shows "proxy_reaches ref_dns (env_lru ex_env) ex_proxy s"
proof -
  let ?s0 = "ex_state []" and ?s1 = "ex_state [(ex_query, Phase Started)]"
  have "proxy_step ref_dns ex_lru ?s0 ?s1"
    using proxy_step.arrive [of ref_dns ex_lru ?s0 ex_query] by (simp add: ex_state_def rn_init_def)
  moreover have "proxy_step ref_dns ex_lru ?s1 (ex_state [(ex_query, Phase (Forwarding None))])"
    using proxy_step.work [OF work_step.look [of ?s1 0 ex_query ex_lru "Forwarding None" None ref_dns]]
    by (simp add: proxy_look_def ex_proxy_def ex_state_def rn_init_def has_task_def set_task_def)
  ultimately have "(proxy_step ref_dns ex_lru)\<^sup>*\<^sup>* ?s0 s"
    using assms by (meson converse_rtranclp_into_rtranclp)
  then show ?thesis
    by (auto simp: proxy_reaches_def ex_env_def ex_state_def rn_init_def intro: exI [of _ 0])
qed

section \<open>Properties\<close>

text \<open>Once the program serves, every answer of its handler, with the cache or without, in every
  interleaving of requests and whatever the network does, is an answer to the question asked.\<close>

lemma proxy_answers_the_question:
  assumes "main E a p = (Ok (Serving px), p')"
    and "dns_cache L (env_lru E) recent cap"
    and "proxy_reaches L (env_lru E) px s"
    and "(req, Phase (Finished (Ok resp))) \<in> set (rn_tasks s)"
  shows "same_question L req resp"
proof -
  obtain opts where "px_cache px = map_option (cache_new (env_lru E)) opts"
    using main_started [OF assms(1)] main_cache_options by blast
  then have "proxy_inv L (env_lru E) opts s" by (rule proxy_inv_reaches [OF assms(3)])
  then show ?thesis by (rule dns_cache.proxy_same_question [OF assms(2) _ assms(4)])
qed

text \<open>The handler alone, with the example's request.\<close>

lemma ex_handler_run:
  "\<exists>r. (handler_step ref_dns ex_lru)\<^sup>*\<^sup>* (ex_state [(ex_query, Phase Started)]) r \<and>
    rn_tasks r = [(ex_query, Phase (Finished (Ok ex_reply)))]"
proof -
  let ?s = "ex_state [(ex_query, Phase (Forwarding None))]"
  obtain p' where main: "main ex_env ex_args ex_process = (Ok (Serving ex_proxy), p')" using ex_main by blast
  obtain d cfg where "config_exchange ref_dns (\<lambda>_. ex_world) id ex_config_parsed ex_query = Ready d (Ok ex_reply, cfg)"
    using ex_exchange by blast
  moreover have "config_ok ex_config_parsed" using main_config_ok [OF main] by (simp add: ex_proxy_def)
  ultimately have "(handler_step ref_dns ex_lru)\<^sup>*\<^sup>* ?s (finished_after 0 d cfg ex_query None (Ok ex_reply) ?s)"
    by (intro exchange_run [where W = "\<lambda>_. ex_world" and shuf = id])
      (simp_all add: ex_state_def rn_init_def ex_proxy_def has_task_def ex_world_def)
  moreover have "handler_step ref_dns ex_lru (ex_state [(ex_query, Phase Started)]) ?s"
    using handler_work [OF work_step.look [of "ex_state [(ex_query, Phase Started)]" 0 ex_query ex_lru "Forwarding None" None ref_dns]]
    by (simp add: proxy_look_def ex_proxy_def ex_state_def rn_init_def has_task_def set_task_def)
  ultimately show ?thesis
    by (intro exI [of _ "finished_after 0 d cfg ex_query None (Ok ex_reply) ?s"])
      (auto simp: finished_after_def ex_state_def rn_init_def ex_proxy_def proxy_take_def
        intro: converse_rtranclp_into_rtranclp)
qed

text \<open>C20: while the program serves, in every interleaving of requests, its configuration stays well
  formed, and a request that is being forwarded tries only upstreams of the rule that the configuration
  had for its name at the start, none more often than the rule names it; all of them exist.\<close>

theorem requests_stay_with_their_rule:
  assumes "main E a p = (Ok (Serving px), p')" "proxy_reaches L (env_lru E) px s"
  shows "config_ok (px_config (rn_proxy s)) \<and>
    (\<forall>req x. (req, x) \<in> set (rn_tasks s) \<longrightarrow>
      tries_only (mset (upstreams (group_for (px_config px) (query_name L req)))) x) \<and>
    (\<forall>req. \<forall>j \<in> set (upstreams (group_for (px_config px) (query_name L req))).
      j < length (store (px_config (rn_proxy s))))"
proof -
  have "config_ok (px_config px)" by (rule main_config_ok [OF assms(1)])
  then have inv: "rules_inv L (px_config px) s" by (rule rules_inv_reaches [OF assms(2)])
  have "tries_only (mset (upstreams (group_for (px_config px) (query_name L req)))) x"
    if "(req, x) \<in> set (rn_tasks s)" for req x
    using inv that by (fastforce simp: rules_inv_def rule_upstreams_def)
  then show ?thesis using inv rules_inv_in_store [OF inv] by (auto simp: rules_inv_def rule_upstreams_def)
qed

text \<open>One request to the started program, whose upstreams have been picked and not yet tried.\<close>

theorem requests_stay_with_their_rule_witness:
  "\<exists>s. proxy_reaches ref_dns (env_lru ex_env) ex_proxy s \<and> rn_tasks s = [(ex_query, Trying None [0] None)] \<and>
    config_ok (px_config (rn_proxy s)) \<and> 0 < length (store (px_config (rn_proxy s)))"
proof -
  let ?s = "ex_state [(ex_query, Phase (Forwarding None))]" and ?s' = "ex_state [(ex_query, Trying None [0] None)]"
  have "proxy_step ref_dns ex_lru ?s ?s'"
    using proxy_step.work [OF work_step.order [of ?s 0 ex_query None id ref_dns "[0]" ex_config_parsed ex_lru]]
    by (simp add: ex_state_def rn_init_def ex_proxy_def has_task_def set_task_def upstreams_for_def group_for_def
        group_key_def group_ordered_def set_group_def ex_config_parsed_def Let_def)
  then have r: "proxy_reaches ref_dns (env_lru ex_env) ex_proxy ?s'" by (intro ex_reaches) simp
  obtain p' where "main ex_env ex_args ex_process = (Ok (Serving ex_proxy), p')" using ex_main by blast
  from requests_stay_with_their_rule [OF this r] show ?thesis
    using r by (intro exI [of _ ?s']) (auto simp: ex_state_def rn_init_def ex_proxy_def ex_config_parsed_def)
qed



text \<open>C21: with \<open>--port\<close> the plain listener starts on the IPv4 and on the IPv6 wildcard address, on an
  operating system that refuses a bind only where two addresses overlap: the IPv6 sockets do not
  claim the IPv4 addresses.\<close>

theorem port_serves_both_families:
  assumes "refuses_overlaps_only (os_refuse H)" "arg_port a = Some port"
  shows "\<exists>p'. serve_all H (listen_addrs a) fresh_process = (Ok (), p') \<and>
    spawned p' = plain_tasks [socket_addr_new v4_any port, socket_addr_new v6_any port]"
proof -
  obtain p' where p': "serve_all H (listen_addrs a) fresh_process = (Ok (), p')"
    using serve_both_wildcards [OF assms(1), of fresh_process port] assms(2)
    by (auto simp: listen_addrs_def wildcards_def fresh_process_def)
  then show ?thesis
    using plain.serve_each_started [OF p' [unfolded serve_all_def]] assms(2)
    by (auto simp: listen_addrs_def wildcards_def fresh_process_def)
qed

theorem port_serves_both_families_witness:
  "\<exists>p'. serve_all ex_host_env (listen_addrs ex_args) fresh_process = (Ok (), p') \<and>
    spawned p' = plain_tasks [socket_addr_new v4_any 53, socket_addr_new v6_any 53]"
  by (rule port_serves_both_families) (simp_all add: ex_host_env_def ex_refuse_overlaps ex_args_def)






text \<open>C17: the certificate that the program's DNSCrypt listener hands out carries the resolver's public key
  and is signed by the provider; it is valid at the moment \<open>t\<close> of the start, unless that is the very last
  second of the 32-bit clock: its end, a year later, does not wrap around to before its start.\<close>

theorem dnscrypt_certificate_is_valid_at_start:
  assumes "crypto_laws C" "length (provider_signing_key rc) = 32" "length (resolver_secret_key rc) = 32"
    and "t = (case unix of Some s \<Rightarrow> of_nat s | None \<Rightarrow> 0)"
  shows "\<exists>c. parse_one_certificate C (srv_cert_bytes (main_server_config C unix rc))
        (verifying_key_of C (provider_signing_key rc)) = Some c \<and>
    resolver_public_key c = public_key_of C (resolver_secret_key rc) \<and>
    client_magic c = srv_client_magic (main_server_config C unix rc) \<and>
    (is_valid_at c t \<longleftrightarrow> t \<noteq> - 1)"
proof -
  have "length main_magic = 8" by (simp add: main_magic_def)
  note parse = crypto_laws.parse_signed_certificate [OF assms(1,2) crypto_laws.public_key_length [OF assms(1,3)] this,
      where rest = "[]"]
  show ?thesis
    using parse assms(4) saturating_add_gt [of DEFAULT_CERT_TTL_SECS t]
    by (simp add: DEFAULT_CERT_TTL_SECS_def main_server_config_def dnscrypt_server_new_def Let_def is_valid_at_def)
qed

theorem dnscrypt_certificate_is_valid_at_start_witness:
  "\<exists>c. parse_one_certificate ref_crypto
        (srv_cert_bytes (main_server_config ref_crypto (Some 4294967294) (resolver_generate (replicate 32 7) (replicate 32 9) ''n'')))
        (verifying_key_of ref_crypto (replicate 32 7)) = Some c \<and> is_valid_at c 4294967294"
  using dnscrypt_certificate_is_valid_at_start [OF ref_crypto.crypto_laws_axioms,
      of "resolver_generate (replicate 32 7) (replicate 32 9) ''n''" 4294967294 "Some 4294967294"]
  by (auto simp: resolver_generate_def)



end
