(* ===== verification/Props_Config.thy ===== *)
theory Props_Config
  imports Props_Main
begin

text \<open>
  The properties of the upstream configuration (\<open>client/upstream_config.rs\<close>, \<open>upstream_url.rs\<close>,
  \<open>upstream.rs\<close>).
\<close>

section \<open>Properties\<close>


text \<open>C12: the rule for a name is the most specific one: the longest of the rules' domains that is the
  name or follows one of its dots, without regard to case; without such a rule the default
  upstreams are used.\<close>

theorem most_specific_rule_matches:
  "(\<forall>k. group_key cfg dname = Some k \<longrightarrow>
      map_of (domain_upstreams cfg) k = Some (group_for cfg dname) \<and> label_suffix k (to_ascii_lowercase dname) \<and>
      (\<forall>k'. map_of (domain_upstreams cfg) k' \<noteq> None \<longrightarrow> label_suffix k' (to_ascii_lowercase dname) \<longrightarrow> length k' \<le> length k)) \<and>
   (group_key cfg dname = None \<longrightarrow> group_for cfg dname = default_upstreams cfg \<and>
      (\<forall>k. map_of (domain_upstreams cfg) k \<noteq> None \<longrightarrow> \<not> label_suffix k (to_ascii_lowercase dname)))"
proof (cases "group_key cfg dname")
  case None
  then have "\<not> label_suffix k (to_ascii_lowercase dname)" if "map_of (domain_upstreams cfg) k \<noteq> None" for k
    using that match_suffix_None [of "domain_upstreams cfg" _ k] by (auto simp: group_key_def split: if_splits)
  then show ?thesis using None by (simp add: group_for_def)
next
  case (Some k)
  then have "match_suffix (domain_upstreams cfg) (to_ascii_lowercase dname) = Some k"
    by (auto simp: group_key_def split: if_splits)
  from match_suffix_Some [OF this] show ?thesis using Some by (auto simp: group_for_def)
qed

definition ex_rules :: "lo upstream_config" where
  "ex_rules = ex_config_parsed\<lparr>domain_upstreams := [(''test.'', \<lparr>upstreams = [0], cursor = 3\<rparr>), (''a.test.'', \<lparr>upstreams = [0], cursor = 4\<rparr>)]\<rparr>"

theorem most_specific_rule_matches_witness:
  "group_key ex_rules ''www.A.test.'' = Some ''a.test.'' \<and> cursor (group_for ex_rules ''www.A.test.'') = 4"
proof -
  have low: "to_ascii_lowercase ''www.A.test.'' = ''www.a.test.''"
    by (simp add: to_ascii_lowercase_def ascii_lower_char_def char_of_eq_iff)
  have "match_suffix (domain_upstreams ex_rules) ''www.a.test.'' = Some ''a.test.''"
    by (subst match_suffix.simps, simp add: ex_rules_def, subst match_suffix.simps, simp)
  then have k: "group_key ex_rules ''www.A.test.'' = Some ''a.test.''"
    by (simp add: group_key_def low) (simp add: ex_rules_def)
  have "map_of (domain_upstreams ex_rules) ''a.test.'' = Some (group_for ex_rules ''www.A.test.'')"
    using most_specific_rule_matches [of ex_rules "''www.A.test.''"] k by blast
  with k show ?thesis by (auto simp: ex_rules_def)
qed


definition ex_lat :: "nat \<Rightarrow> latency_tracker" where
  "ex_lat i = (if i = 1 then latency_new else latency_record latency_new (from_secs (9 - i)))"


text \<open>C28: round robin: over as many queries as a rule has upstreams, each of them is tried first once,
  in the configured order from where the previous queries left off.\<close>

theorem round_robin_rotates:
  assumes "upstreams g \<noteq> []" "cursor g + length (upstreams g) < 2 ^ 64"
  shows "rr_firsts lat shuf (length (upstreams g)) g = rotate (cursor g) (upstreams g)"
  using assms by (rule rr_firsts_rotate)

theorem round_robin_rotates_witness:
  "rr_firsts ex_lat id 3 \<lparr>upstreams = [7, 8, 9], cursor = 4\<rparr> = [8, 9, 7]"
  using round_robin_rotates [of "\<lparr>upstreams = [7, 8, 9], cursor = 4\<rparr>" ex_lat id]
  by (simp add: rotate_drop_take flip: numeral_3_eq_3)

section \<open>Failover\<close>

text \<open>C13: an exchange returns the answer of the first upstream, in the order of the rule, that gives one:
  when those before it fail, whatever their errors, the exchange succeeds.\<close>

theorem failover_returns_the_first_answer:
  assumes "upstreams_for shuf cfg (query_name L req) = (pre @ i # post, cfg1)" "distinct (pre @ [i])"
    and "\<And>j. j < length pre \<Longrightarrow> \<exists>e. fails (W j) (store cfg1 ! (pre ! j)) req e"
    and "fut_value (tracked_exchange (W (length pre)) (store cfg1 ! i) req) = Some (Ok resp, tr)"
  shows "\<exists>cfg'. fut_value (config_exchange L W shuf cfg req) = Some (Ok resp, cfg')"
proof -
  have "\<exists>trs. fut_value (try_upstreams W req (doh_error.Bootstrap [Lit ''no upstreams configured for '', Dbg (query_name L req)])
      0 (pre @ i # post) (store cfg1) None) = Some (Ok resp, trs)"
    by (rule try_upstreams_first [OF assms(2)]) (use assms(3,4) in simp_all)
  then show ?thesis using assms(1) by (auto simp: config_exchange_def Let_def fut_value_eq_Some)
qed

text \<open>An upstream whose socket cannot be created, before one that answers.\<close>

definition ex_two_worlds :: "nat \<Rightarrow> lo world" where
  "ex_two_worlds k = (if k = 0 then ex_world\<lparr>w_net := (w_net ex_world)\<lparr>udp_bind := (\<lambda>_. now (Err ''no socket''))\<rparr>\<rparr> else ex_world)"

definition ex_two :: "lo upstream_config" where
  "ex_two = ex_config_parsed\<lparr>store := [tracked_new ex_upstream, tracked_new ex_upstream],
     default_upstreams := \<lparr>upstreams = [0, 1], cursor = 0\<rparr>\<rparr>"

lemma ex_two_upstreams: "upstreams_for id ex_two nm = ([0, 1], ex_two)"
  by (simp add: upstreams_for_def group_for_def group_key_def group_ordered_def Let_def set_group_def ex_two_def
      ex_config_parsed_def)

lemma ex_no_socket:
  "\<exists>e. fails (ex_world\<lparr>w_net := (w_net ex_world)\<lparr>udp_bind := (\<lambda>_. now (Err ''no socket''))\<rparr>\<rparr>) (tracked_new ex_upstream) ex_query e"
  using ex_exchanged
  by (auto simp: fails_def tracked_exchange_def tracked_new_def ex_upstream_def udp_exchange_def udp_new_def
      or_timeout_def ex_world_def exchanged_def lift_err_def)

lemma ex_tracked:
  "\<exists>tr. fut_value (tracked_exchange ex_world (tracked_new ex_upstream) ex_query) = Some (Ok ex_reply, tr)"
  using ex_udp_exchange [of "Some (from_secs 10)"]
  by (simp add: tracked_exchange_def ex_upstream_def tracked_new_def ex_world_def)

theorem failover_returns_the_first_answer_witness:
  "\<exists>cfg'. fut_value (config_exchange ref_dns ex_two_worlds id ex_two ex_query) = Some (Ok ex_reply, cfg')"
proof -
  obtain tr where "fut_value (tracked_exchange (ex_two_worlds (length [0 :: nat])) (store ex_two ! 1) ex_query) = Some (Ok ex_reply, tr)"
    using ex_tracked by (auto simp: ex_two_worlds_def ex_two_def)
  then show ?thesis
    by (rule failover_returns_the_first_answer [where pre = "[0]" and i = 1 and post = "[]" and ?cfg1.0 = ex_two, rotated 3])
      (simp add: ex_two_upstreams, simp, use ex_no_socket in \<open>simp add: ex_two_worlds_def ex_two_def\<close>)
qed

text \<open>C14: when every upstream of the rule fails, the exchange fails with the error of the last one; when
  the rule has none, with an error that names the question.\<close>

theorem failover_reports_the_last_error:
  assumes "upstreams_for shuf cfg (query_name L req) = (us, cfg1)" "distinct us" "length es = length us"
    and "\<And>j. j < length us \<Longrightarrow> fails (W j) (store cfg1 ! (us ! j)) req (es ! j)"
  shows "\<exists>cfg'. fut_value (config_exchange L W shuf cfg req) =
    Some (Err (if es = [] then doh_error.Bootstrap [Lit ''no upstreams configured for '', Dbg (query_name L req)]
      else last es), cfg')"
proof -
  have "\<exists>trs. fut_value (try_upstreams W req (doh_error.Bootstrap [Lit ''no upstreams configured for '', Dbg (query_name L req)])
      0 us (store cfg1) None) = Some (Err (if es = [] then
        (case None of Some x \<Rightarrow> x | None \<Rightarrow> doh_error.Bootstrap [Lit ''no upstreams configured for '', Dbg (query_name L req)])
        else last es), trs)"
    by (rule try_upstreams_all_fail [OF assms(2,3)]) (use assms(4) in simp)
  then show ?thesis using assms(1) by (auto simp: config_exchange_def Let_def fut_value_eq_Some)
qed

theorem failover_reports_the_last_error_witness:
  "\<exists>cfg' e. fut_value (config_exchange ref_dns
      (\<lambda>_. ex_world\<lparr>w_net := (w_net ex_world)\<lparr>udp_bind := (\<lambda>_. now (Err ''no socket''))\<rparr>\<rparr>) id ex_two ex_query) = Some (Err e, cfg')"
proof -
  obtain e where e: "fails (ex_world\<lparr>w_net := (w_net ex_world)\<lparr>udp_bind := (\<lambda>_. now (Err ''no socket''))\<rparr>\<rparr>) (tracked_new ex_upstream) ex_query e"
    using ex_no_socket by blast
  have "fails (ex_world\<lparr>w_net := (w_net ex_world)\<lparr>udp_bind := (\<lambda>_. now (Err ''no socket''))\<rparr>\<rparr>)
      (store ex_two ! ([0, 1] ! j)) ex_query ([e, e] ! j)" if "j < length [0 :: nat, 1]" for j
    using e that by (cases j) (auto simp: ex_two_def less_Suc_eq)
  from failover_reports_the_last_error [where L = ref_dns, OF ex_two_upstreams _ _ this] show ?thesis by fastforce
qed

section \<open>Addresses\<close>



section \<open>Latency\<close>

text \<open>C38: the moving average of an upstream's latency, with the rounding of its floating-point
  arithmetic, lies between the smallest and the largest duration recorded, as long as they are below
  \<open>2^50\<close> microseconds (35 years); it is unset exactly before the first.\<close>

theorem latency_average_between_samples:
  assumes "\<forall>d \<in> set ds. as_micros d < 2 ^ 50"
  shows "case latency_average (fold (\<lambda>d t. latency_record t d) ds latency_new) of
     None \<Rightarrow> ds = []
   | Some avg \<Rightarrow> \<exists>lo \<in> set ds. \<exists>hi \<in> set ds. as_micros lo \<le> as_micros avg \<and> as_micros avg \<le> as_micros hi"
proof -
  let ?t = "fold (\<lambda>d t. latency_record t d) ds latency_new"
  have "tracks ?t (as_micros ` set ds)" by (rule tracks_fold [OF assms])
  then consider "avg_micros ?t = - 1" "ds = []"
    | lo hi where "lo \<in> set ds" "hi \<in> set ds" "as_micros lo \<le> unat (avg_micros ?t)"
        "unat (avg_micros ?t) \<le> as_micros hi" "as_micros hi < 2 ^ 50"
    by (auto simp: tracks_def)
  then show ?thesis
  proof cases
    case 1
    then show ?thesis by (simp add: latency_average_def)
  next
    case 2
    then have "avg_micros ?t \<noteq> - 1" using small_not_untested [of "avg_micros ?t"] by linarith
    then show ?thesis using 2 by (auto simp: latency_average_def as_micros_def)
  qed
qed

theorem latency_average_between_samples_witness:
  "case latency_average (fold (\<lambda>d t. latency_record t d) [from_secs 1, from_secs 3] latency_new) of
     None \<Rightarrow> [from_secs 1, from_secs 3] = []
   | Some avg \<Rightarrow> \<exists>lo \<in> set [from_secs 1, from_secs 3]. \<exists>hi \<in> set [from_secs 1, from_secs 3].
       as_micros lo \<le> as_micros avg \<and> as_micros avg \<le> as_micros hi"
  by (rule latency_average_between_samples) (simp add: as_micros_def from_secs_def)

end
