(* ===== verification/Props_Servers.thy ===== *)
theory Props_Servers
  imports Props_Config
begin

text \<open>
  The properties of the stream listeners (\<open>listener/io.rs\<close>, \<open>dot.rs\<close>), of the loop that reads an
  HTTP/3 body (\<open>client/doh3.rs\<close>) and of the certificate that a DNSCrypt client uses
  (\<open>client/dnscrypt.rs\<close>).
\<close>

section \<open>Stream listeners\<close>

text \<open>C15: a TCP, DoT or DNSCrypt connection refines its specification over whole messages. However the
  peer's bytes are cut into reads, what is written back is the frames of the answers to its messages,
  in their order, up to the first that cannot be answered or framed; of this the peer gets as much as
  it takes, and the connection ends the way the last message says, or with the error of the write
  that the peer no longer took.\<close>

theorem stream_listeners_answer_in_order:
  assumes "carries input ms"
  shows "handle_tcp_connection L handle (input, room) =
      taken_by room (stream_output (answer_message L ''unpacking tcp message: '' handle) 0 ms) \<and>
    dot_handle_connection L handle (Inr (input, room)) =
      taken_by room (stream_output (answer_message L ''unpacking dot message: '' handle) 0 ms) \<and>
    dc_connection L C rn 0 config handle room input =
      taken_by room (stream_output (dc_answer_message L C rn config handle) 0 ms)"
  using assms
  by (simp add: handle_tcp_connection_def dot_handle_connection_def stream_conn.answers_in_order
      dc_conn.answers_in_order)

text \<open>The second of two queries is answered in part: the peer takes its length and one byte.\<close>

theorem stream_listeners_answer_in_order_witness:
  "handle_tcp_connection ref_dns (\<lambda>_. ex_handler) (frame ex_bytes @ frame ex_bytes @ [0], Breaks (length ex_reply_bytes + 5) ''reset'') =
    (frame ex_reply_bytes @ take 3 (frame ex_reply_bytes), Failed (Io ''reset''))"
proof -
  have len: "length ex_bytes \<le> 65535" "length ex_reply_bytes \<le> 65535" "to_bytes ref_dns ex_reply = Inr ex_reply_bytes"
    using ex_exchanged by (auto simp: exchanged_def)
  have c: "carries (frame ex_bytes @ frame ex_bytes @ [0]) [ex_bytes, ex_bytes]"
    using len by (auto simp: carries_def)
  have "fut_value (ex_handler ex_query) = Some (Ok ex_reply)" by (simp add: ex_reply_def ex_query_def)
  then have "stream_output (answer_message ref_dns ''unpacking tcp message: '' (\<lambda>_. ex_handler)) 0 [ex_bytes, ex_bytes] =
      (frame ex_reply_bytes @ frame ex_reply_bytes, Closed)"
    using exchanged_decode [OF ex_exchanged] len by (simp add: stream_output_def answer_message_def)
  moreover have "3 < length (frame ex_reply_bytes)" by (simp add: ex_reply_bytes_def)
  ultimately show ?thesis
    using stream_listeners_answer_in_order [OF c, where L = ref_dns and handle = "\<lambda>_. ex_handler"
        and room = "Breaks (length ex_reply_bytes + 5) ''reset''"]
    by simp
qed

section \<open>The body of an HTTP/3 response\<close>

text \<open>C30: reading the body of an HTTP/3 response ends, with the body or an error, after at most
  \<open>2^16 + 1\<close> data frames, whatever a peer that sends non-empty frames without end does; the bound of
  the model is enough, as every larger one gives the same result.\<close>

theorem h3_body_terminates:
  assumes "busy_stream H"
  shows "\<exists>t r. h3_body H 65537 s [] = Ready t r \<and> (\<forall>n \<ge> 65537. h3_body H n s [] = Ready t r)"
proof -
  have "\<exists>t r. h3_body H 65537 s [] = Ready t r"
    by (rule h3_body_ends [OF assms]) simp_all
  then obtain t r where e: "h3_body H 65537 s [] = Ready t r" by (elim exE)
  show ?thesis
  proof (intro exI [of _ t] exI [of _ r] conjI allI impI)
    show "h3_body H 65537 s [] = Ready t r" by (rule e)
    show "h3_body H n s [] = Ready t r" if "65537 \<le> n" for n by (rule h3_body_mono [OF e that])
  qed
qed

text \<open>A peer that sends one byte in every frame and never ends the body.\<close>

definition ex_flood :: "lo http" where
  "ex_flood = (w_http ex_world)\<lparr>h3_recv_data := (\<lambda>h. Ready 1 (Ok (Some [0], h)))\<rparr>"

theorem h3_body_terminates_witness:
  "\<exists>t r. h3_body ex_flood 65537 (Lo [] 0) [] = Ready t r \<and> (\<forall>n \<ge> 65537. h3_body ex_flood n (Lo [] 0) [] = Ready t r)"
  by (rule h3_body_terminates) (simp add: busy_stream_def ex_flood_def)

section \<open>DNSCrypt certificates\<close>



end
