(* ===== verification/Proxy_Progress.thy ===== *)
theory Proxy_Progress
  imports Running_Proxy
begin

text \<open>
  How the requests of the serving program get on with each other: which request holds the locks of an
  upstream's client, that some request can always take a step while one is unfinished, and how many
  steps the requests take at most.
\<close>

section \<open>Who holds a lock\<close>

fun flight_at :: "nat \<Rightarrow> 'h progress \<Rightarrow> 'h attempt option" where
  "flight_at j (Flying key j' us t x) = (if j' = j then Some x else None)"
| "flight_at j _ = None"

definition flights :: "(message \<times> 'h progress) list \<Rightarrow> nat \<Rightarrow> nat \<rightharpoonup> 'h attempt" where
  "flights ts j i = (if i < length ts then flight_at j (snd (ts ! i)) else None)"

definition locks_ok :: "('h, 'c) running \<Rightarrow> bool" where
  "locks_ok s \<longleftrightarrow>
     (\<forall>j. locks_inv holds (rn_locks s j) (flights (rn_tasks s) j)) \<and>
     (\<forall>tr \<in> set (store (rn_config s)). upstream_ok (tr_upstream tr)) \<and>
     (\<forall>j i x. flights (rn_tasks s) j i = Some x \<longrightarrow> fits (tr_upstream (rn_upstream s j)) x)"

lemma flights_update:
  "has_task s i (req, p) \<Longrightarrow> flights ((rn_tasks s)[i := (req, q)]) j = (flights (rn_tasks s) j)(i := flight_at j q)"
  by (auto simp: flights_def has_task_def)

lemma flights_task: "has_task s i (req, p) \<Longrightarrow> flights (rn_tasks s) j i = flight_at j p"
  by (auto simp: flights_def has_task_def)

lemma flights_same:
  "has_task s i (req, p) \<Longrightarrow> flight_at j p = flight_at j q \<Longrightarrow> flights ((rn_tasks s)[i := (req, q)]) j = flights (rn_tasks s) j"
  using flights_update [of s i req p q j] flights_task [of s i req p j] by auto

lemma flights_append: "flights (ts @ [(req, Phase ph)]) j = flights ts j"
  by (auto simp: flights_def nth_append)

lemma flights_Nil [simp]: "flights [] j = Map.empty"
  by (auto simp: flights_def)

lemma flights_SomeE:
  assumes "flights ts j i = Some x"
  obtains req key us t where "i < length ts" "ts ! i = (req, Flying key j us t x)"
proof -
  obtain req p where p: "i < length ts" "ts ! i = (req, p)" "flight_at j p = Some x"
    using assms by (cases "ts ! i") (auto simp: flights_def split: if_splits)
  then show ?thesis using that by (cases p) (auto split: if_splits)
qed

lemma start_locks_ok:
  assumes "locks_ok s" "has_task s i (req, Trying key (j # us) e)" "j < length (store (rn_config s))"
  shows "locks_ok (set_task i (req, Flying key j us t Begin) s)"
proof -
  let ?xs = "flights (rn_tasks s)"
  have none: "?xs j' i = None" for j' using flights_task [OF assms(2)] by simp
  have upd: "flights ((rn_tasks s)[i := (req, Flying key j us t Begin)]) j' =
      (if j' = j then (?xs j')(i \<mapsto> Begin) else ?xs j')" for j'
    using flights_update [OF assms(2), of "Flying key j us t Begin" j'] none [of j'] by auto
  have "locks_inv holds (rn_locks s j) ((?xs j)(i \<mapsto> Begin))"
    by (rule locks_inv_enter) (use assms(1) none in \<open>auto simp: locks_ok_def\<close>)
  moreover have "fits (tr_upstream (rn_upstream s j)) Begin"
    using assms(1,3) by (auto simp: locks_ok_def fits_def)
  ultimately show ?thesis using assms(1) by (auto simp: locks_ok_def upd split: if_splits)
qed

lemma land_locks_ok:
  assumes "locks_ok s" "has_task s i (req, Flying key j us t x)" "settled x = Some r" "\<And>j. flight_at j p = None"
    and "tr_upstream tr = tr_upstream (rn_upstream s j)" "j < length (store (rn_config s))"
  shows "locks_ok (set_task i (req, p) (set_upstream j tr s))"
proof -
  let ?xs = "flights (rn_tasks s)"
  have mine: "?xs j' i = (if j = j' then Some x else None)" for j' using flights_task [OF assms(2)] by simp
  have upd: "flights ((rn_tasks s)[i := (req, p)]) j' = (?xs j')(i := None)" for j'
    using flights_update [OF assms(2), of p j'] assms(4) by simp
  have inv: "locks_inv holds (rn_locks s j') (?xs j')" for j' using assms(1) by (simp add: locks_ok_def)
  have "locks_inv holds (rn_locks s j') ((?xs j')(i := None))" for j'
  proof (cases "j' = j")
    case True
    then show ?thesis using locks_inv_leave [OF inv, of j i x] mine [of j] settled_holds [of x] assms(3) by simp
  next
    case False
    then have "(?xs j')(i := None) = ?xs j'" using mine [of j'] by auto
    then show ?thesis using inv by simp
  qed
  moreover have ok: "upstream_ok (tr_upstream y)" if "y \<in> set ((store (rn_config s))[j := tr])" for y
  proof -
    have "upstream_ok (tr_upstream tr)" using assms(1,5,6) by (simp add: locks_ok_def)
    then show ?thesis using that set_update_subset_insert [of "store (rn_config s)" j tr] assms(1)
      by (auto simp: locks_ok_def)
  qed
  moreover have "tr_upstream ((store (rn_config s))[j := tr] ! j') = tr_upstream (rn_upstream s j')" for j'
    using assms(5,6) by (cases "j' = j") auto
  ultimately show ?thesis using assms(1) by (auto simp: locks_ok_def upd split: if_splits)
qed

lemma flight_locks_ok:
  assumes "locks_ok s" "has_task s i (req, Flying key j us t x)" "j < length (store (rn_config s))"
    and step: "client_step L i req (tr_upstream (rn_upstream s j), rn_locks s j, x) (u, lk, x')"
  shows "locks_ok (set_task i (req, Flying key j us t x')
      (set_upstream j ((rn_upstream s j)\<lparr>tr_upstream := u\<rparr>) (s\<lparr>rn_locks := (rn_locks s)(j := lk)\<rparr>)))"
proof -
  let ?xs = "flights (rn_tasks s)" and ?tr = "(rn_upstream s j)\<lparr>tr_upstream := u\<rparr>"
  have mine: "?xs j' i = (if j = j' then Some x else None)" for j' using flights_task [OF assms(2)] by simp
  have upd: "flights ((rn_tasks s)[i := (req, Flying key j us t x')]) j' =
      (if j' = j then (?xs j')(i \<mapsto> x') else ?xs j')" for j'
    using flights_update [OF assms(2), of "Flying key j us t x'" j'] mine [of j'] by auto
  have inv: "locks_inv holds (rn_locks s j') (?xs j')" for j' using assms(1) by (simp add: locks_ok_def)
  have locks: "locks_inv holds lk ((?xs j)(i \<mapsto> x'))"
    by (rule clients.locks_inv_step [OF inv _ step]) (use mine [of j] in simp)
  have fit: "fits (tr_upstream (rn_upstream s j')) y" if "?xs j' i' = Some y" for j' i' y
    using assms(1) that by (auto simp: locks_ok_def)
  have fits': "fits u y" if "((?xs j)(i \<mapsto> x')) i' = Some y" for i' y
    using that client_step_fits [OF step fit [of j i x]] mine [of j] client_step_fits_others [OF step fit [of j i' y]]
    by (auto split: if_splits)
  have "upstream_ok u" using fits' [of i x'] by (simp add: fits_def)
  then have "upstream_ok (tr_upstream y)" if "y \<in> set ((store (rn_config s))[j := ?tr])" for y
    using that set_update_subset_insert [of "store (rn_config s)" j ?tr] assms(1) by (auto simp: locks_ok_def)
  moreover have "tr_upstream ((store (rn_config s))[j := ?tr] ! j') = (if j' = j then u else tr_upstream (rn_upstream s j'))" for j'
    using assms(3) by (cases "j' = j") auto
  ultimately show ?thesis using locks fits' fit inv by (simp add: locks_ok_def upd)
qed

lemma locks_ok_unchanged:
  assumes "locks_ok s" "has_task s i (req, p)" "\<And>j. flight_at j p = None" "\<And>j. flight_at j q = None"
    and "rn_tasks s' = (rn_tasks s)[i := (req, q)]" "store (rn_config s') = store (rn_config s)" "rn_locks s' = rn_locks s"
  shows "locks_ok s'"
  using assms flights_same [OF assms(2)] by (simp add: locks_ok_def)

lemma upstreams_for_store: "upstreams_for shuf cfg n = (us, cfg') \<Longrightarrow> store cfg' = store cfg"
  by (auto simp: upstreams_for_def set_group_def Let_def split: prod.splits option.splits)

lemma flying_in_store:
  assumes "rules_inv L cfg0 s" "has_task s i (req, Flying key j us t x)"
  shows "j < length (store (rn_config s))"
proof -
  have "add_mset j (mset us) \<subseteq># rule_upstreams L cfg0 req" using rules_inv_has_task [OF assms] by simp
  then have "j \<in># rule_upstreams L cfg0 req" by (meson mset_subset_eq_insertD)
  then show ?thesis by (rule rules_inv_in_store [OF assms(1)])
qed

lemma trying_in_store:
  assumes "rules_inv L cfg0 s" "has_task s i (req, Trying key (j # us) e)"
  shows "j < length (store (rn_config s))"
proof -
  have "add_mset j (mset us) \<subseteq># rule_upstreams L cfg0 req" using rules_inv_has_task [OF assms] by simp
  then have "j \<in># rule_upstreams L cfg0 req" by (meson mset_subset_eq_insertD)
  then show ?thesis by (rule rules_inv_in_store [OF assms(1)])
qed

lemma flight_at_after [simp]: "flight_at j (after_attempt co t key us r) = None" "flight_at j (loop_end L co t req key e) = None"
  by (simp_all add: after_attempt_def loop_end_def split: res.split)

lemma locks_ok_work:
  assumes "locks_ok s" "rules_inv L cfg0 s" "work_step L K s s'"
  shows "locks_ok s'"
  using assms(3)
proof cases
  case (start i req key j us e)
  then show ?thesis using start_locks_ok [OF assms(1) start(2) trying_in_store [OF assms(2) start(2)]] by simp
next
  case (flight i req key j us t x u lk x')
  then show ?thesis using flight_locks_ok [OF assms(1) flight(2) flying_in_store [OF assms(2) flight(2)] flight(3)] by simp
next
  case (land i req key j us t x r)
  show ?thesis unfolding land(1)
    by (rule land_locks_ok [OF assms(1) land(2,3)]) (simp_all add: timed_def flying_in_store [OF assms(2) land(2)])
next
  case (look i req ph co)
  then show ?thesis by (intro locks_ok_unchanged [OF assms(1) look(2), of "Phase ph"]) simp_all
next
  case (order i req key shuf us cfg)
  then show ?thesis
    by (intro locks_ok_unchanged [OF assms(1) order(2), of "Trying key us None"]) (simp_all add: upstreams_for_store [OF order(4)])
next
  case (give_up i req key e)
  then show ?thesis
    by (intro locks_ok_unchanged [OF assms(1) give_up(2), of "loop_end L (px_cache (rn_proxy s)) (rn_clock s) req key e"]) simp_all
next
  case (put i req key e resp c)
  then show ?thesis by (intro locks_ok_unchanged [OF assms(1) put(2), of "Phase (Finished (Ok resp))"]) simp_all
qed

lemma locks_ok_step:
  assumes "locks_ok s" "rules_inv L cfg0 s" "proxy_step L K s s'"
  shows "locks_ok s'"
  using assms(3)
proof cases
  case work
  then show ?thesis by (rule locks_ok_work [OF assms(1,2)])
qed (use assms(1) in \<open>simp_all add: locks_ok_def flights_append\<close>)

text \<open>Freshly parsed clients keep nothing yet.\<close>

lemma parsed_upstream_ok: "parse_any_upstream W u opts = Ok b \<Longrightarrow> upstream_ok b"
  by (auto simp: parse_any_upstream_def Let_def res_simps upstream_ok_def doh_init_def
      split: prod.splits if_splits option.splits upstream.splits)

lemma main_upstreams_ok:
  assumes "main E a p = (Ok (Serving px), p')" "tr \<in> set (store (px_config px))"
  shows "upstream_ok (tr_upstream tr)"
proof -
  have "main_config (env_world E) (env_look E) (env_host E) a = Ok (px_config px)"
    using main_started [OF assms(1)] by blast
  then obtain ls opts m where "parse_with_mode (env_world E) ls opts m = Ok (px_config px)"
    by (auto simp: main_config_def res_simps map_err_eq_Ok)
  from parse_with_mode_store [OF this assms(2)] show ?thesis
    using parsed_upstream_ok by (fastforce simp: tracked_new_def)
qed

lemma served_inv:
  assumes "main E a p = (Ok (Serving px), p')" "proxy_reaches L (env_lru E) px s"
  shows "locks_ok s \<and> rules_inv L (px_config px) s"
proof (rule proxy_reaches_invariant [OF assms(2)])
  have "config_ok (px_config px)" by (rule main_config_ok [OF assms(1)])
  then show "locks_ok (rn_init px t) \<and> rules_inv L (px_config px) (rn_init px t)" for t
    using main_upstreams_ok [OF assms(1)]
    by (auto simp: locks_ok_def rules_inv_def rn_init_def locks_inv_def)
  show "locks_ok s' \<and> rules_inv L (px_config px) s'"
    if "locks_ok s \<and> rules_inv L (px_config px) s" "proxy_step L (env_lru E) s s'" for s s'
    using that locks_ok_step rules_inv_step by blast
qed

section \<open>No request waits for ever\<close>

definition finished :: "message \<times> 'h progress \<Rightarrow> bool" where
  "finished x \<longleftrightarrow> (\<exists>r. snd x = Phase (Finished r))"

text \<open>A request that no lock keeps waiting can take its next step.\<close>

lemma flight_moves:
  assumes "locks_ok s" "has_task s i (req, Flying key j us t x)"
  shows "\<exists>s'. work_step L K s s'"
proof (cases "settled x")
  case (Some r)
  from work_step.land [OF assms(2) Some] show ?thesis by blast
next
  case None
  let ?u = "tr_upstream (rn_upstream s j)" and ?xs = "flights (rn_tasks s) j"
  have x: "?xs i = Some x" using flights_task [OF assms(2)] by simp
  have "\<exists>i' y z. ?xs i' = Some y \<and> \<not> settled y \<noteq> None \<and>
      client_step L i' (fst (rn_tasks s ! i')) (?u, rn_locks s j, y) z"
    by (rule clients.someone_steps [where i = i and x = x]) (use assms(1) None x in \<open>auto simp: locks_ok_def\<close>)
  then obtain i' y z where y: "?xs i' = Some y" "client_step L i' (fst (rn_tasks s ! i')) (?u, rn_locks s j, y) z" by blast
  obtain req' key' us' t' where task: "i' < length (rn_tasks s)" "rn_tasks s ! i' = (req', Flying key' j us' t' y)"
    using flights_SomeE [OF y(1)] by blast
  then have has: "has_task s i' (req', Flying key' j us' t' y)" by (simp add: has_task_def)
  obtain u lk x' where "client_step L i' req' (?u, rn_locks s j, y) (u, lk, x')" using y(2) task(2) by (cases z) auto
  from work_step.flight [OF has this] show ?thesis by blast
qed

lemma storing_cached:
  assumes "proxy_inv L K opts s" "has_task s i (req, Phase (Storing key e resp))"
  shows "px_cache (rn_proxy s) \<noteq> None"
proof
  assume none: "px_cache (rn_proxy s) = None"
  have "(req, Phase (Storing key e resp)) \<in> set (rn_tasks s)" using assms(2) nth_mem by (fastforce simp: has_task_def)
  then show False using assms(1) none by (fastforce simp: proxy_inv_def split: option.splits)
qed

lemma unfinished_moves:
  assumes "locks_ok s" "proxy_inv L K opts s" "x \<in> set (rn_tasks s)" "\<not> finished x"
  shows "\<exists>s'. work_step L K s s'"
proof -
  obtain i req p where task: "has_task s i (req, p)" and x: "x = (req, p)"
    using assms(3) unfolding has_task_def in_set_conv_nth by (metis surj_pair)
  show ?thesis
  proof (cases p)
    case (Phase ph)
    show ?thesis
    proof (cases ph)
      case Started
      obtain ph' co where "proxy_look K (px_cache (rn_proxy s)) (rn_clock s) req = (ph', co)"
        by (cases "proxy_look K (px_cache (rn_proxy s)) (rn_clock s) req")
      from work_step.look [OF task [unfolded Phase Started] this] show ?thesis by blast
    next
      case (Forwarding key)
      obtain us cfg where "upstreams_for id (rn_config s) (query_name L req) = (us, cfg)"
        by (cases "upstreams_for id (rn_config s) (query_name L req)")
      from work_step.order [OF task [unfolded Phase Forwarding] _ this] show ?thesis by auto
    next
      case (Storing key e resp)
      then obtain c where "px_cache (rn_proxy s) = Some c" using storing_cached [OF assms(2)] task Phase by blast
      from work_step.put [OF task [unfolded Phase Storing] this] show ?thesis by blast
    qed (use assms(4) x Phase in \<open>simp add: finished_def\<close>)
  next
    case (Trying key us e)
    then show ?thesis using task work_step.give_up work_step.start by (cases us) blast+
  next
    case (Flying key j us t y)
    then show ?thesis using flight_moves assms(1) task by blast
  qed
qed

section \<open>How many steps a request takes\<close>

text \<open>
  Fourteen steps for every upstream that may still be tried: one to begin, twelve in the client, one
  to end; and up to four for the rest.
\<close>

fun task_rank :: "dnslib \<Rightarrow> 'h upstream_config \<Rightarrow> message \<times> 'h progress \<Rightarrow> nat" where
  "task_rank L cfg (req, Phase Started) = 14 * size (rule_upstreams L cfg req) + 4"
| "task_rank L cfg (req, Phase (Forwarding key)) = 14 * size (rule_upstreams L cfg req) + 3"
| "task_rank L cfg (req, Phase (Storing key e resp)) = 1"
| "task_rank L cfg (req, Phase (Finished r)) = 0"
| "task_rank L cfg (req, Trying key us e) = 14 * length us + 2"
| "task_rank L cfg (req, Flying key j us t x) = 14 * length us + 3 + attempt_rank x"

definition work_left :: "dnslib \<Rightarrow> 'h upstream_config \<Rightarrow> ('h, 'c) running \<Rightarrow> nat" where
  "work_left L cfg s = sum_list (map (task_rank L cfg) (rn_tasks s))"

lemma work_left_update:
  assumes "has_task s i x" "rn_tasks s' = (rn_tasks s)[i := y]" "task_rank L cfg y < task_rank L cfg x"
  shows "work_left L cfg s' < work_left L cfg s"
proof -
  let ?ts = "rn_tasks s" and ?f = "task_rank L cfg"
  have "?ts = take i ?ts @ x # drop (Suc i) ?ts" using assms(1) by (auto simp: has_task_def id_take_nth_drop)
  from arg_cong [OF this, of "\<lambda>ts. sum_list (map ?f ts)"]
  have "work_left L cfg s = sum_list (map ?f (take i ?ts)) + (?f x + sum_list (map ?f (drop (Suc i) ?ts)))"
    unfolding work_left_def map_append sum_list.append list.map sum_list.Cons .
  moreover have "rn_tasks s' = take i ?ts @ y # drop (Suc i) ?ts"
    using assms(1,2) by (auto simp: has_task_def upd_conv_take_nth_drop)
  then have "work_left L cfg s' = sum_list (map ?f (take i ?ts)) + (?f y + sum_list (map ?f (drop (Suc i) ?ts)))"
    unfolding work_left_def by simp
  ultimately show ?thesis using assms(3) by linarith
qed

lemma take_rank: "task_rank L cfg (req, Phase (proxy_take co t key r)) \<le> 1"
  by (cases co; cases r) (auto simp: proxy_take_def take_answer_def split: option.splits)

lemma work_step_rank:
  assumes "rules_inv L cfg0 s" "work_step L K s s'"
  shows "work_left L cfg0 s' < work_left L cfg0 s"
  using assms(2)
proof cases
  case (look i req ph co)
  then have "task_rank L cfg0 (req, Phase ph) < task_rank L cfg0 (req, Phase Started)"
    by (auto simp: proxy_look_def look_up_def split: option.splits prod.splits)
  then show ?thesis using work_left_update [OF look(2), of s' "(req, Phase ph)"] look(1) by simp
next
  case (order i req key shuf us cfg)
  have "mset us = mset (upstreams (group_for (rn_config s) (query_name L req)))"
    using upstreams_for_ok [OF order(4) _ order(3)] assms(1) by (simp add: rules_inv_def)
  then have "mset us = rule_upstreams L cfg0 req" using assms(1) by (simp add: rules_inv_def rule_upstreams_def)
  then have "length us = size (rule_upstreams L cfg0 req)" by (metis size_mset)
  then show ?thesis using work_left_update [OF order(2), of s' "(req, Trying key us None)"] order(1) by simp
next
  case (start i req key j us e)
  then show ?thesis using work_left_update [OF start(2), of s' "(req, Flying key j us (rn_clock s) Begin)"] by simp
next
  case (flight i req key j us t x u lk x')
  then show ?thesis
    using work_left_update [OF flight(2), of s' "(req, Flying key j us t x')"] client_step_rank [OF flight(3)] by simp
next
  case (land i req key j us t x r)
  have "task_rank L cfg0 (req, after_attempt (px_cache (rn_proxy s)) (rn_clock s) key us r) <
      task_rank L cfg0 (req, Flying key j us t x)"
    using take_rank [of L cfg0 req "px_cache (rn_proxy s)" "rn_clock s" key r] by (auto simp: after_attempt_def split: res.splits)
  then show ?thesis
    using work_left_update [OF land(2), of s' "(req, after_attempt (px_cache (rn_proxy s)) (rn_clock s) key us r)"] land(1) by simp
next
  case (give_up i req key e)
  have "task_rank L cfg0 (req, loop_end L (px_cache (rn_proxy s)) (rn_clock s) req key e) < task_rank L cfg0 (req, Trying key [] e)"
    unfolding loop_end_def by (rule le_less_trans [OF take_rank]) simp
  then show ?thesis
    using work_left_update [OF give_up(2), of s' "(req, loop_end L (px_cache (rn_proxy s)) (rn_clock s) req key e)"] give_up(1) by simp
next
  case (put i req key e resp c)
  then show ?thesis using work_left_update [OF put(2), of s' "(req, Phase (Finished (Ok resp)))"] by simp
qed

text \<open>Steps of the requests that are there, with time passing between them.\<close>

definition busy_step :: "dnslib \<Rightarrow> 'c entry_lru \<Rightarrow> ('h, 'c) running \<Rightarrow> ('h, 'c) running \<Rightarrow> bool" where
  "busy_step L K s s' \<longleftrightarrow> (\<exists>d. work_step L K (s\<lparr>rn_clock := rn_clock s + d\<rparr>) s')"

lemma busy_step_rank:
  assumes "rules_inv L cfg0 s" "busy_step L K s s'"
  shows "work_left L cfg0 s' < work_left L cfg0 s \<and> rules_inv L cfg0 s'"
proof -
  obtain d where d: "work_step L K (s\<lparr>rn_clock := rn_clock s + d\<rparr>) s'" using assms(2) by (auto simp: busy_step_def)
  have "rules_inv L cfg0 (s\<lparr>rn_clock := rn_clock s + d\<rparr>)" using assms(1) by (simp add: rules_inv_def)
  from work_step_rank [OF this d] rules_inv_work [OF this d] show ?thesis by (simp add: work_left_def)
qed

lemma busy_steps_bound:
  assumes "(busy_step L K ^^ n) s s'" "rules_inv L cfg0 s"
  shows "n + work_left L cfg0 s' \<le> work_left L cfg0 s"
  using assms
proof (induction n arbitrary: s)
  case (Suc n)
  then obtain s1 where "busy_step L K s s1" "(busy_step L K ^^ n) s1 s'" by (meson relpowp_Suc_D2)
  then show ?case using busy_step_rank [OF Suc.prems(2), of K s1] Suc.IH [of s1] by fastforce
qed simp

text \<open>The most that a request may still take.\<close>

definition most_steps :: "dnslib \<Rightarrow> 'h upstream_config \<Rightarrow> message \<Rightarrow> nat" where
  "most_steps L cfg req = 14 * length (upstreams (group_for cfg (query_name L req))) + 4"

lemma attempt_rank_le: "attempt_rank x \<le> 12"
proof (cases x)
  case (OnConn ph)
  then show ?thesis by (cases ph) auto
next
  case (OnClient ph)
  then show ?thesis by (cases ph) auto
qed auto

lemma task_rank_le:
  assumes "rules_inv L cfg0 s" "x \<in> set (rn_tasks s)"
  shows "task_rank L cfg0 x \<le> most_steps L cfg0 (fst x)"
proof -
  obtain req p where x: "x = (req, p)" by (cases x)
  let ?n = "length (upstreams (group_for cfg0 (query_name L req)))"
  have n: "size (rule_upstreams L cfg0 req) = ?n" by (simp add: rule_upstreams_def)
  have ok: "tries_only (rule_upstreams L cfg0 req) p" using assms x by (fastforce simp: rules_inv_def)
  show ?thesis
  proof (cases p)
    case (Phase ph)
    then show ?thesis using x n by (cases ph) (simp_all add: most_steps_def)
  next
    case (Trying key us e)
    then have "length us \<le> ?n" using ok size_mset_mono [of "mset us"] n by fastforce
    then show ?thesis using x Trying by (simp add: most_steps_def)
  next
    case (Flying key j us t y)
    then have "Suc (length us) \<le> ?n" using ok size_mset_mono [of "add_mset j (mset us)"] n by fastforce
    then show ?thesis using x Flying attempt_rank_le [of y] by (simp add: most_steps_def)
  qed
qed

lemma work_left_le:
  assumes "rules_inv L cfg0 s"
  shows "work_left L cfg0 s \<le> (\<Sum>x \<leftarrow> rn_tasks s. most_steps L cfg0 (fst x))"
  unfolding work_left_def by (rule sum_list_mono) (rule task_rank_le [OF assms])

end
