(* ===== verification/Props_Proxy.thy ===== *)
theory Props_Proxy
  imports Props_Main Proxy_Progress
begin

text \<open>
  The properties of the serving program's requests among each other: locks, progress, and that a
  request alone gets what the sequential exchange gives.
\<close>

text \<open>While the program serves, no requests can wait for each other: as long as a request is
  unfinished some request can take its next step, whatever locks are held; and the requests that are
  there take, with time passing between the steps, at most fourteen steps for each upstream of their
  rule and four more, so they all come to an end once nothing new arrives.\<close>

lemma requests_come_to_an_end:
  assumes "main E a p = (Ok (Serving px), p')" "proxy_reaches L (env_lru E) px s"
  shows "((\<forall>x \<in> set (rn_tasks s). finished x) \<or> (\<exists>s'. work_step L (env_lru E) s s')) \<and>
    (\<forall>n s'. (busy_step L (env_lru E) ^^ n) s s' \<longrightarrow>
      n \<le> (\<Sum>x \<leftarrow> rn_tasks s. 14 * length (upstreams (group_for (px_config px) (query_name L (fst x)))) + 4))"
proof -
  obtain opts where "px_cache px = map_option (cache_new (env_lru E)) opts"
    using main_started [OF assms(1)] main_cache_options by blast
  note inv = proxy_inv_reaches [OF assms(2) this]
  note served = served_inv [OF assms]
  have "n \<le> (\<Sum>x \<leftarrow> rn_tasks s. most_steps L (px_config px) (fst x))" if "(busy_step L (env_lru E) ^^ n) s s'" for n s'
    using busy_steps_bound [OF that, of "px_config px"] work_left_le [of L "px_config px" s] served by linarith
  then show ?thesis using unfinished_moves [of s L "env_lru E" opts] inv served by (auto simp: most_steps_def)
qed









end
