(* ===== verification/Front_Ends.thy ===== *)
theory Front_Ends
  imports Listener_Doh Listener_Dnscrypt
begin

text \<open>
  What the listeners ask the handler, and what a peer gets of its answers. A session is one packet,
  request, stream or connection of a peer with one of the eight listeners; its questions are the
  calls of the handler, each of which may depend on the answers to those before. The operations
  themselves are those of the listeners, run with a handler that gives the answers so far.
\<close>

section \<open>Sessions\<close>

datatype session =
  UdpPacket bytes
| DcPacket bytes bytes bytes
| DoqStream bytes
| DohRequest http_in
| Doh3Request http_in
| TcpConn bytes room
| DotConn bytes room
| DcConn "nat \<Rightarrow> bytes" bytes room

text \<open>The bytes, the response or the output that a session has so far, if any.\<close>

datatype reply =
  Datagram "bytes dres option"
| HttpReply "http_response dres option"
| Written bytes conn_end

record served =
  sv_dns :: dnslib
  sv_b64 :: base64
  sv_crypto :: crypto
  sv_creds :: credentials
  sv_dnscrypt :: dnscrypt_server
  sv_early :: string

fun session_run :: "served \<Rightarrow> session \<Rightarrow> (nat \<Rightarrow> handler) \<Rightarrow> reply" where
  "session_run V (UdpPacket p) h = Datagram (fut_value (handle_udp_packet (sv_dns V) (h 0) p))"
| "session_run V (DcPacket rn rn' p) h =
     Datagram (fut_value (dc_handle_udp_packet (sv_dns V) (sv_crypto V) rn rn' (sv_dnscrypt V) (h 0) p))"
| "session_run V (DoqStream s) h = Datagram (fut_value (doq_handle_stream (sv_dns V) (sv_early V) (h 0) s))"
| "session_run V (DohRequest r) h = HttpReply (fut_value (handle_request (sv_dns V) (sv_b64 V) (h 0) (sv_creds V) r))"
| "session_run V (Doh3Request r) h = HttpReply (fut_value (h3_handle_request (sv_dns V) (sv_b64 V) (h 0) (sv_creds V) r))"
| "session_run V (TcpConn s room) h = case_prod Written (handle_tcp_connection (sv_dns V) h (s, room))"
| "session_run V (DotConn s room) h = case_prod Written (dot_handle_connection (sv_dns V) h (Inr (s, room)))"
| "session_run V (DcConn rn s room) h =
     case_prod Written (dc_connection (sv_dns V) (sv_crypto V) rn 0 (sv_dnscrypt V) h room s)"

fun reply_pending :: "reply \<Rightarrow> bool" where
  "reply_pending (Datagram r) \<longleftrightarrow> r = None"
| "reply_pending (HttpReply r) \<longleftrightarrow> r = None"
| "reply_pending (Written out e) \<longleftrightarrow> e = Waiting"

section \<open>Questions of a packet, a stream or a request\<close>

definition decoded :: "dnslib \<Rightarrow> bytes \<Rightarrow> message option" where
  "decoded L b = (case from_bytes L b of Inr req \<Rightarrow> Some req | Inl e \<Rightarrow> None)"

definition dc_question :: "dnslib \<Rightarrow> crypto \<Rightarrow> dnscrypt_server \<Rightarrow> bytes \<Rightarrow> message option" where
  "dc_question L C config p =
     (if try_answer_provider_txt L config p = None
      then (case decrypt_query C (srv_secret_key config) (srv_client_magic config) p of
              Ok (b, pk, n) \<Rightarrow> decoded L b | _ \<Rightarrow> None)
      else None)"

definition doq_question :: "dnslib \<Rightarrow> bytes \<Rightarrow> message option" where
  "doq_question L s =
     (case read_prefixed s of
        Some (b, _) \<Rightarrow> (case decoded L b of Some req \<Rightarrow> if msg_id req = 0 then Some req else None | None \<Rightarrow> None)
      | None \<Rightarrow> None)"

definition ok_part :: "'a dres \<Rightarrow> 'a option" where
  "ok_part r = (case r of Ok x \<Rightarrow> Some x | _ \<Rightarrow> None)"

abbreviation dns_param_of :: "http_in \<Rightarrow> string option" where
  "dns_param_of r \<equiv> Option.bind (in_query r) find_dns_param"

definition doh_question :: "dnslib \<Rightarrow> base64 \<Rightarrow> credentials \<Rightarrow> http_in \<Rightarrow> message option" where
  "doh_question L B creds r =
     (if refused creds r then None
      else case in_method r of
          GET \<Rightarrow> ok_part (decode_request L B (dns_param_of r) [])
        | POST \<Rightarrow> (case fut_value (in_body r) of
              Some (Ok b) \<Rightarrow> if 65535 < length b then None else ok_part (decode_request L B (dns_param_of r) b)
            | _ \<Rightarrow> None)
        | OtherMethod m \<Rightarrow> None)"

definition doh3_question :: "dnslib \<Rightarrow> base64 \<Rightarrow> credentials \<Rightarrow> http_in \<Rightarrow> message option" where
  "doh3_question L B creds r =
     (if refused creds r then None
      else case in_method r of
          GET \<Rightarrow> ok_part (decode_request L B (dns_param_of r) [])
        | POST \<Rightarrow> Option.bind (ok_part (read_chunks (in_chunks r) (in_chunk_error r) []))
            (\<lambda>b. ok_part (decode_request L B (dns_param_of r) b))
        | OtherMethod m \<Rightarrow> None)"

section \<open>Answers\<close>

text \<open>The calls of the handler that have been answered: the request of the \<open>k\<close>-th and its result.\<close>

type_synonym answers = "nat \<rightharpoonup> message \<times> message dres"

definition told :: "answers \<Rightarrow> nat \<Rightarrow> message \<Rightarrow> message dres option" where
  "told as k req = (case as k of Some (q, r) \<Rightarrow> if q = req then Some r else None | None \<Rightarrow> None)"

definition replay :: "answers \<Rightarrow> nat \<Rightarrow> handler" where
  "replay as k req = (case told as k req of Some r \<Rightarrow> now r | None \<Rightarrow> Never)"

text \<open>A handler that gives these answers.\<close>

definition plays :: "(nat \<Rightarrow> handler) \<Rightarrow> answers \<Rightarrow> bool" where
  "plays h as \<longleftrightarrow> (\<forall>k req r. told as k req = Some r \<longrightarrow> fut_value (h k req) = Some r)"

lemma fut_value_replay [simp]: "fut_value (replay as k req) = told as k req"
  by (simp add: replay_def split: option.splits)

lemma plays_replay: "plays (replay as) as"
  by (simp add: plays_def)

lemma told_upd: "told (as(k \<mapsto> (req, r))) k' q =
    (if k' = k then if q = req then Some r else None else told as k' q)"
  by (simp add: told_def)

section \<open>The contract of a session\<close>

text \<open>
  The next question after some answers is the one that the operation waits for: it goes on with no
  other call of the handler, its result is decided by the answers once there is none, and every answer
  leads to a later question, or none.
\<close>

locale front_end =
  fixes ask :: "answers \<Rightarrow> (nat \<times> message) option" and run :: "(nat \<Rightarrow> handler) \<Rightarrow> reply" and most :: nat
  assumes decided: "ask as = None \<Longrightarrow> plays h as \<Longrightarrow> run h = run (replay as)"
    and blocked: "ask as = Some (k, req) \<Longrightarrow> plays h as \<Longrightarrow> fut_value (h k req) = None \<Longrightarrow> reply_pending (run h)"
    and untold: "ask as = Some (k, req) \<Longrightarrow> told as k req = None \<and> k < most"
    and later: "ask as = Some (k, req) \<Longrightarrow> ask (as(k \<mapsto> (req, r))) = Some (k', req') \<Longrightarrow> k < k'"

text \<open>An operation that calls the handler once.\<close>

definition ask_once :: "message option \<Rightarrow> answers \<Rightarrow> (nat \<times> message) option" where
  "ask_once q as = Option.bind q (\<lambda>req. if told as 0 req = None then Some (0, req) else None)"

lemma ask_once_None: "ask_once q as = None \<longleftrightarrow> (case q of None \<Rightarrow> True | Some req \<Rightarrow> told as 0 req \<noteq> None)"
  by (auto simp: ask_once_def split: option.splits)

lemma ask_once_Some: "ask_once q as = Some (k, req) \<longleftrightarrow> q = Some req \<and> k = 0 \<and> told as 0 req = None"
  by (auto simp: ask_once_def split: option.splits bind_splits if_splits)

lemma front_end_once:
  assumes "\<And>h h'. q = None \<Longrightarrow> run h = run h'"
    and "\<And>req h h'. q = Some req \<Longrightarrow> fut_value (h 0 req) = fut_value (h' 0 req) \<Longrightarrow> run h = run h'"
    and "\<And>req h. q = Some req \<Longrightarrow> fut_value (h 0 req) = None \<Longrightarrow> reply_pending (run h)"
  shows "front_end (ask_once q) run 1"
proof
  fix as h assume n: "ask_once q as = None" and p: "plays h as"
  show "run h = run (replay as)"
  proof (cases q)
    case None
    then show ?thesis by (rule assms(1))
  next
    case (Some req)
    then obtain r where "told as 0 req = Some r" using n by (auto simp: ask_once_None)
    then show ?thesis using assms(2) [OF Some, of h "replay as"] p by (simp add: plays_def)
  qed
next
  fix as k req and h :: "nat \<Rightarrow> handler" assume "ask_once q as = Some (k, req)" "fut_value (h k req) = None"
  then show "reply_pending (run h)" using assms(3) by (auto simp: ask_once_Some)
qed (auto simp: ask_once_Some told_upd)

section \<open>Operations that call the handler once\<close>

lemma await_ok_None: "fut_value (await_ok f g) = None \<longleftrightarrow>
    fut_value f = None \<or> (\<exists>x. fut_value f = Some (Ok x) \<and> fut_value (g x) = None)"
  by (cases "(f, g)" rule: await_ok.cases) auto

lemma fut_value_await_ok_cong:
  "fut_value f = fut_value f' \<Longrightarrow> (\<And>x. fut_value f' = Some (Ok x) \<Longrightarrow> fut_value (g x) = fut_value (g' x)) \<Longrightarrow>
   fut_value (await_ok f g) = fut_value (await_ok f' g')"
  by (cases "(f, g)" rule: await_ok.cases; cases "(f', g')" rule: await_ok.cases) auto

lemma udp_front_end:
  "front_end (ask_once (decoded L p)) (\<lambda>h. Datagram (fut_value (handle_udp_packet L (h 0) p))) 1"
  by (rule front_end_once)
    (auto simp: handle_udp_packet_def decoded_def await_ok_None intro!: fut_value_await_ok_cong split: sum.splits)

lemma respond_laws:
  "dc_question L C config p = None \<Longrightarrow> fut_value (respond L C config h p) = fut_value (respond L C config h' p)"
  "dc_question L C config p = Some req \<Longrightarrow> fut_value (h req) = fut_value (h' req) \<Longrightarrow>
    fut_value (respond L C config h p) = fut_value (respond L C config h' p)"
  "dc_question L C config p = Some req \<Longrightarrow> fut_value (h req) = None \<Longrightarrow> fut_value (respond L C config h p) = None"
  by (auto simp: respond_def dc_question_def decoded_def await_ok_None
      intro!: fut_value_await_ok_cong split: option.splits res.splits sum.splits if_splits)

lemma dc_udp_front_end:
  "front_end (ask_once (dc_question L C config p))
     (\<lambda>h. Datagram (fut_value (dc_handle_udp_packet L C rn rn' config (h 0) p))) 1"
  by (rule front_end_once)
    (auto simp: dc_handle_udp_packet_def await_ok_None respond_laws(3)
      intro!: fut_value_await_ok_cong intro: respond_laws)

lemma doq_front_end:
  "front_end (ask_once (doq_question L s)) (\<lambda>h. Datagram (fut_value (doq_handle_stream L early (h 0) s))) 1"
  by (rule front_end_once)
    (auto simp: leD [OF u16_unat_bound] doq_handle_stream_def doq_question_def decoded_def await_ok_None Let_def
      intro!: fut_value_await_ok_cong split: list.splits sum.splits if_splits)


lemma doh_front_end:
  "front_end (ask_once (doh_question L B creds r)) (\<lambda>h. HttpReply (fut_value (handle_request L B (h 0) creds r))) 1"
proof (rule front_end_once)
  have inner: "doh_question L B creds r = None \<Longrightarrow>
      fut_value (handle_request_inner L B h creds r) = fut_value (handle_request_inner L B h' creds r)"
    "doh_question L B creds r = Some req \<Longrightarrow> fut_value (h req) = fut_value (h' req) \<Longrightarrow>
      fut_value (handle_request_inner L B h creds r) = fut_value (handle_request_inner L B h' creds r)"
    "doh_question L B creds r = Some req \<Longrightarrow> fut_value (h req) = None \<Longrightarrow>
      fut_value (handle_request_inner L B h creds r) = None" for h h' req
    by (auto simp: handle_request_inner_def doh_question_def ok_part_def await_ok_None Let_def fut_value_lift_err_ok
        intro!: fut_value_await_ok_cong split: http_method.splits option.splits res.splits if_splits)
  show "HttpReply (fut_value (handle_request L B (h 0) creds r)) = HttpReply (fut_value (handle_request L B (h' 0) creds r))"
    if "doh_question L B creds r = None" for h h'
    using inner(1) [OF that, of "h 0" "h' 0"] by (simp add: handle_request_def)
  show "HttpReply (fut_value (handle_request L B (h 0) creds r)) = HttpReply (fut_value (handle_request L B (h' 0) creds r))"
    if "doh_question L B creds r = Some req" "fut_value (h 0 req) = fut_value (h' 0 req)" for req h h'
    using inner(2) [where req = req and h = "h 0" and h' = "h' 0"] that by (simp add: handle_request_def)
  show "reply_pending (HttpReply (fut_value (handle_request L B (h 0) creds r)))"
    if "doh_question L B creds r = Some req" "fut_value (h 0 req) = None" for req h
    using inner(3) [where req = req and h = "h 0"] that by (simp add: handle_request_def)
qed

lemma doh3_front_end:
  "front_end (ask_once (doh3_question L B creds r)) (\<lambda>h. HttpReply (fut_value (h3_handle_request L B (h 0) creds r))) 1"
  by (rule front_end_once)
    (auto simp: h3_handle_request_def doh3_question_def ok_part_def await_ok_None Let_def
      intro!: fut_value_await_ok_cong split: http_method.splits option.splits bind_splits res.splits if_splits)


section \<open>Connections\<close>

text \<open>
  The next question of a connection: a message is asked about when those before it have been
  answered and the peer has taken the answers. \<open>question\<close> is what a message asks the handler, and
  \<open>answer\<close> what it is answered with.
\<close>

function conn_ask ::
  "(bytes \<Rightarrow> message option) \<Rightarrow> (nat \<Rightarrow> bytes \<Rightarrow> conn_end + bytes) \<Rightarrow> answers \<Rightarrow> nat \<Rightarrow> room \<Rightarrow> bytes \<Rightarrow>
   (nat \<times> message) option" where
  "conn_ask question answer as k room input =
     (case read_prefixed input of
        None \<Rightarrow> None
      | Some (p, rest) \<Rightarrow>
          (case Option.bind (question p) (\<lambda>req. if told as k req = None then Some req else None) of
             Some req \<Rightarrow> Some (k, req)
           | None \<Rightarrow>
               (case answer k p of
                  Inl e \<Rightarrow> None
                | Inr b \<Rightarrow>
                    (case fut_value (snd (write_prefixed room b)) of
                       Some (Ok room') \<Rightarrow> conn_ask question answer as (Suc k) room' rest
                     | _ \<Rightarrow> None))))"
  by pat_completeness auto
termination
  by (relation "measure (\<lambda>(_, _, _, _, _, input). length input)") (auto dest: read_prefixed_shorter)

declare conn_ask.simps [simp del]

lemma conn_ask_None [simp]: "read_prefixed input = None \<Longrightarrow> conn_ask question answer as k room input = None"
  by (simp add: conn_ask.simps)

lemma stream_induct [case_names stream]:
  fixes input :: bytes
  assumes "\<And>input k room. (\<And>p rest k room. read_prefixed input = Some (p, rest) \<Longrightarrow> P rest k room) \<Longrightarrow> P input k room"
  shows "P input k room"
  using assms by (induction "length input" arbitrary: input k room rule: less_induct) (metis read_prefixed_shorter)

text \<open>A stream listener whose answers depend on the handler through the question of the message.\<close>

locale asking_listener =
  fixes loop :: "(nat \<Rightarrow> handler) \<Rightarrow> nat \<Rightarrow> room \<Rightarrow> bytes \<Rightarrow> bytes \<times> conn_end"
    and answer :: "(nat \<Rightarrow> handler) \<Rightarrow> nat \<Rightarrow> bytes \<Rightarrow> conn_end + bytes"
    and question :: "bytes \<Rightarrow> message option"
  assumes listens: "stream_listener (loop h) (answer h)"
    and answer_cong: "(\<And>req. question p = Some req \<Longrightarrow> fut_value (h k req) = fut_value (h' k req)) \<Longrightarrow>
      answer h k p = answer h' k p"
    and answer_waits: "question p = Some req \<Longrightarrow> fut_value (h k req) = None \<Longrightarrow> answer h k p = Inl Waiting"
begin

abbreviation next_question :: "answers \<Rightarrow> nat \<Rightarrow> room \<Rightarrow> bytes \<Rightarrow> (nat \<times> message) option" where
  "next_question as \<equiv> conn_ask question (answer (replay as)) as"

lemma loop_step:
  assumes "read_prefixed input = Some (p, rest)"
  shows "loop h k room input = (case answer h k p of
      Inl e \<Rightarrow> ([], e) | Inr b \<Rightarrow> after_write (write_prefixed room b) (\<lambda>room. loop h (Suc k) room rest))"
  by (rule stream_listener.one_message [OF listens assms])

lemma told_same:
  assumes "plays h as" "Option.bind (question p) (\<lambda>req. if told as k req = None then Some req else None) = None"
  shows "answer h k p = answer (replay as) k p"
  by (rule answer_cong) (use assms in \<open>auto simp: plays_def split: if_splits\<close>)

lemma loop_decided: "next_question as k room input = None \<Longrightarrow> plays h as \<Longrightarrow> loop h k room input = loop (replay as) k room input"
proof (induction input k room rule: stream_induct)
  case (stream input k room)
  show ?case
  proof (cases "read_prefixed input")
    case None
    then show ?thesis using stream_listener.no_message [OF listens] by simp
  next
    case (Some z)
    obtain p rest where z: "read_prefixed input = Some (p, rest)" using Some by (cases z) simp
    have q: "Option.bind (question p) (\<lambda>req. if told as k req = None then Some req else None) = None"
      using stream.prems(1) z by (auto simp: conn_ask.simps [of _ _ _ _ _ input] split: option.splits)
    have same: "answer h k p = answer (replay as) k p" by (rule told_same [OF stream.prems(2) q])
    show ?thesis
    proof (cases "answer (replay as) k p")
      case (Inl e)
      then show ?thesis using loop_step [OF z] same by simp
    next
      case (Inr b)
      have "loop h (Suc k) room' rest = loop (replay as) (Suc k) room' rest"
        if "fut_value (snd (write_prefixed room b)) = Some (Ok room')" for room'
        using stream.IH [OF z, of "Suc k" room'] stream.prems that z q Inr
        by (simp add: conn_ask.simps [of _ _ _ _ _ input])
      then show ?thesis using loop_step [OF z] same Inr
        by (auto simp: after_write_def split: option.splits res.splits)
    qed
  qed
qed

lemma loop_blocked:
  "next_question as k room input = Some (k', req) \<Longrightarrow> plays h as \<Longrightarrow> fut_value (h k' req) = None \<Longrightarrow>
   snd (loop h k room input) = Waiting"
proof (induction input k room rule: stream_induct)
  case (stream input k room)
  obtain p rest where z: "read_prefixed input = Some (p, rest)"
    using stream.prems(1) by (cases "read_prefixed input") auto
  show ?case
  proof (cases "Option.bind (question p) (\<lambda>req. if told as k req = None then Some req else None)")
    case (Some req')
    then have "question p = Some req" "k' = k"
      using stream.prems(1) z by (auto simp: conn_ask.simps [of _ _ _ _ _ input] split: bind_splits if_splits)
    then show ?thesis using answer_waits stream.prems(3) loop_step [OF z] by simp
  next
    case None
    have same: "answer h k p = answer (replay as) k p" by (rule told_same [OF stream.prems(2) None])
    obtain b room' where b: "answer (replay as) k p = Inr b" "fut_value (snd (write_prefixed room b)) = Some (Ok room')"
        "next_question as (Suc k) room' rest = Some (k', req)"
      using stream.prems(1) z None
      by (auto simp: conn_ask.simps [of _ _ _ _ _ input] split: sum.splits option.splits res.splits)
    then have "snd (loop h (Suc k) room' rest) = Waiting" using stream.IH [OF z] stream.prems by blast
    then show ?thesis using loop_step [OF z] same b by (simp add: after_write_def case_prod_beta)
  qed
qed

lemma next_question_bounds:
  "next_question as k room input = Some (k', req) \<Longrightarrow> told as k' req = None \<and> k \<le> k' \<and> k' < k + length input"
proof (induction input k room rule: stream_induct)
  case (stream input k room)
  obtain p rest where z: "read_prefixed input = Some (p, rest)"
    using stream.prems(1) by (cases "read_prefixed input") auto
  note short = read_prefixed_shorter [OF z]
  show ?case
  proof (cases "Option.bind (question p) (\<lambda>req. if told as k req = None then Some req else None)")
    case (Some req')
    then show ?thesis
      using stream.prems z short by (auto simp: conn_ask.simps [of _ _ _ _ _ input] split: bind_splits if_splits)
  next
    case None
    then obtain room' where "next_question as (Suc k) room' rest = Some (k', req)"
      using stream.prems z by (auto simp: conn_ask.simps [of _ _ _ _ _ input] split: sum.splits option.splits res.splits)
    then show ?thesis using stream.IH [OF z] short by fastforce
  qed
qed

lemma next_question_later:
  "next_question as k room input = Some (k0, req) \<Longrightarrow>
   next_question (as(k0 \<mapsto> (req, r))) k room input = Some (k', req') \<Longrightarrow> k0 < k'"
proof (induction input k room rule: stream_induct)
  case (stream input k room)
  let ?as = "as(k0 \<mapsto> (req, r))"
  obtain p rest where z: "read_prefixed input = Some (p, rest)"
    using stream.prems(1) by (cases "read_prefixed input") auto
  show ?case
  proof (cases "Option.bind (question p) (\<lambda>req. if told as k req = None then Some req else None)")
    case (Some req0)
    then have "question p = Some req" "k0 = k"
      using stream.prems(1) z by (auto simp: conn_ask.simps [of _ _ _ _ _ input] split: bind_splits if_splits)
    then obtain room' where "next_question ?as (Suc k) room' rest = Some (k', req')"
      using stream.prems(2) z
      by (auto simp: conn_ask.simps [of _ _ _ _ _ input] told_upd simp del: fun_upd_apply
          split: sum.splits option.splits res.splits)
    then show ?thesis using next_question_bounds \<open>k0 = k\<close> by fastforce
  next
    case None
    obtain b room' where b: "answer (replay as) k p = Inr b" "fut_value (snd (write_prefixed room b)) = Some (Ok room')"
        "next_question as (Suc k) room' rest = Some (k0, req)"
      using stream.prems(1) z None
      by (auto simp: conn_ask.simps [of _ _ _ _ _ input] split: sum.splits option.splits res.splits)
    then have k0: "k \<noteq> k0" using next_question_bounds by fastforce
    then have "answer (replay ?as) k p = answer (replay as) k p" by (intro answer_cong) (simp add: told_upd)
    then have "next_question ?as (Suc k) room' rest = Some (k', req')"
      using stream.prems(2) z None b k0 by (simp add: conn_ask.simps [of _ _ _ _ _ input] told_upd del: fun_upd_apply)
    then show ?thesis using stream.IH [OF z] b(3) by blast
  qed
qed

lemma front_end_loop:
  "front_end (\<lambda>as. next_question as 0 room input) (\<lambda>h. case_prod Written (loop h 0 room input)) (length input)"
proof
  fix as k req and h :: "nat \<Rightarrow> handler"
  assume "next_question as 0 room input = Some (k, req)" "plays h as" "fut_value (h k req) = None"
  from loop_blocked [OF this] show "reply_pending (case_prod Written (loop h 0 room input))" by (simp add: case_prod_beta)
next
  show "case_prod Written (loop h 0 room input) = case_prod Written (loop (replay as) 0 room input)"
    if "next_question as 0 room input = None" "plays h as" for as h using loop_decided [OF that] by simp
qed (use next_question_bounds next_question_later in fastforce)+

end

text \<open>The three kinds of connection.\<close>

interpretation asking_conn: asking_listener "connection_loop L what" "answer_message L what" "decoded L"
  for L what
  by (rule asking_listener.intro, rule stream_conn.stream_listener_axioms)
    (auto simp: answer_message_def decoded_def split: sum.splits)

interpretation asking_dc: asking_listener "\<lambda>h k. dc_connection L C rn k config h" "dc_answer_message L C rn config"
    "dc_question L C config"
  for L C rn config
proof (rule asking_listener.intro, rule dc_conn.stream_listener_axioms)
  have tcp: "fut_value (dc_tcp_answer L C n config h p) = fut_value (dc_tcp_answer L C n config h' p)"
    if "\<And>req. dc_question L C config p = Some req \<Longrightarrow> fut_value (h req) = fut_value (h' req)" for n h h' p
  proof -
    have "fut_value (respond L C config h p) = fut_value (respond L C config h' p)"
    proof (cases "dc_question L C config p")
      case None
      then show ?thesis by (rule respond_laws(1))
    next
      case (Some req)
      show ?thesis by (rule respond_laws(2) [where req = req]) (simp_all add: Some that)
    qed
    then show ?thesis unfolding dc_tcp_answer_def by (intro fut_value_await_ok_cong) simp_all
  qed
  fix p k h h'
  show "dc_answer_message L C rn config h k p = dc_answer_message L C rn config h' k p"
    if "\<And>req. dc_question L C config p = Some req \<Longrightarrow> fut_value (h k req) = fut_value (h' k req)"
    using tcp [OF that] by (simp add: dc_answer_message_def)
  show "dc_answer_message L C rn config h k p = Inl Waiting"
    if "dc_question L C config p = Some req" "fut_value (h k req) = None" for req
  proof -
    have "fut_value (dc_tcp_answer L C (rn k) config (h k) p) = None"
      using respond_laws(3) [of L C config p req "h k"] that by (simp add: dc_tcp_answer_def await_ok_None)
    then show ?thesis by (simp add: dc_answer_message_def)
  qed
qed

section \<open>All sessions\<close>

fun session_ask :: "served \<Rightarrow> session \<Rightarrow> answers \<Rightarrow> (nat \<times> message) option" where
  "session_ask V (UdpPacket p) as = ask_once (decoded (sv_dns V) p) as"
| "session_ask V (DcPacket rn rn' p) as = ask_once (dc_question (sv_dns V) (sv_crypto V) (sv_dnscrypt V) p) as"
| "session_ask V (DoqStream s) as = ask_once (doq_question (sv_dns V) s) as"
| "session_ask V (DohRequest r) as = ask_once (doh_question (sv_dns V) (sv_b64 V) (sv_creds V) r) as"
| "session_ask V (Doh3Request r) as = ask_once (doh3_question (sv_dns V) (sv_b64 V) (sv_creds V) r) as"
| "session_ask V (TcpConn s room) as =
     conn_ask (decoded (sv_dns V)) (answer_message (sv_dns V) ''unpacking tcp message: '' (replay as)) as 0 room s"
| "session_ask V (DotConn s room) as =
     conn_ask (decoded (sv_dns V)) (answer_message (sv_dns V) ''unpacking dot message: '' (replay as)) as 0 room s"
| "session_ask V (DcConn rn s room) as =
     conn_ask (dc_question (sv_dns V) (sv_crypto V) (sv_dnscrypt V))
       (dc_answer_message (sv_dns V) (sv_crypto V) rn (sv_dnscrypt V) (replay as)) as 0 room s"

fun most_questions :: "session \<Rightarrow> nat" where
  "most_questions (TcpConn s room) = length s"
| "most_questions (DotConn s room) = length s"
| "most_questions (DcConn rn s room) = length s"
| "most_questions _ = 1"

interpretation sessions: front_end "session_ask V x" "session_run V x" "most_questions x"
  for V x
proof -
  have "front_end (session_ask V x) (session_run V x) (most_questions x)"
  proof (cases x)
    case (TcpConn s room)
    have "session_ask V x = (\<lambda>as. asking_conn.next_question (sv_dns V) ''unpacking tcp message: '' as 0 room s)"
      "session_run V x = (\<lambda>h. case_prod Written (connection_loop (sv_dns V) ''unpacking tcp message: '' h 0 room s))"
      using TcpConn by (auto simp: handle_tcp_connection_def)
    then show ?thesis using asking_conn.front_end_loop TcpConn by simp
  next
    case (DotConn s room)
    have "session_ask V x = (\<lambda>as. asking_conn.next_question (sv_dns V) ''unpacking dot message: '' as 0 room s)"
      "session_run V x = (\<lambda>h. case_prod Written (connection_loop (sv_dns V) ''unpacking dot message: '' h 0 room s))"
      using DotConn by (auto simp: dot_handle_connection_def)
    then show ?thesis using asking_conn.front_end_loop DotConn by simp
  next
    case (DcConn rn s room)
    have "session_ask V x = (\<lambda>as. asking_dc.next_question (sv_dns V) (sv_crypto V) rn (sv_dnscrypt V) as 0 room s)"
      "session_run V x = (\<lambda>h. case_prod Written (dc_connection (sv_dns V) (sv_crypto V) rn 0 (sv_dnscrypt V) h room s))"
      using DcConn by auto
    then show ?thesis using asking_dc.front_end_loop DcConn by simp
  qed (auto intro!: udp_front_end dc_udp_front_end doq_front_end doh_front_end doh3_front_end
      simp: session_ask.simps [abs_def] session_run.simps [abs_def] simp del: One_nat_def)
  then show "front_end (session_ask V x) (session_run V x) (most_questions x)" .
qed

end
