(* ===== verification/Serving.thy ===== *)
theory Serving
  imports Front_Ends Proxy_Progress
begin

text \<open>
  The whole serving process: the sessions of the listeners and the requests of the handler, which the
  sessions wait for, in any interleaving. A session is at its answers so far and, while the handler
  works on its next question, at that question and the number of the request.
\<close>

section \<open>What a peer may be told\<close>

text \<open>The output of a connection: frames of answers to the messages of its input, in their order, or a part of them.\<close>

definition conn_proper :: "(nat \<Rightarrow> bytes \<Rightarrow> bytes \<Rightarrow> bool) \<Rightarrow> bytes \<Rightarrow> bytes \<Rightarrow> bool" where
  "conn_proper right input out \<longleftrightarrow>
     (\<exists>ms bs n. carries input ms \<and> out = take n (concat (map frame bs)) \<and> length bs \<le> length ms \<and>
       (\<forall>k < length bs. right k (ms ! k) (bs ! k)))"

definition right_bytes :: "dnslib \<Rightarrow> bytes \<Rightarrow> bytes \<Rightarrow> bool" where
  "right_bytes L p b \<longleftrightarrow>
     (\<exists>req resp. from_bytes L p = Inr req \<and> same_question L req resp \<and> to_bytes L resp = Inr b)"

text \<open>The DNSCrypt listener's response to a packet: its certificate, or an answer to what the packet encrypts.\<close>

definition right_dc :: "served \<Rightarrow> bytes \<Rightarrow> dc_response \<Rightarrow> bool" where
  "right_dc V p r \<longleftrightarrow>
     (\<exists>resp. try_answer_provider_txt (sv_dns V) (sv_dnscrypt V) p = Some resp \<and> r = PlainResp resp) \<or>
     (\<exists>m pk n rb. decrypt_query (sv_crypto V) (srv_secret_key (sv_dnscrypt V)) (srv_client_magic (sv_dnscrypt V)) p = Ok (m, pk, n) \<and>
       right_bytes (sv_dns V) m rb \<and> r = EncryptedResp pk n rb)"

definition right_dc_bytes :: "served \<Rightarrow> bytes \<Rightarrow> bytes \<Rightarrow> bytes \<Rightarrow> bool" where
  "right_dc_bytes V rn p b \<longleftrightarrow>
     (\<exists>r. right_dc V p r \<and> (case r of
        PlainResp resp \<Rightarrow> to_bytes (sv_dns V) resp = Inr b
      | EncryptedResp pk n rb \<Rightarrow> encrypt_server_response (sv_crypto V) rn (srv_secret_key (sv_dnscrypt V)) pk n rb = Ok b))"

definition right_http :: "dnslib \<Rightarrow> message option \<Rightarrow> http_response \<Rightarrow> bool" where
  "right_http L q r \<longleftrightarrow> status r \<noteq> 200 \<or>
     (\<exists>req resp. q = Some req \<and> same_question L req resp \<and> encode_response L resp = Ok (body r))"

fun proper :: "served \<Rightarrow> session \<Rightarrow> reply \<Rightarrow> bool" where
  "proper V (UdpPacket p) (Datagram r) \<longleftrightarrow> (\<forall>b. r = Some (Ok b) \<longrightarrow>
     (\<exists>req resp. from_bytes (sv_dns V) p = Inr req \<and> same_question (sv_dns V) req resp \<and> fit_udp (sv_dns V) resp = Ok b))"
| "proper V (DcPacket rn rn' p) (Datagram r) \<longleftrightarrow> (\<forall>b. r = Some (Ok b) \<longrightarrow>
     (\<exists>d. right_dc V p d \<and> dc_fit_udp (sv_dns V) (sv_crypto V) rn rn' (sv_dnscrypt V) d = Ok b))"
| "proper V (DoqStream s) (Datagram r) \<longleftrightarrow> (\<forall>b. r = Some (Ok b) \<longrightarrow>
     (\<exists>req resp rb. doq_question (sv_dns V) s = Some req \<and> same_question (sv_dns V) req resp \<and>
       to_bytes (sv_dns V) (resp\<lparr>msg_id := 0\<rparr>) = Inr rb \<and> b = frame rb))"
| "proper V (DohRequest q) (HttpReply r) \<longleftrightarrow> (\<forall>h. r = Some (Ok h) \<longrightarrow>
     right_http (sv_dns V) (doh_question (sv_dns V) (sv_b64 V) (sv_creds V) q) h)"
| "proper V (Doh3Request q) (HttpReply r) \<longleftrightarrow> (\<forall>h. r = Some (Ok h) \<longrightarrow>
     right_http (sv_dns V) (doh3_question (sv_dns V) (sv_b64 V) (sv_creds V) q) h)"
| "proper V (TcpConn s room) (Written out e) \<longleftrightarrow> conn_proper (\<lambda>_. right_bytes (sv_dns V)) s out"
| "proper V (DotConn s room) (Written out e) \<longleftrightarrow> conn_proper (\<lambda>_. right_bytes (sv_dns V)) s out"
| "proper V (DcConn rn s room) (Written out e) \<longleftrightarrow> conn_proper (\<lambda>k. right_dc_bytes V (rn k)) s out"
| "proper V _ _ \<longleftrightarrow> False"

section \<open>Right answers of the handler lead to proper replies\<close>

definition right_answers :: "dnslib \<Rightarrow> answers \<Rightarrow> bool" where
  "right_answers L as \<longleftrightarrow> (\<forall>k req resp. told as k req = Some (Ok resp) \<longrightarrow> same_question L req resp)"

lemma answer_messages_nth:
  "answer_messages answer k ms = (bs, e) \<Longrightarrow>
   length bs \<le> length ms \<and> (\<forall>i < length bs. answer (k + i) (ms ! i) = Inr (bs ! i))"
proof (induction answer k ms arbitrary: bs rule: answer_messages.induct)
  case (2 answer k p ps)
  show ?case
  proof (cases bs)
    case (Cons b bs')
    then have "answer k p = Inr b" "answer_messages answer (Suc k) ps = (bs', e)"
      using "2.prems" by (auto split: sum.splits if_splits prod.splits)
    with "2.IH" [of b bs'] show ?thesis
      using "2.prems" Cons by (auto simp: nth_Cons split: nat.splits if_splits prod.splits)
  qed simp
qed simp

lemma taken_by_take: "\<exists>n. fst (taken_by room (out, e)) = take n out"
  by (cases room) (auto intro: exI [of _ "length out"])

lemma conn_properI:
  assumes "stream_listener loop answer" "\<And>k p b. answer k p = Inr b \<Longrightarrow> right k p b"
  shows "conn_proper right input (fst (loop 0 room input))"
proof -
  obtain ms where ms: "carries input ms" using carries_some by blast
  obtain bs e where a: "answer_messages answer 0 ms = (bs, e)" by (cases "answer_messages answer 0 ms")
  obtain n where "fst (taken_by room (concat (map frame bs), e)) = take n (concat (map frame bs))"
    using taken_by_take by blast
  moreover have "loop 0 room input = taken_by room (concat (map frame bs), e)"
    using stream_listener.answers_in_order [OF assms(1) ms, of 0 room] a by (simp add: stream_output_def)
  ultimately show ?thesis
    using ms answer_messages_nth [OF a] assms(2) unfolding conn_proper_def by (metis add_0)
qed

lemma answer_message_right:
  assumes "right_answers L as" "answer_message L what (replay as) k p = Inr b"
  shows "right_bytes L p b"
  using assms
  by (fastforce simp: answer_message_def right_bytes_def right_answers_def split: sum.splits option.splits res.splits)

lemma respond_right:
  assumes "right_answers (sv_dns V) as"
    and "fut_value (respond (sv_dns V) (sv_crypto V) (sv_dnscrypt V) (replay as k) p) = Some (Ok r)"
  shows "right_dc V p r"
proof (cases "try_answer_provider_txt (sv_dns V) (sv_dnscrypt V) p")
  case None
  have lift: "lift_sum f s = Ok x \<longleftrightarrow> s = Inr x" for f s x by (cases s) auto
  show ?thesis using assms None
    by (fastforce simp: respond_def fut_simps lift right_dc_def right_bytes_def right_answers_def)
next
  case (Some resp)
  then show ?thesis using assms(2) by (simp add: respond_def right_dc_def)
qed

lemma dc_answer_message_right:
  assumes "right_answers (sv_dns V) as"
    and "dc_answer_message (sv_dns V) (sv_crypto V) rn (sv_dnscrypt V) (replay as) k p = Inr b"
  shows "right_dc_bytes V (rn k) p b"
proof -
  have "fut_value (dc_tcp_answer (sv_dns V) (sv_crypto V) (rn k) (sv_dnscrypt V) (replay as k) p) = Some (Ok b)"
    using assms(2) by (auto simp: dc_answer_message_def split: option.splits res.splits)
  then obtain r where r: "fut_value (respond (sv_dns V) (sv_crypto V) (sv_dnscrypt V) (replay as k) p) = Some (Ok r)"
    and b: "(case r of PlainResp resp \<Rightarrow> lift_sum Pack (to_bytes (sv_dns V) resp)
        | EncryptedResp pk n rb \<Rightarrow>
            encrypt_server_response (sv_crypto V) (rn k) (srv_secret_key (sv_dnscrypt V)) pk n rb) = Ok b"
    by (auto simp: dc_tcp_answer_def fut_value_await_ok)
  show ?thesis
    using respond_right [OF assms(1) r] b unfolding right_dc_bytes_def
    by (intro exI [of _ r]) (auto simp: lift_sum_eq_Ok split: dc_response.splits)
qed

lemma http_right:
  assumes "right_answers L as"
  shows "fut_value (handle_request L B (replay as 0) creds q) = Some (Ok r) \<Longrightarrow> right_http L (doh_question L B creds q) r"
    "fut_value (h3_handle_request L B (replay as 0) creds q) = Some (Ok r) \<Longrightarrow> right_http L (doh3_question L B creds q) r"
proof -
  assume "fut_value (handle_request L B (replay as 0) creds q) = Some (Ok r)"
  then obtain z where z: "fut_value (handle_request_inner L B (replay as 0) creds q) = Some z"
      "(case z of Ok resp \<Rightarrow> Ok resp | Err e \<Rightarrow> Ok (error_response 400) | Panic \<Rightarrow> Panic) = (Ok r :: http_response dres)"
    by (auto simp: handle_request_def)
  then have r: "status r \<noteq> 200 \<or> fut_value (handle_request_inner L B (replay as 0) creds q) = Some (Ok r)"
    by (cases z) (auto simp: error_response_def)
  have answer: "right_http L (ok_part (decode_request L B (dns_param_of q) b)) r"
    if "fut_value (await_ok (now (decode_request L B (dns_param_of q) b)) (\<lambda>query.
          await_ok (replay as 0 query) (\<lambda>resp.
          await_ok (now (encode_response L resp)) (\<lambda>bytes. now (Ok (dns_response 200 bytes)))))) = Some (Ok r)" for b
    using that assms
    by (cases "decode_request L B (dns_param_of q) b")
      (fastforce simp: fut_value_await_ok right_http_def right_answers_def ok_part_def dns_response_def)+
  show "right_http L (doh_question L B creds q) r"
  proof (cases "status r \<noteq> 200 \<or> refused creds q")
    case True
    then show ?thesis using r by (auto simp: right_http_def handle_request_inner_def unauthorized_response_def)
  next
    case False
    then have r: "fut_value (handle_request_inner L B (replay as 0) creds q) = Some (Ok r)" using r by blast
    show ?thesis
    proof (cases "in_method q")
      case GET
      then show ?thesis using r answer False by (simp add: handle_request_inner_def doh_question_def Let_def)
    next
      case POST
      then obtain b where "fut_value (in_body q) = Some (Ok b)" "length b \<le> 65535"
        using r False by (auto simp: handle_request_inner_def Let_def fut_value_await_ok fut_value_lift_err_ok split: if_splits)
      then show ?thesis using r answer [of b] False POST
        by (simp add: handle_request_inner_def doh_question_def Let_def fut_value_await_ok [of "lift_err _ _"]
            fut_value_lift_err_ok)
    next
      case (OtherMethod m)
      then show ?thesis using r False by (auto simp: handle_request_inner_def error_response_def Let_def)
    qed
  qed
next
  assume r: "fut_value (h3_handle_request L B (replay as 0) creds q) = Some (Ok r)"
  have answer: "right_http L (ok_part (decode_request L B (dns_param_of q) b)) r"
    if "fut_value (case decode_request L B (dns_param_of q) b of
        Err e \<Rightarrow> now (Ok (dns_response 400 []))
      | Panic \<Rightarrow> now Panic
      | Ok query \<Rightarrow>
          await_ok (replay as 0 query) (\<lambda>resp.
          await_ok (now (encode_response L resp)) (\<lambda>bytes. now (Ok (dns_response 200 bytes))))) = Some (Ok r)" for b
    using that assms
    by (cases "decode_request L B (dns_param_of q) b")
      (fastforce simp: fut_value_await_ok right_http_def right_answers_def ok_part_def dns_response_def)+
  show "right_http L (doh3_question L B creds q) r"
  proof (cases "in_method q")
    case GET
    then show ?thesis using r answer
      by (auto simp: h3_handle_request_def doh3_question_def right_http_def unauthorized_response_def Let_def split: if_splits)
  next
    case POST
    then show ?thesis using r answer
      by (cases "read_chunks (in_chunks q) (in_chunk_error q) []")
        (auto simp: h3_handle_request_def doh3_question_def right_http_def unauthorized_response_def ok_part_def Let_def
          split: if_splits)
  next
    case (OtherMethod m)
    then show ?thesis using r
      by (auto simp: h3_handle_request_def right_http_def unauthorized_response_def dns_response_def Let_def split: if_splits)
  qed
qed

lemma doq_right:
  assumes "right_answers L as" "fut_value (doq_handle_stream L early (replay as 0) s) = Some (Ok b)"
  shows "\<exists>req resp rb. doq_question L s = Some req \<and> same_question L req resp \<and>
    to_bytes L (resp\<lparr>msg_id := 0\<rparr>) = Inr rb \<and> b = frame rb"
  using assms
  by (fastforce simp: doq_handle_stream_def doq_question_def decoded_def frame_def fut_simps right_answers_def Let_def
      lift_sum_eq_Ok split: list.splits if_splits)

lemma proper_run:
  assumes "right_answers (sv_dns V) as"
  shows "proper V x (session_run V x (replay as))"
proof (cases x)
  case (UdpPacket p)
  show ?thesis using assms UdpPacket
    by (fastforce simp: handle_udp_packet_def fut_simps lift_sum_eq_Ok right_answers_def)
next
  case (DcPacket rn rn' p)
  then show ?thesis using respond_right [OF assms] by (fastforce simp: dc_handle_udp_packet_def fut_simps)
next
  case (DoqStream s)
  then show ?thesis using doq_right [OF assms] by auto
next
  case (DohRequest q)
  then show ?thesis using http_right(1) [OF assms] by auto
next
  case (Doh3Request q)
  then show ?thesis using http_right(2) [OF assms] by auto
next
  case (TcpConn s room)
  then show ?thesis
    using conn_properI [OF stream_conn.stream_listener_axioms, of _ _ "replay as" "\<lambda>_. right_bytes (sv_dns V)"]
      answer_message_right [OF assms] by (simp add: handle_tcp_connection_def case_prod_beta)
next
  case (DotConn s room)
  then show ?thesis
    using conn_properI [OF stream_conn.stream_listener_axioms, of _ _ "replay as" "\<lambda>_. right_bytes (sv_dns V)"]
      answer_message_right [OF assms] by (simp add: dot_handle_connection_def case_prod_beta)
next
  case (DcConn rn s room)
  then show ?thesis
    using conn_properI [OF dc_conn.stream_listener_axioms, of _ _ _ _ "replay as" "\<lambda>k. right_dc_bytes V (rn k)"]
      dc_answer_message_right [OF assms] by (simp add: case_prod_beta)
qed


section \<open>The steps of the process\<close>

text \<open>\<open>Some (k, req, i)\<close>: the session waits for the answer to its question \<open>k\<close>, which is request number \<open>i\<close>.\<close>

type_synonym waiting = "(nat \<times> message \<times> nat) option"

record ('h, 'c) serving =
  sg_running :: "('h, 'c) running"
  sg_sessions :: "(session \<times> answers \<times> waiting) list"

definition sg_init :: "('h, 'c) proxy \<Rightarrow> nat \<Rightarrow> ('h, 'c) serving" where
  "sg_init px t = \<lparr>sg_running = rn_init px t, sg_sessions = []\<rparr>"

definition has_session :: "('h, 'c) serving \<Rightarrow> nat \<Rightarrow> session \<times> answers \<times> waiting \<Rightarrow> bool" where
  "has_session s n x \<longleftrightarrow> n < length (sg_sessions s) \<and> sg_sessions s ! n = x"

definition set_session :: "nat \<Rightarrow> session \<times> answers \<times> waiting \<Rightarrow> ('h, 'c) serving \<Rightarrow> ('h, 'c) serving" where
  "set_session n x s = s\<lparr>sg_sessions := (sg_sessions s)[n := x]\<rparr>"

text \<open>A session calls the handler and takes its answer; in between, the handler works.\<close>

inductive session_step ::
  "served \<Rightarrow> 'c entry_lru \<Rightarrow> ('h, 'c) serving \<Rightarrow> ('h, 'c) serving \<Rightarrow> bool" for V K s where
  handling: "work_step (sv_dns V) K (sg_running s) r \<Longrightarrow> session_step V K s (s\<lparr>sg_running := r\<rparr>)"
| calling: "\<lbrakk>has_session s n (x, as, None); session_ask V x as = Some (k, req)\<rbrakk> \<Longrightarrow>
    session_step V K s (set_session n (x, as, Some (k, req, length (rn_tasks (sg_running s))))
      (s\<lparr>sg_running := (sg_running s)\<lparr>rn_tasks := rn_tasks (sg_running s) @ [(req, Phase Started)]\<rparr>\<rparr>))"
| taking: "\<lbrakk>has_session s n (x, as, Some (k, req, i)); has_task (sg_running s) i (req, Phase (Finished r))\<rbrakk> \<Longrightarrow>
    session_step V K s (set_session n (x, as(k \<mapsto> (req, r)), None) s)"

inductive serving_step ::
  "served \<Rightarrow> 'c entry_lru \<Rightarrow> ('h, 'c) serving \<Rightarrow> ('h, 'c) serving \<Rightarrow> bool" for V K s where
  passing: "serving_step V K s (s\<lparr>sg_running := (sg_running s)\<lparr>rn_clock := rn_clock (sg_running s) + d\<rparr>\<rparr>)"
| accepting: "serving_step V K s (s\<lparr>sg_sessions := sg_sessions s @ [(x, Map.empty, None)]\<rparr>)"
| stepping: "session_step V K s s' \<Longrightarrow> serving_step V K s s'"

definition serving_reaches ::
  "served \<Rightarrow> 'c entry_lru \<Rightarrow> ('h, 'c) proxy \<Rightarrow> ('h, 'c) serving \<Rightarrow> bool" where
  "serving_reaches V K px s \<longleftrightarrow> (\<exists>t. (serving_step V K)\<^sup>*\<^sup>* (sg_init px t) s)"

lemma set_session_sel [simp]:
  "sg_running (set_session n x s) = sg_running s" "sg_sessions (set_session n x s) = (sg_sessions s)[n := x]"
  by (simp_all add: set_session_def)

text \<open>The requests of the sessions run like any others.\<close>

lemma serving_step_proxy:
  assumes "serving_step V K s s'"
  shows "(proxy_step (sv_dns V) K)\<^sup>*\<^sup>* (sg_running s) (sg_running s')"
  using assms
proof cases
  case stepping
  then show ?thesis by cases (auto intro: proxy_step.intros)
qed (auto intro: proxy_step.intros)

lemma serving_reaches_proxy:
  assumes "serving_reaches V K px s"
  shows "proxy_reaches (sv_dns V) K px (sg_running s)"
proof -
  obtain t where "(serving_step V K)\<^sup>*\<^sup>* (sg_init px t) s" using assms by (auto simp: serving_reaches_def)
  then have "(proxy_step (sv_dns V) K)\<^sup>*\<^sup>* (sg_running (sg_init px t)) (sg_running s)"
    by induction (auto dest: serving_step_proxy)
  then show ?thesis by (auto simp: proxy_reaches_def sg_init_def)
qed

lemma handler_steps_serving:
  assumes "(handler_step (sv_dns V) K)\<^sup>*\<^sup>* (sg_running s) r"
  shows "(serving_step V K)\<^sup>*\<^sup>* s (s\<lparr>sg_running := r\<rparr>)"
  using assms
proof induction
  case (step r r')
  let ?s = "s\<lparr>sg_running := r\<rparr>"
  have "serving_step V K ?s (?s\<lparr>sg_running := r'\<rparr>)"
    using step(2) serving_step.passing [of V K ?s] serving_step.stepping [OF session_step.handling [of V K ?s r']]
    by (auto simp: handler_step_def)
  then show ?case using step.IH by (simp add: rtranclp.rtrancl_into_rtrancl)
qed simp

text \<open>A step of the handler changes one unfinished request, and not what it asks.\<close>

lemma work_step_task:
  assumes "work_step L K s s'"
  shows "\<exists>i req p p'. has_task s i (req, p) \<and> \<not> finished (req, p) \<and> rn_tasks s' = (rn_tasks s)[i := (req, p')]"
  using assms by cases (force simp: finished_def)+

lemma work_step_keeps:
  assumes "work_step L K s s'"
  shows "length (rn_tasks s') = length (rn_tasks s)"
    "i < length (rn_tasks s) \<Longrightarrow> fst (rn_tasks s' ! i) = fst (rn_tasks s ! i)"
    "y \<in> set (rn_tasks s) \<Longrightarrow> finished y \<Longrightarrow> y \<in> set (rn_tasks s')"
proof -
  obtain j req p p' where j: "has_task s j (req, p)" "\<not> finished (req, p)" "rn_tasks s' = (rn_tasks s)[j := (req, p')]"
    using work_step_task [OF assms] by blast
  show "length (rn_tasks s') = length (rn_tasks s)" using j by simp
  show "fst (rn_tasks s' ! i) = fst (rn_tasks s ! i)" if "i < length (rn_tasks s)"
    using j that by (cases "i = j") (auto simp: has_task_def)
  show "y \<in> set (rn_tasks s')" if y: "y \<in> set (rn_tasks s)" "finished y"
  proof -
    obtain i where i: "i < length (rn_tasks s)" "rn_tasks s ! i = y" using y(1) by (auto simp: in_set_conv_nth)
    then have "i \<noteq> j" using j(1,2) y(2) by (auto simp: has_task_def)
    then have "rn_tasks s' ! i = y" "i < length (rn_tasks s')" using i j(3) by auto
    then show ?thesis using nth_mem by blast
  qed
qed

section \<open>Sessions and their requests\<close>

text \<open>Every answer a session has is that of a finished request, and it waits for the question it asked.\<close>

definition session_ok :: "served \<Rightarrow> (message \<times> 'h progress) list \<Rightarrow> session \<times> answers \<times> waiting \<Rightarrow> bool" where
  "session_ok V ts z \<longleftrightarrow>
     (case z of (x, as, w) \<Rightarrow>
        (\<forall>k req r. as k = Some (req, r) \<longrightarrow> (req, Phase (Finished r)) \<in> set ts) \<and>
        (\<forall>k req i. w = Some (k, req, i) \<longrightarrow>
          session_ask V x as = Some (k, req) \<and> i < length ts \<and> fst (ts ! i) = req))"

definition sessions_ok :: "served \<Rightarrow> ('h, 'c) serving \<Rightarrow> bool" where
  "sessions_ok V s \<longleftrightarrow> (\<forall>z \<in> set (sg_sessions s). session_ok V (rn_tasks (sg_running s)) z)"

lemma session_ok_mono:
  assumes "session_ok V ts z" "length ts \<le> length ts'" "\<And>i. i < length ts \<Longrightarrow> fst (ts' ! i) = fst (ts ! i)"
    and "\<And>y. y \<in> set ts \<Longrightarrow> finished y \<Longrightarrow> y \<in> set ts'"
  shows "session_ok V ts' z"
  using assms unfolding session_ok_def by (fastforce simp: finished_def split: prod.splits)

lemma sessions_ok_step:
  assumes "sessions_ok V s" "session_step V K s s'"
  shows "sessions_ok V s'"
  using assms(2)
proof cases
  case (handling r)
  have "session_ok V (rn_tasks r) z" if "session_ok V (rn_tasks (sg_running s)) z" for z
    using session_ok_mono [OF that, of "rn_tasks r"] work_step_keeps [OF handling(2)] by simp
  then show ?thesis using assms(1) handling(1) by (simp add: sessions_ok_def)
next
  case (calling n x as k req)
  let ?ts = "rn_tasks (sg_running s)"
  have mono: "session_ok V (?ts @ [(req, Phase Started)]) z" if "session_ok V ?ts z" for z
    using session_ok_mono [OF that, of "?ts @ [(req, Phase Started)]"] by (simp add: nth_append)
  have z: "(x, as, None) \<in> set (sg_sessions s)" using calling(2) nth_mem by (fastforce simp: has_session_def)
  then have "session_ok V (?ts @ [(req, Phase Started)]) (x, as, None)" using assms(1) mono by (simp add: sessions_ok_def)
  then have "session_ok V (?ts @ [(req, Phase Started)]) (x, as, Some (k, req, length ?ts))"
    using calling(3) by (simp add: session_ok_def)
  then show ?thesis using assms(1) calling(1) mono set_update_subset_insert
    by (fastforce simp: sessions_ok_def)
next
  case (taking n x as k req i r)
  let ?ts = "rn_tasks (sg_running s)"
  have "(x, as, Some (k, req, i)) \<in> set (sg_sessions s)" using taking(2) nth_mem by (fastforce simp: has_session_def)
  then have "session_ok V ?ts (x, as, Some (k, req, i))" using assms(1) by (simp add: sessions_ok_def)
  moreover have "(req, Phase (Finished r)) \<in> set ?ts" using taking(3) nth_mem by (fastforce simp: has_task_def)
  ultimately have "session_ok V ?ts (x, as(k \<mapsto> (req, r)), None)" by (auto simp: session_ok_def)
  then show ?thesis using assms(1) taking(1) set_update_subset_insert by (fastforce simp: sessions_ok_def)
qed

lemma sessions_ok_serving:
  assumes "sessions_ok V s" "serving_step V K s s'"
  shows "sessions_ok V s'"
  using assms(2)
proof cases
  case stepping
  then show ?thesis by (rule sessions_ok_step [OF assms(1)])
qed (use assms(1) in \<open>auto simp: sessions_ok_def session_ok_def\<close>)

lemma sessions_ok_reaches:
  assumes "serving_reaches V K px s"
  shows "sessions_ok V s"
proof -
  obtain t where "(serving_step V K)\<^sup>*\<^sup>* (sg_init px t) s" using assms by (auto simp: serving_reaches_def)
  then show ?thesis
  proof induction
    case base
    show ?case by (simp add: sg_init_def sessions_ok_def)
  qed (rule sessions_ok_serving)
qed

text \<open>So a session's answers are right when the handler's are.\<close>

lemma session_right_answers:
  assumes "sessions_ok V s" "(x, as, w) \<in> set (sg_sessions s)"
    and "\<And>req resp. (req, Phase (Finished (Ok resp))) \<in> set (rn_tasks (sg_running s)) \<Longrightarrow> same_question L req resp"
  shows "right_answers L as"
proof -
  have "session_ok V (rn_tasks (sg_running s)) (x, as, w)" using assms(1,2) by (auto simp: sessions_ok_def)
  then show ?thesis using assms(3)
    by (fastforce simp: right_answers_def session_ok_def told_def split: option.splits prod.splits if_splits)
qed


section \<open>Every session comes to its end\<close>

definition settled_session :: "served \<Rightarrow> session \<times> answers \<times> waiting \<Rightarrow> bool" where
  "settled_session V z \<longleftrightarrow> (case z of (x, as, w) \<Rightarrow> w = None \<and> session_ask V x as = None)"

lemma unsettled_moves:
  assumes "sessions_ok V s" "locks_ok (sg_running s)" "proxy_inv (sv_dns V) K opts (sg_running s)"
    and "z \<in> set (sg_sessions s)" "\<not> settled_session V z"
  shows "\<exists>s'. session_step V K s s'"
proof -
  obtain x as w where "z = (x, as, w)" by (cases z)
  then obtain n where z: "has_session s n (x, as, w)" "z = (x, as, w)"
    using assms(4) by (auto simp: has_session_def in_set_conv_nth)
  show ?thesis
  proof (cases w)
    case None
    then obtain k req where "session_ask V x as = Some (k, req)" using assms(5) z(2) by (auto simp: settled_session_def)
    from session_step.calling [OF _ this] show ?thesis using z(1) None by blast
  next
    case (Some v)
    obtain k req i where v: "v = (k, req, i)" by (cases v)
    have "session_ok V (rn_tasks (sg_running s)) z" using assms(1,4) by (simp add: sessions_ok_def)
    then have i: "i < length (rn_tasks (sg_running s))" "fst (rn_tasks (sg_running s) ! i) = req"
      using z(2) Some v by (simp_all add: session_ok_def)
    show ?thesis
    proof (cases "finished (rn_tasks (sg_running s) ! i)")
      case True
      then obtain r where "has_task (sg_running s) i (req, Phase (Finished r))"
        using i by (auto simp: finished_def has_task_def prod_eq_iff)
      from session_step.taking [OF _ this] show ?thesis using z(1) Some v by blast
    next
      case False
      then obtain r where "work_step (sv_dns V) K (sg_running s) r"
        using unfinished_moves [OF assms(2,3)] i(1) nth_mem by blast
      then show ?thesis using session_step.handling by blast
    qed
  qed
qed

text \<open>The widest rule of a configuration bounds what one question may cost.\<close>

definition widest :: "'h upstream_config \<Rightarrow> nat" where
  "widest cfg = fold max (map (\<lambda>g. length (upstreams g)) (default_upstreams cfg # map snd (domain_upstreams cfg))) 0"

definition question_cost :: "'h upstream_config \<Rightarrow> nat" where
  "question_cost cfg = 14 * widest cfg + 6"

lemma le_fold_max: "x \<in> set xs \<or> x \<le> a \<Longrightarrow> (x :: nat) \<le> fold max xs a"
proof (induction xs arbitrary: a)
  case (Cons y ys)
  have "x \<in> set ys \<or> x \<le> max y a" using Cons.prems by (metis le_max_iff_disj max.cobounded1 set_ConsD)
  then show ?case using Cons.IH [of "max y a"] by simp
qed simp

lemma group_for_cases:
  "group_for cfg dname = default_upstreams cfg \<or> group_for cfg dname \<in> snd ` set (domain_upstreams cfg)"
  by (auto simp: group_for_def dest!: map_of_SomeD split: option.splits intro: rev_image_eqI)

lemma most_steps_widest: "most_steps L cfg req + 2 \<le> question_cost cfg"
proof -
  have "length (upstreams (group_for cfg (query_name L req))) \<le> widest cfg"
    unfolding widest_def by (rule le_fold_max) (use group_for_cases [of cfg] in force)
  then show ?thesis by (simp add: most_steps_def question_cost_def)
qed

definition session_rank :: "served \<Rightarrow> nat \<Rightarrow> session \<times> answers \<times> waiting \<Rightarrow> nat" where
  "session_rank V c z =
     (case z of (x, as, w) \<Rightarrow>
       (case session_ask V x as of
          None \<Rightarrow> 0
        | Some (k, req) \<Rightarrow> if w = None then (most_questions x - k) * c else (most_questions x - Suc k) * c + 1))"

definition serving_left :: "served \<Rightarrow> 'h upstream_config \<Rightarrow> ('h, 'c) serving \<Rightarrow> nat" where
  "serving_left V cfg s = work_left (sv_dns V) cfg (sg_running s) +
     sum_list (map (session_rank V (question_cost cfg)) (sg_sessions s))"

lemma sum_list_update_lt:
  fixes f :: "'a \<Rightarrow> nat"
  assumes "n < length xs" "f y + d \<le> f (xs ! n)"
  shows "sum_list (map f (xs[n := y])) + d \<le> sum_list (map f xs)"
  using assms by (induction xs arbitrary: n) (auto simp: nth_Cons split: nat.splits)

lemma asked_rank:
  assumes "session_ask V x as = Some (k, req)" "0 < c"
  shows "session_rank V c (x, as, Some (k, req, i)) + (c - 1) \<le> session_rank V c (x, as, None)"
proof -
  have "k < most_questions x" using sessions.untold [OF assms(1)] by simp
  then have "most_questions x - k = Suc (most_questions x - Suc k)" by simp
  then show ?thesis using assms by (simp add: session_rank_def)
qed

lemma taken_rank:
  assumes "session_ask V x as = Some (k, req)"
  shows "session_rank V c (x, as(k \<mapsto> (req, r)), None) < session_rank V c (x, as, Some (k, req, i))"
proof (cases "session_ask V x (as(k \<mapsto> (req, r)))")
  case (Some z)
  obtain k' req' where z: "z = (k', req')" by (cases z)
  have "k < k'" using sessions.later [OF assms] Some z by blast
  then have "(most_questions x - k') * c \<le> (most_questions x - Suc k) * c" by (intro mult_le_mono1) simp
  then show ?thesis using assms Some z by (simp add: session_rank_def less_Suc_eq_le del: mult_le_cancel2)
qed (use assms in \<open>simp add: session_rank_def\<close>)


lemma has_sessionD: "has_session s n z \<Longrightarrow> n < length (sg_sessions s) \<and> sg_sessions s ! n = z \<and> z \<in> set (sg_sessions s)"
  by (auto simp: has_session_def)

lemma session_step_rank:
  assumes "sessions_ok V s" "rules_inv (sv_dns V) cfg (sg_running s)" "session_step V K s s'"
  shows "serving_left V cfg s' < serving_left V cfg s"
  using assms(3)
proof cases
  case (handling r)
  then show ?thesis using work_step_rank [OF assms(2) handling(2)] by (simp add: serving_left_def)
next
  case (calling n x as k req)
  let ?c = "question_cost cfg"
  have "session_rank V ?c (x, as, Some (k, req, i)) + (?c - 1) \<le> session_rank V ?c (sg_sessions s ! n)" for i
    using asked_rank [OF calling(3), of ?c i] has_sessionD [OF calling(2)] by (simp add: question_cost_def)
  from sum_list_update_lt [OF _ this]
  have "sum_list (map (session_rank V ?c) (sg_sessions s')) + (?c - 1) \<le> sum_list (map (session_rank V ?c) (sg_sessions s))"
    using has_sessionD [OF calling(2)] calling(1) by simp
  moreover have "work_left (sv_dns V) cfg (sg_running s') = work_left (sv_dns V) cfg (sg_running s) + most_steps (sv_dns V) cfg req"
    using calling(1) by (simp add: work_left_def most_steps_def rule_upstreams_def)
  ultimately show ?thesis using most_steps_widest [of "sv_dns V" cfg req] by (simp add: serving_left_def)
next
  case (taking n x as k req i r)
  let ?c = "question_cost cfg"
  have "session_ask V x as = Some (k, req)"
    using assms(1) has_sessionD [OF taking(2)] by (fastforce simp: sessions_ok_def session_ok_def)
  from taken_rank [OF this, of ?c r i]
  have "session_rank V ?c (x, as(k \<mapsto> (req, r)), None) + 1 \<le> session_rank V ?c (sg_sessions s ! n)"
    using has_sessionD [OF taking(2)] by simp
  from sum_list_update_lt [OF _ this]
  have "sum_list (map (session_rank V ?c) (sg_sessions s')) + 1 \<le> sum_list (map (session_rank V ?c) (sg_sessions s))"
    using has_sessionD [OF taking(2)] taking(1) by simp
  then show ?thesis using taking(1) by (simp add: serving_left_def)
qed

text \<open>Steps of the sessions and requests that are there, with time passing between them.\<close>

definition serving_busy :: "served \<Rightarrow> 'c entry_lru \<Rightarrow> ('h, 'c) serving \<Rightarrow> ('h, 'c) serving \<Rightarrow> bool" where
  "serving_busy V K s s' \<longleftrightarrow>
     (\<exists>d. session_step V K (s\<lparr>sg_running := (sg_running s)\<lparr>rn_clock := rn_clock (sg_running s) + d\<rparr>\<rparr>) s')"

lemma rules_inv_proxy:
  "(proxy_step L K)\<^sup>*\<^sup>* s s' \<Longrightarrow> rules_inv L cfg s \<Longrightarrow> rules_inv L cfg s'"
  by (induction rule: rtranclp_induct) (auto intro: rules_inv_step)

lemma serving_busy_rank:
  assumes "sessions_ok V s" "rules_inv (sv_dns V) cfg (sg_running s)" "serving_busy V K s s'"
  shows "serving_left V cfg s' < serving_left V cfg s \<and> sessions_ok V s' \<and> rules_inv (sv_dns V) cfg (sg_running s')"
proof -
  obtain d where d: "session_step V K (s\<lparr>sg_running := (sg_running s)\<lparr>rn_clock := rn_clock (sg_running s) + d\<rparr>\<rparr>) s'"
    using assms(3) by (auto simp: serving_busy_def)
  let ?s = "s\<lparr>sg_running := (sg_running s)\<lparr>rn_clock := rn_clock (sg_running s) + d\<rparr>\<rparr>"
  have ok: "sessions_ok V ?s" "rules_inv (sv_dns V) cfg (sg_running ?s)"
    using assms(1,2) by (simp_all add: sessions_ok_def rules_inv_def)
  have "serving_left V cfg ?s = serving_left V cfg s" by (simp add: serving_left_def work_left_def)
  moreover have "rules_inv (sv_dns V) cfg (sg_running s')"
    using rules_inv_proxy [OF serving_step_proxy [OF serving_step.stepping [OF d]] ok(2)] .
  ultimately show ?thesis using session_step_rank [OF ok d] sessions_ok_step [OF ok(1) d] by simp
qed

lemma serving_busy_bound:
  assumes "(serving_busy V K ^^ n) s s'" "sessions_ok V s" "rules_inv (sv_dns V) cfg (sg_running s)"
  shows "n + serving_left V cfg s' \<le> serving_left V cfg s"
  using assms
proof (induction n arbitrary: s)
  case (Suc n)
  then obtain s1 where "serving_busy V K s s1" "(serving_busy V K ^^ n) s1 s'" by (meson relpowp_Suc_D2)
  then show ?case using serving_busy_rank [OF Suc.prems(2,3), of K s1] Suc.IH [of s1] by fastforce
qed simp

lemma serving_left_le:
  assumes "rules_inv (sv_dns V) cfg (sg_running s)"
  shows "serving_left V cfg s \<le> (length (rn_tasks (sg_running s)) + (\<Sum>z \<leftarrow> sg_sessions s. most_questions (fst z))) * question_cost cfg"
proof -
  let ?c = "question_cost cfg"
  have "work_left (sv_dns V) cfg (sg_running s) \<le> (\<Sum>x \<leftarrow> rn_tasks (sg_running s). most_steps (sv_dns V) cfg (fst x))"
    by (rule work_left_le [OF assms])
  also have "\<dots> \<le> (\<Sum>x \<leftarrow> rn_tasks (sg_running s). ?c)"
    by (rule sum_list_mono) (rule add_leD1 [OF most_steps_widest])
  finally have 1: "work_left (sv_dns V) cfg (sg_running s) \<le> length (rn_tasks (sg_running s)) * ?c"
    by (simp add: sum_list_triv)
  have "session_rank V ?c z \<le> most_questions (fst z) * ?c" for z
  proof (cases z)
    case (fields x as w)
    have "(m - Suc k) * ?c + 1 \<le> m * ?c" if "k < m" for m k
    proof -
      have "(m - Suc k) * ?c + ?c = Suc (m - Suc k) * ?c" by simp
      also have "\<dots> \<le> m * ?c" using that by (intro mult_le_mono1) simp
      finally show ?thesis by (simp add: question_cost_def)
    qed
    then show ?thesis using fields sessions.untold [of V x as]
      by (auto simp: session_rank_def split: option.splits intro!: mult_le_mono1)
  qed
  then have "sum_list (map (session_rank V ?c) (sg_sessions s)) \<le> (\<Sum>z \<leftarrow> sg_sessions s. most_questions (fst z) * ?c)"
    by (intro sum_list_mono)
  also have "\<dots> = (\<Sum>z \<leftarrow> sg_sessions s. most_questions (fst z)) * ?c" by (simp add: sum_list_mult_const)
  finally show ?thesis using 1 by (simp add: serving_left_def add_mult_distrib)
qed

end
