(* ===== verification/Props_Serving.thy ===== *)
theory Props_Serving
  imports Props_Proxy Serving
begin

text \<open>
  The properties of the whole serving process, from the bytes that a peer sends to the bytes it gets.
\<close>

section \<open>An example: one datagram\<close>

definition ex_listeners :: served where
  "ex_listeners = \<lparr>sv_dns = ref_dns, sv_b64 = ref_base64, sv_crypto = ref_crypto,
     sv_creds = credentials_new (b64_encode ref_base64) [(''bob'', ''secret'')],
     sv_dnscrypt = ex_config, sv_early = ''early''\<rparr>"

abbreviation ex_answers :: answers where
  "ex_answers \<equiv> [0 \<mapsto> (ex_query, Ok ex_reply)]"

lemma ex_serving:
  "\<exists>s. serving_reaches ex_listeners ex_lru ex_proxy s \<and> sg_sessions s = [(UdpPacket ex_bytes, ex_answers, None)]"
proof -
  let ?step = "serving_step ex_listeners ex_lru"
  let ?s1 = "(sg_init ex_proxy 0)\<lparr>sg_sessions := [(UdpPacket ex_bytes, Map.empty, None)]\<rparr>"
  let ?s2 = "\<lparr>sg_running = ex_state [(ex_query, Phase Started)],
    sg_sessions = [(UdpPacket ex_bytes, Map.empty, Some (0, ex_query, 0))]\<rparr>"
  have "?step (sg_init ex_proxy 0) ?s1"
    using serving_step.accepting [of _ _ "sg_init ex_proxy 0" "UdpPacket ex_bytes"] by (simp add: sg_init_def)
  moreover have "session_ask ex_listeners (UdpPacket ex_bytes) Map.empty = Some (0, ex_query)"
    using exchanged_decode(1) [OF ex_exchanged] by (simp add: ex_listeners_def ask_once_def decoded_def told_def)
  then have "?step ?s1 ?s2"
    using serving_step.stepping [OF session_step.calling [of ?s1 0 "UdpPacket ex_bytes" Map.empty ex_listeners 0 ex_query]]
    by (simp add: has_session_def sg_init_def set_session_def ex_state_def rn_init_def)
  moreover obtain r where r: "(handler_step ref_dns ex_lru)\<^sup>*\<^sup>* (ex_state [(ex_query, Phase Started)]) r"
      "rn_tasks r = [(ex_query, Phase (Finished (Ok ex_reply)))]"
    using ex_handler_run by blast
  have "?step\<^sup>*\<^sup>* ?s2 (?s2\<lparr>sg_running := r\<rparr>)"
    by (rule handler_steps_serving) (use r(1) in \<open>simp add: ex_listeners_def\<close>)
  moreover have "?step (?s2\<lparr>sg_running := r\<rparr>) \<lparr>sg_running = r, sg_sessions = [(UdpPacket ex_bytes, ex_answers, None)]\<rparr>"
    using serving_step.stepping [OF session_step.taking [of "?s2\<lparr>sg_running := r\<rparr>" 0 "UdpPacket ex_bytes" Map.empty 0 ex_query 0]]
      r(2) by (simp add: has_session_def has_task_def set_session_def)
  ultimately have "?step\<^sup>*\<^sup>* (sg_init ex_proxy 0) \<lparr>sg_running = r, sg_sessions = [(UdpPacket ex_bytes, ex_answers, None)]\<rparr>"
    by (meson converse_rtranclp_into_rtranclp rtranclp.rtrancl_into_rtrancl)
  then show ?thesis unfolding serving_reaches_def by fastforce
qed

section \<open>Properties\<close>

text \<open>C1: once the program serves, in every interleaving of its connections and requests, with the cache
  or without and whatever the network does, a peer is told nothing but answers to its own questions. A
  UDP packet or QUIC stream is answered with a message for its question, truncated if it does not fit; a
  request over HTTPS gets such a message whenever the status is 200; the output of a TCP or TLS connection
  is the frames of such messages, one for each of its messages in their order, as far as the peer takes
  them; a DNSCrypt peer gets the certificate or an encryption of such a message.\<close>

theorem peers_get_answers_to_their_questions:
  assumes "main E a p = (Ok (Serving px), p')" "dns_cache (sv_dns V) (env_lru E) recent cap"
    and "serving_reaches V (env_lru E) px s" "(x, as, w) \<in> set (sg_sessions s)"
  shows "proper V x (session_run V x (replay as))"
proof (rule proper_run)
  show "right_answers (sv_dns V) as"
    by (rule session_right_answers [OF sessions_ok_reaches [OF assms(3)] assms(4)])
      (rule proxy_answers_the_question [OF assms(1,2) serving_reaches_proxy [OF assms(3)]])
qed

theorem peers_get_answers_to_their_questions_witness:
  "\<exists>s. serving_reaches ex_listeners (env_lru ex_env) ex_proxy s \<and>
    sg_sessions s = [(UdpPacket ex_bytes, ex_answers, None)] \<and>
    proper ex_listeners (UdpPacket ex_bytes) (Datagram (Some (Ok ex_reply_bytes)))"
proof -
  obtain s where s: "serving_reaches ex_listeners (env_lru ex_env) ex_proxy s"
      "sg_sessions s = [(UdpPacket ex_bytes, ex_answers, None)]"
    using ex_serving by (auto simp: ex_env_def)
  obtain p' where "main ex_env ex_args ex_process = (Ok (Serving ex_proxy), p')" using ex_main by blast
  from peers_get_answers_to_their_questions [OF this _ s(1), of snd fst "UdpPacket ex_bytes" ex_answers None]
  have "proper ex_listeners (UdpPacket ex_bytes) (session_run ex_listeners (UdpPacket ex_bytes) (replay ex_answers))"
    using s(2) ref_cache.dns_cache_axioms by (simp add: ex_env_def ex_listeners_def)
  moreover have "session_run ex_listeners (UdpPacket ex_bytes) (replay ex_answers) = Datagram (Some (Ok ex_reply_bytes))"
    using ex_exchanged exchanged_decode(1) [OF ex_exchanged]
    by (simp add: ex_listeners_def handle_udp_packet_def replay_def told_def fit_udp_def exchanged_def ex_reply_bytes_def)
  ultimately show ?thesis using s by auto
qed



end
