(* ===== verification/Spec2Isabelle.thy ===== *)
theory Spec2Isabelle
  imports Props_Servers Props_Cache Props_Serving
begin

text \<open>
  A verification of \<open>dnsproxy.rs\<close>, a DNS proxy that forwards queries over UDP, TCP, DNS over TLS, QUIC,
  HTTPS and HTTP/3, and DNSCrypt, and serves the same protocols to its own clients. Source paths
  below are relative to \<open>src/src/\<close>.

  \<^bold>\<open>The program.\<close> \<open>main.rs\<close> reads the arguments, parses the upstream rules, wraps the handler over the
  upstreams in a cache, and starts the listeners. A listener decodes a query and calls the handler;
  the cache answers it or passes it on; \<open>upstream_config.rs\<close> picks the upstreams of the query's name
  and tries them in turn; a client sends the query and checks the response. An upstream's host is
  found by a bootstrap resolver, which may itself be a DoH client.

  \<^bold>\<open>Theories and sources.\<close>

  \<^item> \<open>Prelude\<close>, \<open>Rust_Std\<close>, \<open>Addr_Text\<close>, \<open>Async\<close>: what the sources use of Rust and its library. Words for
    the machine integers, UTF-8 byte strings, results with an error and a panic, trimming and
    splitting, integer and address texts with their parsers, futures that resolve after a time or
    never, deadlines and \<open>select\<close>.

  \<^item> \<open>Dns_Message\<close> (\<open>error.rs\<close>, \<open>options.rs\<close>), \<open>Wire\<close> (\<open>client/wire.rs\<close>), \<open>Net\<close>: errors, options, messages, and
    the DNS library, sockets, TLS and QUIC as parameters.

  \<^item> \<open>Cache\<close>, \<open>Cache_Tasks\<close> (\<open>cache.rs\<close>): the cache as an operation on its state, and as the steps that
    concurrent requests take between two locks of the mutex.

  \<^item> \<open>Bootstrap\<close> (\<open>client/bootstrap.rs\<close>), \<open>Plain_Clients\<close> (\<open>client/plain_udp.rs\<close>, \<open>plain_tcp.rs\<close>, \<open>dot.rs\<close>),
    \<open>Quic_Clients\<close> (\<open>client/doq.rs\<close>), \<open>Doh_Client\<close> (\<open>client/doh.rs\<close>, \<open>doh3.rs\<close>), \<open>Dnscrypt_Crypto\<close>,
    \<open>Dnscrypt_Stamp\<close>, \<open>Dnscrypt_Client\<close>, \<open>Dnscrypt_Config\<close> (\<open>client/dnscrypt.rs\<close> and \<open>client/dnscrypt/\<close>): the
    clients. What a client keeps between exchanges (a connection, a certificate, the outcome of the
    HTTP/3 race) is passed through explicitly.

  \<^item> \<open>Latency\<close>, \<open>Upstream\<close> (\<open>client/upstream.rs\<close>), \<open>Upstream_Url\<close>, \<open>Upstream_Config\<close> (\<open>client/upstream_url.rs\<close>,
    \<open>upstream_config.rs\<close>): the six kinds of upstream behind one type, the moving average with the
    rounding of its floating-point operations, address texts, rules, orders and failover. The shared
    \<open>Arc<TrackedUpstream>\<close> of several rules is an index into one store.

  \<^item> \<open>Listener_Io\<close> (\<open>listener/io.rs\<close>, \<open>dot.rs\<close>, \<open>doq.rs\<close>), \<open>Listener_Doh\<close> (\<open>listener/doh_auth.rs\<close>, \<open>doh.rs\<close>,
    \<open>doh3.rs\<close>), \<open>Listener_Dnscrypt\<close> (\<open>listener/dnscrypt.rs\<close>): what a listener does with a packet, a
    connection, a stream or a request. \<open>Listener_Setup\<close>: how each of them starts, its accept loops, and
    \<open>listener/tls_config.rs\<close>.

  \<^item> \<open>Main_Args\<close>, \<open>Main_Program\<close>, \<open>Private_Zones\<close> (\<open>main.rs\<close>): the arguments, the log and the crypto provider,
    and the way from the arguments to the serving process.

  \<^item> \<open>Locking\<close>, \<open>Shared_Clients\<close>, \<open>Client_Locks\<close>, \<open>Client_Runs\<close>: the clients that keep something between
    exchanges, used by several requests at once. A request goes through the steps between two
    acquisitions of a mutex; it holds one lock at a time and a bounded number of steps remain, and the
    steps of a request alone are the exchange of the client theories.

  \<^item> \<open>Running_Proxy\<close>, \<open>Proxy_Progress\<close>: the serving handler as a step relation, in which requests take turns
    at looking into the cache, picking upstreams, the steps of an exchange, and storing the answer.
    \<open>Front_Ends\<close>: what a packet, stream, request or connection of each of the eight listeners asks the
    handler, as a function of the answers so far. \<open>Serving\<close>: the whole process, in which sessions
    call that handler and wait for it.

  \<^item> \<open>Reference\<close>, \<open>Loopback\<close>, \<open>Loopback_Dnscrypt\<close>, \<open>Examples\<close>: implementations of the contracts of
    third-party code, networks whose peer is a listener of this program, and concrete inputs.

  \<^bold>\<open>Interfaces.\<close> Each contract is a locale, and the client's lemmas are proved in it once. Of the
  libraries: \<open>lru_cache\<close>, \<open>dns_codec\<close>, \<open>dns_names\<close>, \<open>dns_builder\<close>, \<open>base64_engine\<close>, \<open>std_base64\<close>,
  \<open>crypto_laws\<close>, interpreted on implementations that satisfy them; \<open>dns_cache\<close>, which the concurrent
  cache rests on, extends two of them. Of the program's own components: \<open>validated_exchange\<close>,
  interpreted on every client and on the type that unites them, \<open>bounded_exchange\<close> on the clients with
  one deadline, \<open>starter\<close> on the start of the seven listeners, \<open>locking\<close> (a request holds at most one
  lock, gives it back, and has finitely many steps left) on the steps of the shared clients, \<open>slot_state\<close>
  on the connection of DoQ and the HTTP client of DoH, \<open>stream_listener\<close> and \<open>asking_listener\<close> on the
  connection loops of the TCP, DoT and DNSCrypt listeners, and \<open>front_end\<close> (a session's result depends on
  the handler through its questions only) on all sessions.

  \<^bold>\<open>What is shown\<close> (\<open>Props_Cache\<close>, \<open>Props_Clients\<close>, \<open>Props_Config\<close>, \<open>Props_Main\<close>, \<open>Props_Proxy\<close>,
  \<open>Props_Servers\<close>, \<open>Props_Serving\<close> and below). The serving program, in every interleaving: a peer of any
  listener gets nothing but answers to its own questions; sessions and requests come to an end in a
  bounded number of steps and never wait for each other in a circle; one request at a time dials an
  upstream; a request alone gets what the sequential exchange gives; a request is only forwarded to
  the upstreams of its rule. It has the log and the listeners it was asked for;
  credentials are enforced; private zones go to the private upstream; a generated DNSCrypt
  configuration loads again and its certificate is valid. The cache: answers are fresh, of an
  equal key, within the configured size, and the two models agree. The clients: responses are
  validated, ids restored, deadlines kept, addresses tried in order, the fastest bootstrap answer
  taken. The configuration: parsing is total, exchanges keep it well formed, the most specific
  rule is used, every order is a permutation, failover returns the first answer or the last error.
  The listeners: a connection answers its messages in order, as far as the peer takes the output. This theory: each client of the
  program gets the handler's answer from the matching listener.

  \<^bold>\<open>Bounds.\<close> Every loop of the model is structural or has a termination proof, but two. The loop that
  reads an HTTP/3 body has fuel: \<open>2^16 + 1\<close> frames are enough for a peer that sends non-empty frames
  (\<open>Props_Servers.h3_body_terminates\<close>), as the body is cut off above 65535 bytes; a peer that sends empty
  frames for ever does keep the code there until its deadline, and the model gives \<open>Never\<close>. The accept
  loops run for ever, and are described by the tasks they have spawned after finitely many events.

  \<^bold>\<open>Simplifications.\<close> A bootstrap resolver is the outcome of its lookups as an exchange meets them. In
  the serving process a step is what happens between two awaits that matter to other requests, and
  the network may resolve what a step awaits in any way and after any time; that no session waits for
  ever then says that no lock and no other request keeps it waiting, given that the network operation
  it awaits does resolve, if only with an error. A connection to a stream listener is the bytes the
  peer sends until it closes, and the point at which it breaks the connection or stops taking output,
  if any. Messages of errors are lists of fragments. Every cargo feature is on, with one of the two
  crypto providers.

  \<^bold>\<open>Not modelled.\<close> The calls of \<open>tracing\<close>; the splitting of the command line into arguments, which is
  clap's; the stream adapter \<open>TlsStream\<close> of \<open>client/doh.rs\<close>, which only forwards polls; \<open>lib.rs\<close>,
  \<open>client.rs\<close> and \<open>listener.rs\<close>, which only declare modules; and the test modules: none of them decides
  anything about a query.
\<close>

section \<open>Clients and listeners of the program talk to each other\<close>

text \<open>C22: the plain TCP client gets from the plain TCP listener, and the DoT client from the DoT
  listener, exactly the handler's answer to its request: framing, decoding and validation on the
  two ends agree.\<close>

theorem stream_clients_and_listeners:
  assumes "exchanged L good req b resp rb" "fut_value (handle req) = Some (Ok resp)"
    and "parse_ip_addr host = Some ip"
  shows "tcp_exchange L (lo_net (\<lambda>s. fst (handle_tcp_connection L (\<lambda>_. handle) (s, Unlimited))) dgram)
        (tcp_new N host port opts) req = now (Ok resp) \<and>
    dot_exchange L (lo_net (\<lambda>s. fst (dot_handle_connection L (\<lambda>_. handle) (Inr (s, Unlimited)))) dgram)
        (dot_new N host port opts) req = now (Ok resp)"
  using tcp_loopback [where handle = handle, OF assms(1,2)] dot_loopback [where handle = handle, OF assms(1,2)] assms(3)
  by (simp add: tcp_new_def dot_new_def Let_def)

theorem stream_clients_and_listeners_witness:
  "tcp_exchange ref_dns (lo_net (\<lambda>s. fst (handle_tcp_connection ref_dns (\<lambda>_. ex_handler) (s, Unlimited))) (\<lambda>_. None))
      (tcp_new (lo_net id (\<lambda>_. None)) ''127.0.0.1'' None options_default) ex_query = now (Ok ex_reply) \<and>
   dot_exchange ref_dns (lo_net (\<lambda>s. fst (dot_handle_connection ref_dns (\<lambda>_. ex_handler) (Inr (s, Unlimited)))) (\<lambda>_. None))
      (dot_new (lo_net id (\<lambda>_. None)) ''127.0.0.1'' None options_default) ex_query = now (Ok ex_reply)"
  by (rule stream_clients_and_listeners [OF ex_exchanged _ ex_host]) (simp add: ex_reply_def)

text \<open>C23: the DoQ client gets from the DoQ listener the handler's answer with the id of its own
  request, although the id on the wire is zero both ways, and keeps the connection.\<close>

theorem doq_client_and_listener:
  assumes "exchanged L good (req\<lparr>msg_id := 0\<rparr>) b (resp\<lparr>msg_id := 0\<rparr>) rb"
    and "fut_value (handle (req\<lparr>msg_id := 0\<rparr>)) = Some (Ok resp)" "parse_ip_addr host = Some ip"
  shows "doq_exchange L (lo_net (\<lambda>s. doq_reply (doq_handle_stream L early handle s)) dgram)
      (doq_new N host port opts) None req = now (Ok (resp\<lparr>msg_id := msg_id req\<rparr>), Some (Lo [] 0))"
  using doq_loopback [where handle = handle, OF assms(1,2)] assms(3) by (simp add: doq_new_def Let_def)

theorem doq_client_and_listener_witness:
  "doq_exchange ref_dns (lo_net (\<lambda>s. doq_reply (doq_handle_stream ref_dns ''early'' ex_handler s)) (\<lambda>_. None))
      (doq_new (lo_net id (\<lambda>_. None)) ''127.0.0.1'' None options_default) None ex_query =
    now (Ok ((ex_reply\<lparr>msg_id := 0\<rparr>)\<lparr>msg_id := msg_id ex_query\<rparr>), Some (Lo [] 0))"
  by (rule doq_client_and_listener [OF _ _ ex_host])
    (use ex_exchanged_zero in \<open>simp_all add: ex_reply_def ex_query_def\<close>)

text \<open>C6: the DoH client gets from the DoH listener the handler's answer with the id of its own
  request, over HTTP/1.1 or HTTP/2 and over HTTP/3, in the time the handler takes, when it
  presents one of the listener's credentials or the listener has none.\<close>

theorem doh_client_and_listener:
  assumes "base64_engine B"
    and "exchanged L good (req\<lparr>msg_id := 0\<rparr>) b resp rb" "msg_id resp = 0"
    and "handle (req\<lparr>msg_id := 0\<rparr>) = Ready t (Ok resp)"
    and "parse_ip_addr (doh_host self) = Some ip" "CHR ''?'' \<notin> set (doh_host self)"
      "CHR ''?'' \<notin> set (doh_path self)" "in_time (doh_timeout self) t" "authorized_for self enc pairs"
  shows "map_fut fst (doh_exchange L B (lo_net stream dgram)
        (lo_http (handle_request L B handle (credentials_new enc pairs)))
        (Suc (Suc n)) qf (self\<lparr>doh_http_versions := [Http11, Http2]\<rparr>) doh_init req) =
      Ready t (Ok (resp\<lparr>msg_id := msg_id req\<rparr>)) \<and>
    map_fut fst (doh_exchange L B (lo_net stream dgram)
        (lo_http (h3_handle_request L B handle (credentials_new enc pairs)))
        (Suc (Suc n)) qf (self\<lparr>doh_http_versions := [Http3]\<rparr>) doh_init req) =
      Ready t (Ok (resp\<lparr>msg_id := msg_id req\<rparr>))"
  using assms
  by (intro conjI doh_loopback [where handle = handle] doh3_loopback [where handle = handle])
    (simp_all add: authorized_for_def)

theorem doh_client_and_listener_witness:
  "map_fut fst (doh_exchange ref_dns ref_base64 (lo_net id (\<lambda>_. None))
      (lo_http (handle_request ref_dns ref_base64 ex_handler
        (credentials_new (b64_encode ref_base64) [(''user'', ''secret'')])))
      2 True (ex_doh\<lparr>doh_http_versions := [Http11, Http2]\<rparr>) doh_init ex_query) =
      Ready 5 (Ok ((ex_reply\<lparr>msg_id := 0\<rparr>)\<lparr>msg_id := msg_id ex_query\<rparr>)) \<and>
   map_fut fst (doh_exchange ref_dns ref_base64 (lo_net id (\<lambda>_. None))
      (lo_http (h3_handle_request ref_dns ref_base64 ex_handler
        (credentials_new (b64_encode ref_base64) [(''user'', ''secret'')])))
      2 True (ex_doh\<lparr>doh_http_versions := [Http3]\<rparr>) doh_init ex_query) =
      Ready 5 (Ok ((ex_reply\<lparr>msg_id := 0\<rparr>)\<lparr>msg_id := msg_id ex_query\<rparr>))"
  unfolding numeral_2_eq_2
  by (rule doh_client_and_listener [OF ref_b64.base64_engine_axioms ex_exchanged_zero])
    (simp_all add: ex_reply_def ex_query_def ex_doh_def doh_new_def options_default_def ex_host
      in_time_def from_secs_def authorized_for_def basic_header_def Let_def)

text \<open>C24: the plain UDP client gets the handler's answer from the plain UDP listener when it fits
  into 512 bytes, and the truncated answer, marked as such, when it does not.\<close>

theorem udp_client_and_listener:
  assumes "exchanged L good req b resp rb" "exchanged L good req b (truncate_msg L resp) tb"
    and "fut_value (handle req) = Some (Ok resp)"
  shows "udp_exchange L (lo_net stream (\<lambda>p. udp_reply (handle_udp_packet L handle p))) (udp_new addr tmo) req =
    now (Ok (if length rb \<le> 512 then resp else truncate_msg L resp))"
  using udp_loopback [where handle = handle, OF assms(1,3,2)] .

theorem udp_client_and_listener_witness:
  "udp_exchange ref_dns (lo_net id (\<lambda>p. udp_reply (handle_udp_packet ref_dns ex_handler p)))
     (udp_new lo_addr None) ex_query =
   now (Ok (if length ex_reply_bytes \<le> 512 then ex_reply else truncate_msg ref_dns ex_reply))"
proof -
  obtain tb where "exchanged ref_dns ref_good ex_query ex_bytes (truncate_msg ref_dns ex_reply) tb"
    using ex_exchanged_truncated by blast
  from udp_client_and_listener [OF ex_exchanged this, of ex_handler] show ?thesis
    by (simp add: ex_reply_def)
qed

text \<open>C5: a DNSCrypt client that knows only the server's stamp gets the handler's answer from the
  DNSCrypt listener: it fetches and checks the certificate, encrypts the query for it, and falls
  back to TCP when the answer does not fit into a datagram or is truncated; it keeps the
  certificate.\<close>

theorem dnscrypt_client_and_listener:
  assumes "crypto_laws C" "dns_builder L" "dns_names L"
    and "length rsk = 32" "length sgk = 32" "length magic = 8"
    and "config = dnscrypt_server_new C rsk sgk pname magic ser ts te"
    and "provider_public_key (dc_stamp self) = verifying_key_of C sgk" "st_provider_name (dc_stamp self) = pname"
    and "is_valid_at (server_cert C rsk magic ser ts te) (su_now_refresh su)"
    and "name_from_ascii L pname = Inr nm"
      "exchanged L good (txt_query L (su_rid su) nm) qb (txt_answer L config (su_rid su) nm) ab" "length ab \<le> 512"
    and "dc_agreed L C config (server_cert C rsk magic ser ts te) (su_secret su) (su_nonce su) b"
    and "exchanged L good req b resp rb" "exchanged L good req b (truncate_msg L resp) tb"
      "truncation (truncate_msg L resp)"
    and "length b \<le> 60000" "length rb \<le> 60000" "length tb \<le> 60000"
    and "length rn = 12" "length rn' = 12" "length (rns 0) = 12"
    and "fut_value (handle req) = Some (Ok resp)"
  shows "dc_exchange L C (dc_net L C rns rn rn' config handle) N' self su su' None req =
    now (Ok resp, Some (server_cert C rsk magic ser ts te))"
  using assms by (rule dnscrypt_loopback [where handle = handle and rns = rns])

theorem dnscrypt_client_and_listener_witness:
  "dc_exchange ex_lib ref_crypto
     (dc_net ex_lib ref_crypto (\<lambda>_. replicate 12 9) (replicate 12 7) (replicate 12 8) ex_config ex_handler)
     (lo_net id (\<lambda>_. None)) ex_stamp ex_supply ex_supply None ex_query =
   now (Ok ex_reply, Some (server_cert ref_crypto (replicate 32 1) ex_magic 1 100 200))"
proof -
  obtain qb where q: "exchanged ex_lib ex_good (txt_query ex_lib (su_rid ex_supply) ex_pnm) qb
      (txt_answer ex_lib ex_config (su_rid ex_supply) ex_pnm) [1, 0, 5]"
    using ex_txt_exchanged by (auto simp: ex_supply_def)
  obtain tb where t: "exchanged ex_lib ex_good ex_query ex_bytes (truncate_msg ex_lib ex_reply) tb" "length tb \<le> 60000"
    using ex_lib_exchanged(2) by blast
  have ag: "dc_agreed ex_lib ref_crypto ex_config (server_cert ref_crypto (replicate 32 1) ex_magic 1 100 200)
      (su_secret ex_supply) (su_nonce ex_supply) ex_bytes"
    using ex_agreed by (simp add: ex_supply_def)
  have L: "dns_builder ex_lib" "dns_names ex_lib"
    unfolding ex_lib_def by (rule ref_dns_with.dns_builder_axioms ref_dns_with.dns_names_axioms)+
  have nm: "name_from_ascii ex_lib ex_pname = Inr ex_pnm"
    by (simp add: ex_lib_def ref_dns_with_def ref_dns_def ref_name_from_ascii_def ex_pname_def ex_pnm_def Let_def)
  show ?thesis
    by (rule dnscrypt_client_and_listener [where handle = ex_handler, OF ref_crypto.crypto_laws_axioms L _ _ _
          ex_config_def _ _ _ nm q _ ag ex_lib_exchanged(1) t(1) _ _ _ t(2)])
      (simp_all add: ex_magic_def ex_stamp_def ref_crypto_def server_cert_def is_valid_at_def ex_supply_def now_unix_def
        ex_lib_def ref_dns_with_def ref_dns_def ex_bytes_def ex_reply_bytes_def ex_reply_def)
qed

end
